(* ===== verification/Prelude.thy ===== *)
theory Prelude
  imports Main "HOL-Library.Word" "HOL-Library.Multiset" "HOL-Library.List_Lexorder" "HOL-Library.Char_ord"
begin

text \<open>
  What the components share: the names of the model's basic types, the parts of Go's
  language and standard library that the sources use (integers of a fixed width,
  \<open>strings.Split\<close> and \<open>strings.Join\<close>, \<open>strconv\<close>, \<open>sort.Slice\<close>, the iteration order of maps and
  sets), the datatype of Go errors, and the generic lemmas on lists, maps and folds that the
  component proofs use.
\<close>

named_theorems cond_simps \<open>rewriting of the condition manager\<close>
named_theorems disp_simps \<open>rewriting of the Kafka dispatcher\<close>
named_theorems probe_simps \<open>rewriting of the status prober\<close>

section \<open>Basic types\<close>

type_synonym int32 = "32 word"
type_synonym int16 = "16 word"
type_synonym uid = string
type_synonym ip = string
type_synonym time = int

text \<open>\<open>types.NamespacedName\<close>.\<close>

record NamespacedName =
  nn_Namespace :: string
  nn_Name :: string

text \<open>
  Go errors. \<open>ApiNotFound\<close> and \<open>ApiConflict\<close> are the API errors that
  \<open>apierrs.IsNotFound\<close> and \<open>apierrs.IsConflict\<close> recognise; \<open>ReconcilerEvent\<close> is the event of
  \<open>knative.dev/pkg/reconciler\<close>, an error with a type and a reason; \<open>Wrap\<close> is an error made with
  the verb \<open>%w\<close> (its cause can be recovered by \<open>errors.As\<close>), \<open>ErrorText\<close> every other error.
\<close>

datatype go_error =
    ApiNotFound string
  | ApiConflict string
  | ReconcilerEvent string string string
  | ErrorText string
  | Wrap string go_error

text \<open>The outcome of a call that may panic.\<close>

datatype 'a outcome = Returns 'a | Panics

fun IsNotFound :: "go_error \<Rightarrow> bool" where
  "IsNotFound (ApiNotFound _) = True"
| "IsNotFound (Wrap _ e) = IsNotFound e"
| "IsNotFound _ = False"

fun IsConflict :: "go_error \<Rightarrow> bool" where
  "IsConflict (ApiConflict _) = True"
| "IsConflict (Wrap _ e) = IsConflict e"
| "IsConflict _ = False"

text \<open>The text of an error, \<open>Error()\<close>.\<close>

fun error_text :: "go_error \<Rightarrow> string" where
  "error_text (ApiNotFound s) = s"
| "error_text (ApiConflict s) = s"
| "error_text (ReconcilerEvent _ _ s) = s"
| "error_text (ErrorText s) = s"
| "error_text (Wrap s e) = s @ error_text e"

section \<open>Strings\<close>

text \<open>\<open>strings.Split(s, c)\<close> for a separator of one character.\<close>

fun go_split :: "char \<Rightarrow> string \<Rightarrow> string list" where
  "go_split c [] = [[]]"
| "go_split c (x # xs) =
     (if x = c then [] # go_split c xs
      else (case go_split c xs of [] \<Rightarrow> [[x]] | w # ws \<Rightarrow> (x # w) # ws))"

text \<open>\<open>strings.Join\<close>.\<close>

fun go_join :: "string \<Rightarrow> string list \<Rightarrow> string" where
  "go_join sep [] = []"
| "go_join sep [w] = w"
| "go_join sep (w # v # ws) = w @ sep @ go_join sep (v # ws)"

text \<open>The verb \<open>%d\<close> and \<open>strconv.FormatBool\<close>.\<close>

definition digit_char :: "nat \<Rightarrow> char" where
  "digit_char n = ''0123456789'' ! n"

fun itoa_nat :: "nat \<Rightarrow> string" where
  "itoa_nat n = (if n < 10 then [digit_char n] else itoa_nat (n div 10) @ [digit_char (n mod 10)])"

declare itoa_nat.simps [simp del]

definition itoa :: "int \<Rightarrow> string" where
  "itoa i = (if i < 0 then ''-'' @ itoa_nat (nat (- i)) else itoa_nat (nat i))"

definition format_bool :: "bool \<Rightarrow> string" where
  "format_bool b = (if b then ''true'' else ''false'')"

lemma go_split_not_Nil [simp]: "go_split c s \<noteq> []"
  by (cases s) (auto split: list.splits)

lemma length_go_split: "length (go_split c s) = Suc (length (filter (\<lambda>x. x = c) s))"
  by (induction s) (auto split: list.splits)

lemma go_join_Cons: "ws \<noteq> [] \<Longrightarrow> go_join sep (w # ws) = w @ sep @ go_join sep ws"
  by (cases ws) auto

lemma go_join_split: "go_join [c] (go_split c s) = s"
proof (induction s)
  case Nil
  then show ?case by simp
next
  case (Cons x s)
  obtain w ws where ws: "go_split c s = w # ws"
    by (cases "go_split c s") auto
  from Cons.IH have "go_join [c] (w # ws) = s" by (simp add: ws)
  moreover have "go_split c (x # s) = (if x = c then [] # w # ws else (x # w) # ws)"
    by (simp add: ws)
  ultimately show ?case by (cases ws) auto
qed

lemma go_split_no_sep: "c \<notin> set s \<Longrightarrow> go_split c s = [s]"
  by (induction s) auto

lemma go_split_append:
  "c \<notin> set w \<Longrightarrow> go_split c (w @ c # s) = w # go_split c s"
  by (induction w) auto

lemma go_split_join:
  "ws \<noteq> [] \<Longrightarrow> (\<And>w. w \<in> set ws \<Longrightarrow> c \<notin> set w) \<Longrightarrow> go_split c (go_join [c] ws) = ws"
proof (induction ws)
  case Nil
  then show ?case by simp
next
  case (Cons w ws)
  show ?case
  proof (cases "ws = []")
    case True
    with Cons.prems show ?thesis by (simp add: go_split_no_sep)
  next
    case False
    with Cons show ?thesis by (simp add: go_join_Cons go_split_append)
  qed
qed

lemma go_split_elem_no_sep: "w \<in> set (go_split c s) \<Longrightarrow> c \<notin> set w"
  by (induction s arbitrary: w) (auto split: if_splits list.splits)

section \<open>Sorting\<close>

text \<open>
  \<open>sort.Slice(xs, lt)\<close>. Go leaves the order of equal elements open; the model inserts each
  element after the ones it is not less than, so equal elements keep their order.
\<close>

fun insert_by :: "('a \<Rightarrow> 'a \<Rightarrow> bool) \<Rightarrow> 'a \<Rightarrow> 'a list \<Rightarrow> 'a list" where
  "insert_by lt x [] = [x]"
| "insert_by lt x (y # ys) = (if lt x y then x # y # ys else y # insert_by lt x ys)"

definition sort_slice :: "('a \<Rightarrow> 'a \<Rightarrow> bool) \<Rightarrow> 'a list \<Rightarrow> 'a list" where
  "sort_slice lt xs = fold (insert_by lt) xs []"

lemma mset_insert_by [simp]: "mset (insert_by lt x ys) = add_mset x (mset ys)"
  by (induction ys) auto

lemma mset_fold_insert_by: "mset (fold (insert_by lt) xs acc) = mset xs + mset acc"
  by (induction xs arbitrary: acc) auto

lemma mset_sort_slice [simp]: "mset (sort_slice lt xs) = mset xs"
  by (simp add: sort_slice_def mset_fold_insert_by)

lemma set_sort_slice [simp]: "set (sort_slice lt xs) = set xs"
  by (metis mset_sort_slice set_mset_mset)

lemma length_sort_slice [simp]: "length (sort_slice lt xs) = length xs"
  by (metis mset_sort_slice size_mset)

lemma distinct_map_sort_slice [simp]:
  "distinct (map f (sort_slice lt xs)) = distinct (map f xs)"
proof -
  have "mset (map f (sort_slice lt xs)) = mset (map f xs)" by simp
  then show ?thesis by (metis mset_eq_imp_distinct_iff)
qed

lemma sorted_insert_by_key:
  fixes k :: "'a \<Rightarrow> 'b :: linorder"
  shows "sorted (map k ys) \<Longrightarrow> sorted (map k (insert_by (\<lambda>a b. k a < k b) x ys))"
proof (induction ys)
  case Nil
  then show ?case by simp
next
  case (Cons y ys)
  have s: "set (insert_by (\<lambda>a b. k a < k b) x ys) = insert x (set ys)"
    by (metis mset_insert_by set_mset_add_mset_insert set_mset_mset)
  from Cons show ?case by (auto simp: s dest: less_imp_le)
qed

lemma sorted_sort_slice_key:
  fixes k :: "'a \<Rightarrow> 'b :: linorder"
  shows "sorted (map k (sort_slice (\<lambda>a b. k a < k b) xs))"
proof -
  have "sorted (map k acc) \<Longrightarrow> sorted (map k (fold (insert_by (\<lambda>a b. k a < k b)) xs acc))" for acc
    by (induction xs arbitrary: acc) (auto intro: sorted_insert_by_key)
  then show ?thesis by (simp add: sort_slice_def)
qed

section \<open>Iteration over maps and sets\<close>

text \<open>
  Go iterates over a map or a set in an order the language does not fix. An operation that
  iterates takes the order as an argument \<open>ord\<close>, a function that lists the elements of a set;
  what the language promises of it is that every element of a finite set is listed exactly once.
\<close>

locale go_range =
  fixes ord :: "'a set \<Rightarrow> 'a list"
  assumes set_ord: "finite S \<Longrightarrow> set (ord S) = S"
    and distinct_ord: "finite S \<Longrightarrow> distinct (ord S)"
begin

lemma ord_Nil_iff: "finite S \<Longrightarrow> ord S = [] \<longleftrightarrow> S = {}"
  by (metis set_empty set_ord)

lemma length_ord: "finite S \<Longrightarrow> length (ord S) = card S"
  by (metis distinct_card distinct_ord set_ord)

end

text \<open>The sorted order (what \<open>List()\<close> of \<open>sets.String\<close> and \<open>sets.Int32\<close> return) is one of them.\<close>

interpretation sorted_range: go_range "sorted_list_of_set :: 'a :: linorder set \<Rightarrow> 'a list"
  by unfold_locales auto

section \<open>Lists, maps and folds\<close>

lemma fold_map_upd_None:
  "fold (\<lambda>k m. m(k := None)) ks m = (\<lambda>x. if x \<in> set ks then None else m x)"
  by (induction ks arbitrary: m) auto

lemma set_filter_key_absent: "k \<notin> f ` set xs \<Longrightarrow> {x \<in> set xs. f x \<noteq> k} = set xs"
  by (auto simp: image_iff)

lemma filter_eq_single: "distinct xs \<Longrightarrow> t \<in> set xs \<Longrightarrow> filter (\<lambda>x. x = t) xs = [t]"
  by (induction xs) (auto simp: filter_empty_conv)

lemma mset_remove_nth:
  "i < length xs \<Longrightarrow> mset xs = add_mset (xs ! i) (mset (take i xs @ drop (Suc i) xs))"
  by (metis id_take_nth_drop mset.simps(2) mset_append union_mset_add_mset_right)

lemma distinct_map_submset:
  assumes "mset ys \<subseteq># mset xs" "distinct (map f xs)"
  shows "distinct (map f ys)"
proof -
  from assms(1) obtain zs where "mset xs = mset (ys @ zs)"
    by (metis ex_mset mset_append subset_mset.less_eqE)
  then have "mset (map f xs) = mset (map f ys @ map f zs)" by simp
  with assms(2) show ?thesis by (metis distinct_append mset_eq_imp_distinct_iff)
qed

lemma set_mset_submset: "mset ys \<subseteq># mset xs \<Longrightarrow> set ys \<subseteq> set xs"
  by (metis set_mset_mono set_mset_mset)

lemma find_append:
  "find P (xs @ ys) = (case find P xs of None \<Rightarrow> find P ys | Some x \<Rightarrow> Some x)"
  by (induction xs) auto

lemma find_Some_in: "find P xs = Some x \<Longrightarrow> x \<in> set xs \<and> P x"
  by (induction xs) (auto split: if_splits)

lemma find_None_not: "find P xs = None \<longleftrightarrow> (\<forall>x \<in> set xs. \<not> P x)"
  by (induction xs) auto

lemma find_cong_key:
  "distinct (map f xs) \<Longrightarrow> x \<in> set xs \<Longrightarrow> find (\<lambda>y. f y = f x) xs = Some x"
  by (induction xs) auto

end
