(* ===== verification/Conditions.thy ===== *)
theory Conditions
  imports Prelude
begin

text \<open>
  The condition manager of \<open>knative.dev/pkg/apis\<close> (\<open>condition_set.go\<close>, \<open>condition_types.go\<close>) that
  the channel's status is kept with: a list of typed conditions, a \<open>happy\<close> condition and the
  dependents it summarises. The theory models every operation of the manager on the list of
  conditions that the accessor holds, states what the happy condition promises (it is the
  aggregate of its dependents) and proves that every marking operation restores that promise.
\<close>

section \<open>Data\<close>

type_synonym ConditionType = string
type_synonym ConditionStatus = string

abbreviation (input) ConditionTrue :: ConditionStatus where "ConditionTrue \<equiv> ''True''"
abbreviation (input) ConditionFalse :: ConditionStatus where "ConditionFalse \<equiv> ''False''"
abbreviation (input) ConditionUnknown :: ConditionStatus where "ConditionUnknown \<equiv> ''Unknown''"
abbreviation (input) ConditionReady :: ConditionType where "ConditionReady \<equiv> ''Ready''"
abbreviation (input) ConditionSeverityError :: string where "ConditionSeverityError \<equiv> ''''"
abbreviation (input) ConditionSeverityInfo :: string where "ConditionSeverityInfo \<equiv> ''Info''"

record Condition =
  c_Type :: ConditionType
  c_Status :: ConditionStatus
  c_Severity :: string
  c_LastTransitionTime :: time
  c_Reason :: string
  c_Message :: string

record ConditionSet =
  cs_happy :: ConditionType
  cs_dependents :: "ConditionType list"

text \<open>The methods on a possibly nil \<open>*Condition\<close>.\<close>

definition IsTrue :: "Condition option \<Rightarrow> bool" where
  "IsTrue c = (case c of None \<Rightarrow> False | Some c \<Rightarrow> c_Status c = ConditionTrue)"

definition IsFalse :: "Condition option \<Rightarrow> bool" where
  "IsFalse c = (case c of None \<Rightarrow> False | Some c \<Rightarrow> c_Status c = ConditionFalse)"

definition IsUnknown :: "Condition option \<Rightarrow> bool" where
  "IsUnknown c = (case c of None \<Rightarrow> True | Some c \<Rightarrow> c_Status c = ConditionUnknown)"

section \<open>Operations\<close>

fun newConditionSet_loop :: "ConditionType \<Rightarrow> ConditionType list \<Rightarrow> ConditionType list \<Rightarrow> ConditionType list" where
  "newConditionSet_loop happy [] deps = deps"
| "newConditionSet_loop happy (d # ds) deps =
     (if d = happy \<or> d \<in> set deps then newConditionSet_loop happy ds deps
      else newConditionSet_loop happy ds (deps @ [d]))"

definition newConditionSet :: "ConditionType \<Rightarrow> ConditionType list \<Rightarrow> ConditionSet" where
  "newConditionSet happy ds = \<lparr>cs_happy = happy, cs_dependents = newConditionSet_loop happy ds []\<rparr>"

definition NewLivingConditionSet :: "ConditionType list \<Rightarrow> ConditionSet" where
  "NewLivingConditionSet ds = newConditionSet ConditionReady ds"

definition GetCondition :: "ConditionType \<Rightarrow> Condition list \<Rightarrow> Condition option" where
  "GetCondition t conds = find (\<lambda>c. c_Type c = t) conds"

definition IsHappy :: "ConditionSet \<Rightarrow> Condition list \<Rightarrow> bool" where
  "IsHappy cs conds = IsTrue (GetCondition (cs_happy cs) conds)"

text \<open>The loop of \<open>SetCondition\<close>: \<open>None\<close> is its early return, \<open>Some\<close> the conditions it collected.\<close>

fun SetCondition_loop :: "Condition \<Rightarrow> Condition list \<Rightarrow> Condition list \<Rightarrow> Condition list option" where
  "SetCondition_loop cond [] conditions = Some conditions"
| "SetCondition_loop cond (c # cs) conditions =
     (if c_Type c \<noteq> c_Type cond then SetCondition_loop cond cs (conditions @ [c])
      else let cond' = cond\<lparr>c_LastTransitionTime := c_LastTransitionTime c\<rparr>
           in if cond' = c then None else SetCondition_loop cond' cs conditions)"

definition SetCondition :: "time \<Rightarrow> Condition \<Rightarrow> Condition list \<Rightarrow> Condition list" where
  "SetCondition now cond conds =
     (case SetCondition_loop cond conds [] of
        None \<Rightarrow> conds
      | Some conditions \<Rightarrow>
          sort_slice (\<lambda>a b. c_Type a < c_Type b) (conditions @ [cond\<lparr>c_LastTransitionTime := now\<rparr>]))"

definition isTerminal :: "ConditionSet \<Rightarrow> ConditionType \<Rightarrow> bool" where
  "isTerminal cs t \<longleftrightarrow> t \<in> set (cs_dependents cs) \<or> t = cs_happy cs"

definition severity :: "ConditionSet \<Rightarrow> ConditionType \<Rightarrow> string" where
  "severity cs t = (if isTerminal cs t then ConditionSeverityError else ConditionSeverityInfo)"

text \<open>A condition literal with the fields the manager sets (the zero time elsewhere).\<close>

definition mkCondition :: "ConditionSet \<Rightarrow> ConditionType \<Rightarrow> ConditionStatus \<Rightarrow> string \<Rightarrow> string \<Rightarrow> Condition" where
  "mkCondition cs t status reason message =
     \<lparr>c_Type = t, c_Status = status, c_Severity = severity cs t, c_LastTransitionTime = 0,
      c_Reason = reason, c_Message = message\<rparr>"

definition ClearCondition :: "ConditionSet \<Rightarrow> ConditionType \<Rightarrow> Condition list \<Rightarrow> string option \<times> Condition list" where
  "ClearCondition cs t conds =
     (if isTerminal cs t then (Some ''clearing terminal conditions not implemented'', conds)
      else case GetCondition t conds of
        None \<Rightarrow> (None, conds)
      | Some _ \<Rightarrow>
          (None, sort_slice (\<lambda>a b. c_Type a < c_Type b) (filter (\<lambda>c. c_Type c \<noteq> t) conds)))"

definition findUnhappyDependent :: "ConditionSet \<Rightarrow> Condition list \<Rightarrow> Condition option" where
  "findUnhappyDependent cs conds =
     (if length (cs_dependents cs) = 0 then None
      else
        let filtered = filter (\<lambda>c. c_Severity c = ConditionSeverityError \<and> c_Type c \<noteq> cs_happy cs) conds;
            sorted = sort_slice (\<lambda>a b. c_LastTransitionTime a > c_LastTransitionTime b) filtered
        in case find (\<lambda>c. IsFalse (Some c)) sorted of
             Some c \<Rightarrow> Some c
           | None \<Rightarrow>
               (case find (\<lambda>c. IsUnknown (Some c)) sorted of
                  Some c \<Rightarrow> Some c
                | None \<Rightarrow>
                    if length (cs_dependents cs) > length sorted
                    then Some \<lparr>c_Type = '''', c_Status = ConditionUnknown, c_Severity = '''',
                               c_LastTransitionTime = 0, c_Reason = '''', c_Message = ''''\<rparr>
                    else None))"

definition recomputeHappiness :: "time \<Rightarrow> ConditionSet \<Rightarrow> ConditionType \<Rightarrow> Condition list \<Rightarrow> Condition list" where
  "recomputeHappiness now cs t conds =
     (case findUnhappyDependent cs conds of
        Some c \<Rightarrow>
          SetCondition now (mkCondition cs (cs_happy cs) (c_Status c) (c_Reason c) (c_Message c)) conds
      | None \<Rightarrow>
          if t \<noteq> cs_happy cs
          then SetCondition now (mkCondition cs (cs_happy cs) ConditionTrue '''' '''') conds
          else conds)"

definition MarkTrue :: "time \<Rightarrow> ConditionSet \<Rightarrow> ConditionType \<Rightarrow> Condition list \<Rightarrow> Condition list" where
  "MarkTrue now cs t conds =
     recomputeHappiness now cs t (SetCondition now (mkCondition cs t ConditionTrue '''' '''') conds)"

definition MarkTrueWithReason ::
  "time \<Rightarrow> ConditionSet \<Rightarrow> ConditionType \<Rightarrow> string \<Rightarrow> string \<Rightarrow> Condition list \<Rightarrow> Condition list" where
  "MarkTrueWithReason now cs t reason message conds =
     recomputeHappiness now cs t (SetCondition now (mkCondition cs t ConditionTrue reason message) conds)"

text \<open>
  \<open>MarkFalse\<close> collects the types to set, the happy condition once for every dependent equal to
  \<open>t\<close>, and sets them in order.
\<close>

definition MarkFalse ::
  "time \<Rightarrow> ConditionSet \<Rightarrow> ConditionType \<Rightarrow> string \<Rightarrow> string \<Rightarrow> Condition list \<Rightarrow> Condition list" where
  "MarkFalse now cs t reason message conds =
     (let types = t # map (\<lambda>_. cs_happy cs) (filter (\<lambda>d. d = t) (cs_dependents cs))
      in fold (\<lambda>t. SetCondition now (mkCondition cs t ConditionFalse reason message)) types conds)"

fun MarkUnknown_loop ::
  "time \<Rightarrow> ConditionSet \<Rightarrow> ConditionType \<Rightarrow> string \<Rightarrow> string \<Rightarrow> ConditionType list \<Rightarrow> bool \<Rightarrow> Condition list \<Rightarrow> Condition list" where
  "MarkUnknown_loop now cs t reason message [] isDependent conds =
     (if isDependent
      then SetCondition now (mkCondition cs (cs_happy cs) ConditionUnknown reason message) conds
      else conds)"
| "MarkUnknown_loop now cs t reason message (cond # deps) isDependent conds =
     (if IsFalse (GetCondition cond conds)
      then (if \<not> IsFalse (GetCondition (cs_happy cs) conds)
            then MarkFalse now cs (cs_happy cs) reason message conds
            else conds)
      else MarkUnknown_loop now cs t reason message deps (isDependent \<or> cond = t) conds)"

definition MarkUnknown ::
  "time \<Rightarrow> ConditionSet \<Rightarrow> ConditionType \<Rightarrow> string \<Rightarrow> string \<Rightarrow> Condition list \<Rightarrow> Condition list" where
  "MarkUnknown now cs t reason message conds =
     MarkUnknown_loop now cs t reason message (cs_dependents cs) False
       (SetCondition now (mkCondition cs t ConditionUnknown reason message) conds)"

definition initializeTerminalCondition ::
  "time \<Rightarrow> ConditionStatus \<Rightarrow> ConditionType \<Rightarrow> Condition list \<Rightarrow> Condition list" where
  "initializeTerminalCondition now status t conds =
     (case GetCondition t conds of
        Some _ \<Rightarrow> conds
      | None \<Rightarrow>
          SetCondition now
            \<lparr>c_Type = t, c_Status = status, c_Severity = ConditionSeverityError,
             c_LastTransitionTime = 0, c_Reason = '''', c_Message = ''''\<rparr> conds)"

definition InitializeConditions :: "time \<Rightarrow> ConditionSet \<Rightarrow> Condition list \<Rightarrow> Condition list" where
  "InitializeConditions now cs conds =
     (let conds1 =
            (case GetCondition (cs_happy cs) conds of
               Some _ \<Rightarrow> conds
             | None \<Rightarrow>
                 SetCondition now
                   \<lparr>c_Type = cs_happy cs, c_Status = ConditionUnknown, c_Severity = ConditionSeverityError,
                    c_LastTransitionTime = 0, c_Reason = '''', c_Message = ''''\<rparr> conds);
          happyStatus =
            (case GetCondition (cs_happy cs) conds of Some c \<Rightarrow> c_Status c | None \<Rightarrow> ConditionUnknown);
          status = (if happyStatus = ConditionTrue then ConditionTrue else ConditionUnknown)
      in fold (initializeTerminalCondition now status) (cs_dependents cs) conds1)"

section \<open>What the happy condition promises\<close>

definition valid_status :: "ConditionStatus \<Rightarrow> bool" where
  "valid_status s \<longleftrightarrow> s \<in> {ConditionTrue, ConditionFalse, ConditionUnknown}"

definition cs_wf :: "ConditionSet \<Rightarrow> bool" where
  "cs_wf cs \<longleftrightarrow> distinct (cs_dependents cs) \<and> cs_happy cs \<notin> set (cs_dependents cs)"

text \<open>Conditions that may still lack dependents, and conditions that are initialised.\<close>

definition cond_partial :: "ConditionSet \<Rightarrow> Condition list \<Rightarrow> bool" where
  "cond_partial cs conds \<longleftrightarrow>
     distinct (map c_Type conds) \<and> sorted (map c_Type conds) \<and>
     c_Type ` set conds \<subseteq> insert (cs_happy cs) (set (cs_dependents cs)) \<and>
     (\<forall>c \<in> set conds. valid_status (c_Status c) \<and> c_Severity c = ConditionSeverityError)"

definition cond_wf :: "ConditionSet \<Rightarrow> Condition list \<Rightarrow> bool" where
  "cond_wf cs conds \<longleftrightarrow>
     cond_partial cs conds \<and> insert (cs_happy cs) (set (cs_dependents cs)) \<subseteq> c_Type ` set conds"

definition status_of :: "Condition list \<Rightarrow> ConditionType \<Rightarrow> ConditionStatus" where
  "status_of conds t = (case GetCondition t conds of None \<Rightarrow> '''' | Some c \<Rightarrow> c_Status c)"

text \<open>The summary of a list of statuses: a failure trumps an unknown, an unknown trumps success.\<close>

definition aggregate :: "ConditionStatus list \<Rightarrow> ConditionStatus" where
  "aggregate ss =
     (if ConditionFalse \<in> set ss then ConditionFalse
      else if ConditionUnknown \<in> set ss then ConditionUnknown
      else ConditionTrue)"

definition happy_agrees :: "ConditionSet \<Rightarrow> Condition list \<Rightarrow> bool" where
  "happy_agrees cs conds \<longleftrightarrow>
     status_of conds (cs_happy cs) = aggregate (map (status_of conds) (cs_dependents cs))"

text \<open>The condition a call of \<open>SetCondition\<close> stores: the old one if only its time would change.\<close>

definition stored :: "time \<Rightarrow> Condition \<Rightarrow> Condition list \<Rightarrow> Condition" where
  "stored now cond conds =
     (case GetCondition (c_Type cond) conds of
        None \<Rightarrow> cond\<lparr>c_LastTransitionTime := now\<rparr>
      | Some old \<Rightarrow>
          if cond\<lparr>c_LastTransitionTime := c_LastTransitionTime old\<rparr> = old then old
          else cond\<lparr>c_LastTransitionTime := now\<rparr>)"

section \<open>Reading after writing\<close>

lemma GetCondition_None_iff: "GetCondition t conds = None \<longleftrightarrow> t \<notin> c_Type ` set conds"
  by (auto simp: GetCondition_def find_None_not)

lemma GetCondition_SomeD: "GetCondition t conds = Some c \<Longrightarrow> c \<in> set conds \<and> c_Type c = t"
  using find_Some_in by (fastforce simp: GetCondition_def)

lemma GetCondition_in:
  "distinct (map c_Type conds) \<Longrightarrow> c \<in> set conds \<Longrightarrow> GetCondition (c_Type c) conds = Some c"
  by (simp add: GetCondition_def find_cong_key)

lemma GetCondition_eq_iff:
  assumes "distinct (map c_Type conds)"
  shows "GetCondition t conds = Some c \<longleftrightarrow> c \<in> set conds \<and> c_Type c = t"
  using GetCondition_SomeD GetCondition_in [OF assms] by blast

lemma SetCondition_loop_absent:
  "c_Type cond \<notin> c_Type ` set cs \<Longrightarrow> SetCondition_loop cond cs acc = Some (acc @ cs)"
  by (induction cs arbitrary: acc) auto

lemma SetCondition_loop_eq:
  "distinct (map c_Type cs) \<Longrightarrow>
   SetCondition_loop cond cs acc =
     (case GetCondition (c_Type cond) cs of
        None \<Rightarrow> Some (acc @ cs)
      | Some old \<Rightarrow>
          if cond\<lparr>c_LastTransitionTime := c_LastTransitionTime old\<rparr> = old then None
          else Some (acc @ filter (\<lambda>c. c_Type c \<noteq> c_Type cond) cs))"
proof (induction cs arbitrary: acc)
  case Nil
  then show ?case by (simp add: GetCondition_def)
next
  case (Cons c cs)
  show ?case
  proof (cases "c_Type c = c_Type cond")
    case True
    with Cons.prems have abs: "c_Type cond \<notin> c_Type ` set cs" by auto
    then have "filter (\<lambda>c. c_Type c \<noteq> c_Type cond) cs = cs"
      by (force simp: filter_id_conv image_iff)
    moreover have "SetCondition_loop (cond\<lparr>c_LastTransitionTime := c_LastTransitionTime c\<rparr>) cs acc = Some (acc @ cs)"
      using abs by (intro SetCondition_loop_absent) simp
    ultimately show ?thesis
      using True by (simp add: GetCondition_def Let_def)
  next
    case False
    with Cons show ?thesis by (simp add: GetCondition_def split: option.split)
  qed
qed

lemma stored_fields [simp]:
  "c_Type (stored now cond conds) = c_Type cond"
  "c_Status (stored now cond conds) = c_Status cond"
  "c_Severity (stored now cond conds) = c_Severity cond"
  "c_Reason (stored now cond conds) = c_Reason cond"
  "c_Message (stored now cond conds) = c_Message cond"
  by (auto simp: stored_def split: option.splits dest: arg_cong [where f = c_Type]
      arg_cong [where f = c_Status] arg_cong [where f = c_Severity]
      arg_cong [where f = c_Reason] arg_cong [where f = c_Message])

lemma SetCondition_set:
  assumes "distinct (map c_Type conds)"
  shows "set (SetCondition now cond conds) =
           insert (stored now cond conds) {c \<in> set conds. c_Type c \<noteq> c_Type cond}"
proof (cases "GetCondition (c_Type cond) conds")
  case None
  then have "c_Type cond \<notin> c_Type ` set conds" by (simp add: GetCondition_None_iff)
  then have "{c \<in> set conds. c_Type c \<noteq> c_Type cond} = set conds" by (rule set_filter_key_absent)
  with None assms show ?thesis
    by (auto simp: SetCondition_def SetCondition_loop_eq stored_def)
next
  case (Some old)
  with GetCondition_SomeD have old: "old \<in> set conds" "c_Type old = c_Type cond" by auto
  have uniq: "c = old" if "c \<in> set conds" "c_Type c = c_Type cond" for c
    using GetCondition_in [OF assms that(1)] that(2) Some by simp
  have "set conds = insert old {c \<in> set conds. c_Type c \<noteq> c_Type cond}"
    using old uniq by blast
  then have "stored now cond conds = old \<longrightarrow>
      set conds = insert (stored now cond conds) {c \<in> set conds. c_Type c \<noteq> c_Type cond}" by simp
  with Some assms show ?thesis
    by (auto simp: SetCondition_def SetCondition_loop_eq stored_def)
qed

lemma SetCondition_distinct:
  assumes "distinct (map c_Type conds)"
  shows "distinct (map c_Type (SetCondition now cond conds))"
proof (cases "GetCondition (c_Type cond) conds")
  case None
  then have "c_Type cond \<notin> c_Type ` set conds" by (simp add: GetCondition_None_iff)
  with None assms show ?thesis
    by (simp add: SetCondition_def SetCondition_loop_eq)
next
  case (Some old)
  with assms show ?thesis
    by (auto simp: SetCondition_def SetCondition_loop_eq distinct_map_filter)
qed

lemma SetCondition_sorted:
  assumes "sorted (map c_Type conds)"
  shows "sorted (map c_Type (SetCondition now cond conds))"
  using assms
  by (auto simp: SetCondition_def sorted_sort_slice_key split: option.splits)

lemma GetCondition_SetCondition:
  assumes "distinct (map c_Type conds)"
  shows "GetCondition t (SetCondition now cond conds) =
           (if t = c_Type cond then Some (stored now cond conds) else GetCondition t conds)"
proof -
  note d = SetCondition_distinct [OF assms, of now cond]
  have "GetCondition t (SetCondition now cond conds) = Some c \<longleftrightarrow>
        (if t = c_Type cond then Some (stored now cond conds) else GetCondition t conds) = Some c" for c
    using assms by (auto simp: GetCondition_eq_iff [OF d] SetCondition_set GetCondition_eq_iff)
  then show ?thesis by (metis option.exhaust)
qed

lemma status_of_SetCondition:
  "distinct (map c_Type conds) \<Longrightarrow>
   status_of (SetCondition now cond conds) t = (if t = c_Type cond then c_Status cond else status_of conds t)"
  by (simp add: status_of_def GetCondition_SetCondition)

lemma mkCondition_fields [simp]:
  "c_Type (mkCondition cs t s r m) = t" "c_Status (mkCondition cs t s r m) = s"
  "c_Severity (mkCondition cs t s r m) = severity cs t"
  "c_Reason (mkCondition cs t s r m) = r" "c_Message (mkCondition cs t s r m) = m"
  by (simp_all add: mkCondition_def)

section \<open>Well-formed condition sets and lists\<close>

lemma newConditionSet_loop_wf:
  "distinct deps \<Longrightarrow> happy \<notin> set deps \<Longrightarrow>
   distinct (newConditionSet_loop happy ds deps) \<and> happy \<notin> set (newConditionSet_loop happy ds deps)"
  by (induction happy ds deps rule: newConditionSet_loop.induct) auto

lemma newConditionSet_wf: "cs_wf (newConditionSet happy ds)"
  using newConditionSet_loop_wf [of "[]" happy ds] by (simp add: newConditionSet_def cs_wf_def)

lemma cond_partialD:
  assumes "cond_partial cs conds"
  shows "distinct (map c_Type conds)" "sorted (map c_Type conds)"
  using assms by (auto simp: cond_partial_def)

lemma cond_wfD: "cond_wf cs conds \<Longrightarrow> cond_partial cs conds" "cond_wf cs conds \<Longrightarrow> distinct (map c_Type conds)"
  by (auto simp: cond_wf_def cond_partial_def)

lemma cond_partial_SetCondition:
  assumes "cond_partial cs conds" and "isTerminal cs (c_Type cond)"
    and "valid_status (c_Status cond)" and "c_Severity cond = ConditionSeverityError"
  shows "cond_partial cs (SetCondition now cond conds)"
  using assms SetCondition_set [OF cond_partialD(1) [OF assms(1)], of now cond]
  by (auto simp: cond_partial_def SetCondition_distinct SetCondition_sorted isTerminal_def)

lemma types_SetCondition:
  "distinct (map c_Type conds) \<Longrightarrow>
   c_Type ` set (SetCondition now cond conds) = insert (c_Type cond) (c_Type ` set conds)"
  by (auto simp: SetCondition_set)

lemma cond_wf_SetCondition:
  assumes "cond_wf cs conds" and "isTerminal cs (c_Type cond)"
    and "valid_status (c_Status cond)" and "c_Severity cond = ConditionSeverityError"
  shows "cond_wf cs (SetCondition now cond conds)"
proof -
  have "c_Type ` set (SetCondition now cond conds) = insert (c_Type cond) (c_Type ` set conds)"
    using assms(1) by (intro types_SetCondition) (rule cond_wfD)
  with assms show ?thesis by (auto simp: cond_wf_def cond_partial_SetCondition)
qed

lemma cond_wf_mk:
  "cond_wf cs conds \<Longrightarrow> isTerminal cs t \<Longrightarrow> valid_status s \<Longrightarrow>
   cond_wf cs (SetCondition now (mkCondition cs t s r m) conds)"
  by (rule cond_wf_SetCondition) (simp_all add: severity_def)

lemma valid_status_simps [simp]:
  "valid_status ConditionTrue" "valid_status ConditionFalse" "valid_status ConditionUnknown"
  by (simp_all add: valid_status_def)

lemma cond_wf_status:
  assumes "cond_wf cs conds" and "t \<in> insert (cs_happy cs) (set (cs_dependents cs))"
  shows "\<exists>c \<in> set conds. c_Type c = t \<and> GetCondition t conds = Some c \<and> status_of conds t = c_Status c
           \<and> valid_status (c_Status c) \<and> c_Severity c = ConditionSeverityError"
proof -
  from assms obtain c where c: "c \<in> set conds" "c_Type c = t" by (auto simp: cond_wf_def)
  with assms(1) have "GetCondition t conds = Some c"
    by (auto simp: cond_wf_def cond_partial_def GetCondition_in)
  with c assms(1) show ?thesis
    by (intro bexI [of _ c]) (auto simp: cond_wf_def cond_partial_def status_of_def)
qed

lemma dependents_statuses:
  assumes "cs_wf cs" and "cond_wf cs conds"
  shows "c_Status ` {c \<in> set conds. c_Type c \<noteq> cs_happy cs} = status_of conds ` set (cs_dependents cs)"
proof -
  have "c_Type c \<in> set (cs_dependents cs) \<and> status_of conds (c_Type c) = c_Status c"
    if "c \<in> set conds" "c_Type c \<noteq> cs_happy cs" for c
    using that assms(2) by (auto simp: cond_wf_def cond_partial_def status_of_def GetCondition_in)
  moreover have "\<exists>c \<in> set conds. c_Type c \<noteq> cs_happy cs \<and> status_of conds t = c_Status c"
    if "t \<in> set (cs_dependents cs)" for t
    using that assms cond_wf_status [OF assms(2), of t] by (metis cs_wf_def insertCI)
  ultimately show ?thesis by force
qed

section \<open>The marking operations restore the promise\<close>

text \<open>
  What a marking operation achieves on initialised conditions: they stay well-formed, the marked
  condition gets its status, the other dependents keep theirs, and the happy condition is the
  aggregate of the dependents.
\<close>

definition marks :: "ConditionSet \<Rightarrow> ConditionType \<Rightarrow> ConditionStatus \<Rightarrow> Condition list \<Rightarrow> Condition list \<Rightarrow> bool" where
  "marks cs t s conds conds' \<longleftrightarrow>
     cond_wf cs conds' \<and> happy_agrees cs conds' \<and>
     (\<forall>d \<in> set (cs_dependents cs). status_of conds' d = (if d = t then s else status_of conds d))"

lemma aggregate_simps:
  "aggregate ss = ConditionTrue \<longleftrightarrow> ConditionFalse \<notin> set ss \<and> ConditionUnknown \<notin> set ss"
  "aggregate ss = ConditionFalse \<longleftrightarrow> ConditionFalse \<in> set ss"
  by (auto simp: aggregate_def)

lemma valid_status_aggregate [simp]: "valid_status (aggregate ss)"
  by (simp add: aggregate_def)

lemma set_happy_agrees:
  assumes "cs_wf cs" and "cond_wf cs conds" and "s = aggregate (map (status_of conds) (cs_dependents cs))"
  shows "cond_wf cs (SetCondition now (mkCondition cs (cs_happy cs) s r m) conds)"
    and "happy_agrees cs (SetCondition now (mkCondition cs (cs_happy cs) s r m) conds)"
    and "t \<noteq> cs_happy cs \<Longrightarrow>
         status_of (SetCondition now (mkCondition cs (cs_happy cs) s r m) conds) t = status_of conds t"
proof -
  note d = cond_wfD(2) [OF assms(2)]
  show "cond_wf cs (SetCondition now (mkCondition cs (cs_happy cs) s r m) conds)"
    using assms by (intro cond_wf_mk) (auto simp: isTerminal_def)
  have m: "map (status_of (SetCondition now (mkCondition cs (cs_happy cs) s r m) conds)) (cs_dependents cs)
        = map (status_of conds) (cs_dependents cs)"
    using assms(1) by (auto simp: status_of_SetCondition [OF d] cs_wf_def)
  show "happy_agrees cs (SetCondition now (mkCondition cs (cs_happy cs) s r m) conds)"
    unfolding happy_agrees_def m by (simp add: status_of_SetCondition [OF d] assms(3))
  show "status_of (SetCondition now (mkCondition cs (cs_happy cs) s r m) conds) t = status_of conds t"
    if "t \<noteq> cs_happy cs"
    using that by (simp add: status_of_SetCondition [OF d])
qed

lemma marks_via_happy:
  assumes "cs_wf cs" and "cond_wf cs conds" and "t \<in> set (cs_dependents cs)" and "valid_status s"
    and "conds1 = SetCondition now (mkCondition cs t s r m) conds"
    and "s' = aggregate (map (status_of conds1) (cs_dependents cs))"
  shows "marks cs t s conds (SetCondition now (mkCondition cs (cs_happy cs) s' r' m') conds1)"
proof -
  have wf1: "cond_wf cs conds1"
    unfolding assms(5) using assms by (intro cond_wf_mk) (auto simp: isTerminal_def)
  have st1: "status_of conds1 d = (if d = t then s else status_of conds d)" for d
    unfolding assms(5) using cond_wfD(2) [OF assms(2)] by (simp add: status_of_SetCondition)
  have "status_of (SetCondition now (mkCondition cs (cs_happy cs) s' r' m') conds1) d = status_of conds1 d"
    if "d \<in> set (cs_dependents cs)" for d
    using that assms(1) by (intro set_happy_agrees(3) [OF assms(1) wf1 assms(6)]) (auto simp: cs_wf_def)
  then show ?thesis
    unfolding marks_def using set_happy_agrees(1,2) [OF assms(1) wf1 assms(6)] st1 by simp
qed

lemma findUnhappyDependent_aggregate:
  assumes "cs_wf cs" and "cond_wf cs conds" and "cs_dependents cs \<noteq> []"
  shows "case findUnhappyDependent cs conds of
           None \<Rightarrow> aggregate (map (status_of conds) (cs_dependents cs)) = ConditionTrue
         | Some c \<Rightarrow> c_Status c = aggregate (map (status_of conds) (cs_dependents cs))"
proof -
  define fs where "fs = filter (\<lambda>c. c_Severity c = ConditionSeverityError \<and> c_Type c \<noteq> cs_happy cs) conds"
  define ss where "ss = sort_slice (\<lambda>a b. c_LastTransitionTime a > c_LastTransitionTime b) fs"
  have fs_set: "set fs = {c \<in> set conds. c_Type c \<noteq> cs_happy cs}"
    using assms(2) by (auto simp: fs_def cond_wf_def cond_partial_def)
  have st: "c_Status ` set ss = set (map (status_of conds) (cs_dependents cs))"
    using dependents_statuses [OF assms(1,2)] by (simp add: ss_def fs_set)
  have "distinct (map c_Type fs)"
    using assms(2) by (simp add: fs_def cond_wf_def cond_partial_def distinct_map_filter)
  moreover have "c_Type ` set fs = set (cs_dependents cs)"
    using assms(1,2) unfolding fs_set cs_wf_def cond_wf_def cond_partial_def by force
  ultimately have "length fs = length (cs_dependents cs)"
    using assms(1) by (metis cs_wf_def distinct_card length_map set_map)
  then have len: "length ss = length (cs_dependents cs)" by (simp add: ss_def)
  have eq: "findUnhappyDependent cs conds =
      (case find (\<lambda>c. IsFalse (Some c)) ss of
         Some c \<Rightarrow> Some c
       | None \<Rightarrow> find (\<lambda>c. IsUnknown (Some c)) ss)"
    using assms(3) by (simp add: findUnhappyDependent_def Let_def fs_def [symmetric] ss_def [symmetric] len split: option.split)
  show ?thesis
  proof (cases "find (\<lambda>c. IsFalse (Some c)) ss")
    case (Some c)
    with find_Some_in [OF Some] have "c_Status c = ConditionFalse" "ConditionFalse \<in> c_Status ` set ss"
      by (force simp: IsFalse_def)+
    with Some st show ?thesis by (simp add: eq aggregate_def)
  next
    case None
    then have nf: "ConditionFalse \<notin> c_Status ` set ss" by (auto simp: find_None_not IsFalse_def)
    show ?thesis
    proof (cases "find (\<lambda>c. IsUnknown (Some c)) ss")
      case (Some c)
      with find_Some_in [OF Some] have "c_Status c = ConditionUnknown" "ConditionUnknown \<in> c_Status ` set ss"
        by (force simp: IsUnknown_def)+
      with Some None nf st show ?thesis by (simp add: eq aggregate_def)
    next
      case N: None
      then have "ConditionUnknown \<notin> c_Status ` set ss" by (auto simp: find_None_not IsUnknown_def)
      with nf None N st show ?thesis by (simp add: eq aggregate_simps)
    qed
  qed
qed

lemma MarkTrueWithReason_marks:
  assumes "cs_wf cs" and "cond_wf cs conds" and "t \<in> set (cs_dependents cs)"
  shows "marks cs t ConditionTrue conds (MarkTrueWithReason now cs t r m conds)"
proof -
  define conds1 where "conds1 = SetCondition now (mkCondition cs t ConditionTrue r m) conds"
  have wf1: "cond_wf cs conds1"
    unfolding conds1_def using assms by (intro cond_wf_mk) (auto simp: isTerminal_def)
  have ne: "cs_dependents cs \<noteq> []" and th: "t \<noteq> cs_happy cs" using assms by (auto simp: cs_wf_def)
  note via = marks_via_happy [OF assms(1,2,3) _ conds1_def]
  show ?thesis
  proof (cases "findUnhappyDependent cs conds1")
    case None
    with findUnhappyDependent_aggregate [OF assms(1) wf1 ne]
    have "ConditionTrue = aggregate (map (status_of conds1) (cs_dependents cs))" by simp
    from via [OF _ this] None th show ?thesis
      by (simp add: MarkTrueWithReason_def recomputeHappiness_def conds1_def)
  next
    case (Some c)
    with findUnhappyDependent_aggregate [OF assms(1) wf1 ne]
    have "c_Status c = aggregate (map (status_of conds1) (cs_dependents cs))" by simp
    from via [OF _ this] Some show ?thesis
      by (simp add: MarkTrueWithReason_def recomputeHappiness_def conds1_def)
  qed
qed

lemma MarkTrue_marks:
  "cs_wf cs \<Longrightarrow> cond_wf cs conds \<Longrightarrow> t \<in> set (cs_dependents cs) \<Longrightarrow>
   marks cs t ConditionTrue conds (MarkTrue now cs t conds)"
  using MarkTrueWithReason_marks [of cs conds t now "''''" "''''"]
  by (simp add: MarkTrue_def MarkTrueWithReason_def)

lemma MarkFalse_dependent:
  assumes "cs_wf cs" and "t \<in> set (cs_dependents cs)"
  shows "MarkFalse now cs t r m conds =
     SetCondition now (mkCondition cs (cs_happy cs) ConditionFalse r m)
       (SetCondition now (mkCondition cs t ConditionFalse r m) conds)"
proof -
  from assms have "filter (\<lambda>d. d = t) (cs_dependents cs) = [t]"
    by (simp add: cs_wf_def filter_eq_single)
  then show ?thesis by (simp add: MarkFalse_def)
qed

lemma MarkFalse_marks:
  assumes "cs_wf cs" and "cond_wf cs conds" and "t \<in> set (cs_dependents cs)"
  shows "marks cs t ConditionFalse conds (MarkFalse now cs t r m conds)"
proof -
  define conds1 where "conds1 = SetCondition now (mkCondition cs t ConditionFalse r m) conds"
  have "status_of conds1 t = ConditionFalse"
    unfolding conds1_def using cond_wfD(2) [OF assms(2)] by (simp add: status_of_SetCondition)
  with assms(3) have "ConditionFalse = aggregate (map (status_of conds1) (cs_dependents cs))"
    by (force simp: aggregate_def image_iff)
  from marks_via_happy [OF assms _ conds1_def this] show ?thesis
    by (simp add: MarkFalse_dependent [OF assms(1,3)] conds1_def)
qed

text \<open>The loop of \<open>MarkUnknown\<close> stops at the first failed dependent.\<close>

lemma MarkUnknown_loop_eq:
  "MarkUnknown_loop now cs t r m deps b conds =
     (if \<exists>d \<in> set deps. IsFalse (GetCondition d conds)
      then (if \<not> IsFalse (GetCondition (cs_happy cs) conds)
            then MarkFalse now cs (cs_happy cs) r m conds else conds)
      else if b \<or> t \<in> set deps
      then SetCondition now (mkCondition cs (cs_happy cs) ConditionUnknown r m) conds
      else conds)"
  by (induction deps arbitrary: b) auto

lemma IsFalse_status_of: "IsFalse (GetCondition t conds) \<longleftrightarrow> status_of conds t = ConditionFalse"
  by (auto simp: IsFalse_def status_of_def split: option.split)

lemma IsTrue_status_of: "IsTrue (GetCondition t conds) \<longleftrightarrow> status_of conds t = ConditionTrue"
  by (auto simp: IsTrue_def status_of_def split: option.split)

lemma MarkUnknown_marks:
  assumes "cs_wf cs" and "cond_wf cs conds" and t: "t \<in> set (cs_dependents cs)"
  shows "marks cs t ConditionUnknown conds (MarkUnknown now cs t r m conds)"
proof -
  define conds1 where "conds1 = SetCondition now (mkCondition cs t ConditionUnknown r m) conds"
  have wf1: "cond_wf cs conds1"
    unfolding conds1_def using assms by (intro cond_wf_mk) (auto simp: isTerminal_def)
  have st1: "status_of conds1 d = (if d = t then ConditionUnknown else status_of conds d)" for d
    unfolding conds1_def using cond_wfD(2) [OF assms(2)] by (simp add: status_of_SetCondition)
  have happy: "filter (\<lambda>d. d = cs_happy cs) (cs_dependents cs) = []"
    using assms(1) by (auto simp: cs_wf_def filter_empty_conv)
  note via = marks_via_happy [OF assms _ conds1_def]
  let ?agg = "aggregate (map (status_of conds1) (cs_dependents cs))"
  show ?thesis
  proof (cases "\<exists>d \<in> set (cs_dependents cs). IsFalse (GetCondition d conds1)")
    case True
    then have agg: "ConditionFalse = ?agg"
      by (force simp: aggregate_def IsFalse_status_of image_iff)
    show ?thesis
    proof (cases "IsFalse (GetCondition (cs_happy cs) conds1)")
      case h: True
      with agg have "happy_agrees cs conds1" by (simp add: happy_agrees_def IsFalse_status_of)
      with True h wf1 st1 show ?thesis
        by (simp add: MarkUnknown_def conds1_def [symmetric] MarkUnknown_loop_eq marks_def)
    next
      case h: False
      from via [OF _ agg] True h show ?thesis
        by (simp add: MarkUnknown_def conds1_def [symmetric] MarkUnknown_loop_eq MarkFalse_def happy)
    qed
  next
    case False
    moreover have "ConditionUnknown \<in> set (map (status_of conds1) (cs_dependents cs))"
      using t st1 by (force simp: image_iff)
    ultimately have "ConditionUnknown = ?agg"
      by (auto simp: aggregate_def IsFalse_status_of)
    from via [OF _ this] False t show ?thesis
      by (simp add: MarkUnknown_def conds1_def [symmetric] MarkUnknown_loop_eq)
  qed
qed

section \<open>Initialisation\<close>

lemma status_of_absent: "t \<notin> c_Type ` set conds \<Longrightarrow> status_of conds t = ''''"
  by (simp add: status_of_def GetCondition_None_iff [THEN iffD2])

lemma initializeTerminalCondition_step:
  assumes "cond_partial cs conds" and "isTerminal cs t" and "valid_status s"
  shows "cond_partial cs (initializeTerminalCondition now s t conds)"
    and "c_Type ` set (initializeTerminalCondition now s t conds) = insert t (c_Type ` set conds)"
    and "status_of (initializeTerminalCondition now s t conds) u =
           (if u \<in> c_Type ` set conds then status_of conds u else if u = t then s else '''')"
proof -
  note d = cond_partialD(1) [OF assms(1)]
  have "cond_partial cs (initializeTerminalCondition now s t conds) \<and>
        c_Type ` set (initializeTerminalCondition now s t conds) = insert t (c_Type ` set conds) \<and>
        status_of (initializeTerminalCondition now s t conds) u =
          (if u \<in> c_Type ` set conds then status_of conds u else if u = t then s else '''')"
  proof (cases "GetCondition t conds")
    case None
    then have "t \<notin> c_Type ` set conds" by (simp add: GetCondition_None_iff)
    with None assms d show ?thesis
      by (auto simp: initializeTerminalCondition_def types_SetCondition status_of_SetCondition
          status_of_absent intro!: cond_partial_SetCondition)
  next
    case (Some c)
    then have "t \<in> c_Type ` set conds" by (metis GetCondition_None_iff option.distinct(1))
    with Some assms show ?thesis
      by (auto simp: initializeTerminalCondition_def status_of_absent)
  qed
  then show "cond_partial cs (initializeTerminalCondition now s t conds)"
    "c_Type ` set (initializeTerminalCondition now s t conds) = insert t (c_Type ` set conds)"
    "status_of (initializeTerminalCondition now s t conds) u =
       (if u \<in> c_Type ` set conds then status_of conds u else if u = t then s else '''')"
    by auto
qed

lemma initialize_fold:
  assumes "cond_partial cs conds" and "\<forall>d \<in> set ds. isTerminal cs d" and "valid_status s"
  shows "cond_partial cs (fold (initializeTerminalCondition now s) ds conds) \<and>
         c_Type ` set (fold (initializeTerminalCondition now s) ds conds) = set ds \<union> c_Type ` set conds \<and>
         status_of (fold (initializeTerminalCondition now s) ds conds) u =
           (if u \<in> c_Type ` set conds then status_of conds u else if u \<in> set ds then s else '''')"
  using assms
proof (induction ds arbitrary: conds)
  case Nil
  then show ?case by (simp add: status_of_absent)
next
  case (Cons d ds)
  then have "isTerminal cs d" by simp
  note step = initializeTerminalCondition_step [OF Cons.prems(1) this Cons.prems(3), of now]
  from Cons.IH [OF step(1) _ Cons.prems(3)] Cons.prems(2) show ?case
    by (auto simp: step(2) step(3))
qed

text \<open>
  Initialisation makes the conditions well-formed, keeps every status that is set, and gives an
  unset dependent the status True when the happy condition is True and Unknown otherwise.
\<close>

lemma InitializeConditions_spec:
  assumes "cs_wf cs" and "cond_partial cs conds"
  shows "cond_wf cs (InitializeConditions now cs conds)"
    and "status_of (InitializeConditions now cs conds) t =
           (if t \<in> c_Type ` set conds then status_of conds t
            else if t = cs_happy cs then ConditionUnknown
            else if t \<in> set (cs_dependents cs)
            then (if status_of conds (cs_happy cs) = ConditionTrue then ConditionTrue else ConditionUnknown)
            else '''')"
proof -
  define s where "s = (if status_of conds (cs_happy cs) = ConditionTrue then ConditionTrue else ConditionUnknown)"
  define conds1 where "conds1 = initializeTerminalCondition now ConditionUnknown (cs_happy cs) conds"
  have eq: "InitializeConditions now cs conds = fold (initializeTerminalCondition now s) (cs_dependents cs) conds1"
    by (simp add: InitializeConditions_def conds1_def s_def initializeTerminalCondition_def status_of_def
        Let_def split: option.split)
  have "isTerminal cs (cs_happy cs)" by (simp add: isTerminal_def)
  note step = initializeTerminalCondition_step [OF assms(2) this, of ConditionUnknown now, folded conds1_def, simplified]
  have "valid_status s" by (simp add: s_def)
  from initialize_fold [OF step(1) _ this, of "cs_dependents cs" now]
  have f: "cond_partial cs (InitializeConditions now cs conds)"
    "c_Type ` set (InitializeConditions now cs conds) = set (cs_dependents cs) \<union> c_Type ` set conds1"
    "\<And>u. status_of (InitializeConditions now cs conds) u =
       (if u \<in> c_Type ` set conds1 then status_of conds1 u else if u \<in> set (cs_dependents cs) then s else '''')"
    by (auto simp: eq isTerminal_def)
  show "cond_wf cs (InitializeConditions now cs conds)"
    using f by (auto simp: cond_wf_def step(2))
  show "status_of (InitializeConditions now cs conds) t =
           (if t \<in> c_Type ` set conds then status_of conds t
            else if t = cs_happy cs then ConditionUnknown
            else if t \<in> set (cs_dependents cs)
            then (if status_of conds (cs_happy cs) = ConditionTrue then ConditionTrue else ConditionUnknown)
            else '''')"
    using assms(1) by (auto simp: f(3) step(2) step(3) s_def cs_wf_def)
qed

lemma initializeTerminalCondition_idle:
  "t \<in> c_Type ` set conds \<Longrightarrow> initializeTerminalCondition now s t conds = conds"
  by (auto simp: initializeTerminalCondition_def GetCondition_None_iff split: option.split)

lemma InitializeConditions_idle:
  assumes "cond_wf cs conds"
  shows "InitializeConditions now cs conds = conds"
proof -
  have "fold (initializeTerminalCondition now s) ds conds = conds"
    if "set ds \<subseteq> c_Type ` set conds" for s ds
    using that by (induction ds) (auto simp: initializeTerminalCondition_idle)
  moreover obtain c where "GetCondition (cs_happy cs) conds = Some c"
    using cond_wf_status [OF assms, of "cs_happy cs"] by auto
  ultimately show ?thesis
    using assms by (simp add: InitializeConditions_def Let_def cond_wf_def)
qed

text \<open>Ready is True exactly when every dependent is.\<close>

lemma IsHappy_iff:
  assumes "cond_wf cs conds" and "happy_agrees cs conds"
  shows "IsHappy cs conds \<longleftrightarrow> (\<forall>d \<in> set (cs_dependents cs). status_of conds d = ConditionTrue)"
proof -
  have "valid_status (status_of conds d)" if "d \<in> set (cs_dependents cs)" for d
    using that cond_wf_status [OF assms(1), of d] by auto
  then have "status_of conds d = ConditionTrue \<longleftrightarrow>
             status_of conds d \<noteq> ConditionFalse \<and> status_of conds d \<noteq> ConditionUnknown"
    if "d \<in> set (cs_dependents cs)" for d
    using that by (auto simp: valid_status_def)
  moreover have "IsHappy cs conds \<longleftrightarrow> aggregate (map (status_of conds) (cs_dependents cs)) = ConditionTrue"
    using assms(2) by (simp add: IsHappy_def IsTrue_status_of happy_agrees_def)
  ultimately show ?thesis by (auto simp: aggregate_simps image_iff)
qed

section \<open>The top-level condition reset\<close>

text \<open>Marking the top-level condition itself unknown leaves it unknown, or false when a dependent has failed.\<close>

lemma MarkUnknown_happy:
  assumes "cs_wf cs" and "cond_wf cs conds"
  shows "cond_wf cs (MarkUnknown now cs (cs_happy cs) r m conds)"
    and "status_of (MarkUnknown now cs (cs_happy cs) r m conds) (cs_happy cs) \<noteq> ConditionTrue"
proof -
  define conds1 where "conds1 = SetCondition now (mkCondition cs (cs_happy cs) ConditionUnknown r m) conds"
  have wf1: "cond_wf cs conds1" unfolding conds1_def using assms by (intro cond_wf_mk) (auto simp: isTerminal_def)
  have st1: "status_of conds1 (cs_happy cs) = ConditionUnknown"
    unfolding conds1_def using cond_wfD(2) [OF assms(2)] by (simp add: status_of_SetCondition)
  have f: "cs_happy cs \<notin> set (cs_dependents cs)" "filter (\<lambda>d. d = cs_happy cs) (cs_dependents cs) = []"
    using assms(1) by (auto simp: cs_wf_def filter_empty_conv)
  have eq: "MarkUnknown now cs (cs_happy cs) r m conds =
      (if \<exists>d \<in> set (cs_dependents cs). IsFalse (GetCondition d conds1)
       then SetCondition now (mkCondition cs (cs_happy cs) ConditionFalse r m) conds1 else conds1)"
    using st1 f by (simp add: MarkUnknown_def conds1_def [symmetric] MarkUnknown_loop_eq IsFalse_status_of MarkFalse_def)
  show "cond_wf cs (MarkUnknown now cs (cs_happy cs) r m conds)"
    unfolding eq using wf1 by (auto intro!: cond_wf_mk simp: isTerminal_def)
  show "status_of (MarkUnknown now cs (cs_happy cs) r m conds) (cs_happy cs) \<noteq> ConditionTrue"
    unfolding eq using st1 cond_wfD(2) [OF wf1] by (simp add: status_of_SetCondition)
qed

end
