(* ===== verification/ApiTypes.thy ===== *)
theory ApiTypes
  imports Conditions
begin

text \<open>
  The API types of \<open>pkg/apis/messaging/v1alpha1\<close> (\<open>kafka_channel_types.go\<close>) with the embedded
  Kubernetes and Knative types, restricted to the fields that this program reads or writes.
  A Go map is a HOL map; where the code tells a nil map from an empty one it is an option. A
  pointer that may be nil is an option.
\<close>

section \<open>Embedded types\<close>

record Url =
  url_Scheme :: string
  url_Host :: string
  url_Path :: string

text \<open>\<open>String()\<close> of a URL with a scheme, a host and a path (no user, query or fragment).\<close>

definition url_String :: "Url \<Rightarrow> string" where
  "url_String u =
     (if url_Scheme u \<noteq> '''' then url_Scheme u @ '':'' else '''') @
     (if url_Scheme u \<noteq> '''' \<or> url_Host u \<noteq> ''''
      then (if url_Host u \<noteq> '''' \<or> url_Path u \<noteq> '''' then ''//'' else '''') @ url_Host u
      else '''') @
     (if url_Path u \<noteq> '''' \<and> hd (url_Path u) \<noteq> CHR ''/'' \<and> url_Host u \<noteq> '''' then ''/'' else '''') @
     url_Path u"

record OwnerReference =
  or_APIVersion :: string
  or_Kind :: string
  or_Name :: string
  or_UID :: uid
  or_Controller :: bool

record ObjectMeta =
  om_Name :: string
  om_Namespace :: string
  om_UID :: uid
  om_ResourceVersion :: string
  om_Generation :: int
  om_DeletionTimestamp :: "time option"
  om_Labels :: "string \<rightharpoonup> string"
  om_Annotations :: "(string \<rightharpoonup> string) option"
  om_OwnerReferences :: "OwnerReference list"
  om_Finalizers :: "string list"

text \<open>The zero value of \<open>ObjectMeta\<close>.\<close>

definition zero_ObjectMeta :: ObjectMeta where
  "zero_ObjectMeta =
     \<lparr>om_Name = '''', om_Namespace = '''', om_UID = '''', om_ResourceVersion = '''', om_Generation = 0,
      om_DeletionTimestamp = None, om_Labels = Map.empty, om_Annotations = None,
      om_OwnerReferences = [], om_Finalizers = []\<rparr>"

record SecretKeySelector =
  sk_Name :: string
  sk_Key :: string

record KafkaSASLSpec =
  sasl_Enable :: bool
  sasl_User :: "SecretKeySelector option"
  sasl_Password :: "SecretKeySelector option"
  sasl_Type :: "SecretKeySelector option"

record KafkaTLSSpec =
  tls_Enable :: bool
  tls_Cert :: "SecretKeySelector option"
  tls_Key :: "SecretKeySelector option"
  tls_CACert :: "SecretKeySelector option"

record DeliverySpec =
  ds_DeadLetterSinkURI :: "Url option"
  ds_Retry :: "int32 option"
  ds_BackoffPolicy :: "string option"
  ds_BackoffDelay :: "string option"

record SubscriberSpec =
  ss_UID :: uid
  ss_Generation :: int
  ss_SubscriberURI :: "Url option"
  ss_ReplyURI :: "Url option"
  ss_Delivery :: "DeliverySpec option"

record SubscriberStatus =
  sst_UID :: uid
  sst_ObservedGeneration :: int
  sst_Ready :: ConditionStatus
  sst_Message :: string

section \<open>The channel\<close>

record KafkaTopicChannelSpec =
  sp_NumPartitions :: int32
  sp_ReplicationFactor :: int16
  sp_BootstrapServers :: "string list"
  sp_SASL :: KafkaSASLSpec
  sp_TLS :: KafkaTLSSpec
  sp_Topic :: string
  sp_Subscribers :: "SubscriberSpec list"
  sp_Delivery :: "DeliverySpec option"

text \<open>\<open>st_Address\<close> is the pointer \<open>Address\<close> to an \<open>Addressable\<close>, which holds a pointer to a URL.\<close>

record KafkaTopicChannelStatus =
  st_ObservedGeneration :: int
  st_Conditions :: "Condition list"
  st_Annotations :: "string \<rightharpoonup> string"
  st_Address :: "Url option option"
  st_Subscribers :: "SubscriberStatus list"

record KafkaTopicChannel =
  kc_Meta :: ObjectMeta
  kc_Spec :: KafkaTopicChannelSpec
  kc_Status :: KafkaTopicChannelStatus

abbreviation kc_Name :: "KafkaTopicChannel \<Rightarrow> string" where
  "kc_Name kc \<equiv> om_Name (kc_Meta kc)"

abbreviation kc_Namespace :: "KafkaTopicChannel \<Rightarrow> string" where
  "kc_Namespace kc \<equiv> om_Namespace (kc_Meta kc)"

text \<open>\<open>SchemeGroupVersion\<close> and \<open>GetGroupVersionKind\<close>, as the pair of API version and kind.\<close>

definition GroupName :: string where
  "GroupName = ''messaging.optum.dev''"

definition SchemeGroupVersion :: "string \<times> string" where
  "SchemeGroupVersion = (GroupName, ''v1alpha1'')"

definition GetGroupVersionKind :: "KafkaTopicChannel \<Rightarrow> string \<times> string \<times> string" where
  "GetGroupVersionKind c = (fst SchemeGroupVersion, snd SchemeGroupVersion, ''KafkaTopicChannel'')"

text \<open>
  \<open>kmeta.NewControllerRef(kc)\<close> (\<open>metav1.NewControllerRef\<close> of the object and its kind) and
  \<open>metav1.IsControlledBy\<close>: the controller reference of an object names the owner's UID.
\<close>

definition NewControllerRef :: "KafkaTopicChannel \<Rightarrow> OwnerReference" where
  "NewControllerRef kc =
     (case GetGroupVersionKind kc of (g, v, k) \<Rightarrow>
        \<lparr>or_APIVersion = g @ ''/'' @ v, or_Kind = k, or_Name = kc_Name kc,
         or_UID = om_UID (kc_Meta kc), or_Controller = True\<rparr>)"

definition IsControlledBy :: "ObjectMeta \<Rightarrow> ObjectMeta \<Rightarrow> bool" where
  "IsControlledBy obj owner =
     (case find or_Controller (om_OwnerReferences obj) of
        None \<Rightarrow> False
      | Some ref \<Rightarrow> or_UID ref = om_UID owner)"

lemma IsControlledBy_NewControllerRef:
  "om_OwnerReferences obj = [NewControllerRef kc] \<Longrightarrow> IsControlledBy obj (kc_Meta kc)"
  by (simp add: IsControlledBy_def NewControllerRef_def GetGroupVersionKind_def)

section \<open>Sample objects\<close>

text \<open>A channel \<open>ns/ch\<close> with a given number of partitions and given subscribers, used in the examples.\<close>

definition sample_subscriber :: "uid \<Rightarrow> SubscriberSpec" where
  "sample_subscriber u =
     \<lparr>ss_UID = u, ss_Generation = 1, ss_SubscriberURI = None, ss_ReplyURI = None, ss_Delivery = None\<rparr>"

definition sample_spec :: "int32 \<Rightarrow> SubscriberSpec list \<Rightarrow> KafkaTopicChannelSpec" where
  "sample_spec n subs =
     \<lparr>sp_NumPartitions = n, sp_ReplicationFactor = 1, sp_BootstrapServers = [''kafka:9092''],
      sp_SASL = \<lparr>sasl_Enable = False, sasl_User = None, sasl_Password = None, sasl_Type = None\<rparr>,
      sp_TLS = \<lparr>tls_Enable = False, tls_Cert = None, tls_Key = None, tls_CACert = None\<rparr>,
      sp_Topic = ''topic'', sp_Subscribers = subs, sp_Delivery = None\<rparr>"

definition sample_status :: KafkaTopicChannelStatus where
  "sample_status =
     \<lparr>st_ObservedGeneration = 0, st_Conditions = [], st_Annotations = Map.empty, st_Address = None,
      st_Subscribers = []\<rparr>"

definition sample_channel :: "int32 \<Rightarrow> SubscriberSpec list \<Rightarrow> KafkaTopicChannel" where
  "sample_channel n subs =
     \<lparr>kc_Meta = zero_ObjectMeta\<lparr>om_Name := ''ch'', om_Namespace := ''ns'', om_UID := ''kc-uid''\<rparr>,
      kc_Spec = sample_spec n subs, kc_Status = sample_status\<rparr>"

lemmas sample_defs = sample_subscriber_def sample_spec_def sample_status_def sample_channel_def zero_ObjectMeta_def

end
