(* ===== verification/Prober.thy ===== *)
theory Prober
  imports ApiTypes
begin

text \<open>
  The status prober of the controller (\<open>pkg/channel/kt/status/status.go\<close>). For every subscription it
  keeps a target state, shared with the work items and goroutines that probe the dispatcher pods;
  these objects live in stores and are named by addresses. The exported operations, each phase of a
  worker around the network call, and the reactions of the two goroutines per pod are steps of
  their own, which interleave in any order.
\<close>

section \<open>State\<close>

text \<open>
  A target state; \<open>ts_done\<close> tells whether its context is cancelled. (The field \<open>lastAccessed\<close> is
  written once and never read.)
\<close>

record targetState =
  ts_sub :: SubscriberSpec
  ts_ch :: KafkaTopicChannel
  ts_pendingCount :: int32
  ts_probedPods :: "ip set"
  ts_ready :: bool
  ts_readyPartitions :: "int set"
  ts_done :: bool

text \<open>\<open>ps_cancelled\<close> tells whether \<open>cancel\<close> of the pod's own context was called.\<close>

record podState =
  ps_pendingCount :: int32
  ps_cancelled :: bool

record workItem =
  wi_targetStates :: nat
  wi_podState :: nat
  wi_url :: Url
  wi_podIP :: ip
  wi_podPort :: string

record ProbeTarget =
  pt_PodIPs :: "ip set"
  pt_PodPort :: string
  pt_URL :: Url

text \<open>
  What a probe yields: an error of the transport (a timeout or a cancelled context included), or a
  status code with a body, \<open>None\<close> when the body is not the JSON that is expected.
\<close>

datatype probe_response =
    TransportError go_error
  | HttpResponse nat "(uid \<rightharpoonup> int list) option"

record ready_call =
  rc_state :: nat
  rc_pod :: nat
  rc_ch :: KafkaTopicChannel
  rc_sub :: SubscriberSpec

text \<open>
  The prober. \<open>p_workQueue\<close> are the items waiting in the work queue (delays and rate limits only
  decide when an item is taken), \<open>p_probing\<close> the items whose probe is under way, \<open>p_answered\<close> the
  items whose probe has ended with \<open>ok\<close> or an error, \<open>p_succeeding\<close> the items about to enter
  \<open>onProbingSuccess\<close>. \<open>p_joiners\<close> and \<open>p_watchers\<close> are the goroutines started per pod.
  \<open>p_calls\<close> and \<open>p_responses\<close> record the calls of \<open>readyCallback\<close> and the responses received.
\<close>

record Prober =
  p_targetStates :: "uid \<rightharpoonup> nat"
  p_states :: "nat \<Rightarrow> targetState"
  p_nextState :: nat
  p_pods :: "nat \<Rightarrow> podState"
  p_nextPod :: nat
  p_podContexts :: "ip \<rightharpoonup> nat"
  p_ipDone :: "nat \<Rightarrow> bool"
  p_nextCtx :: nat
  p_workQueue :: "workItem list"
  p_probing :: "workItem list"
  p_answered :: "(workItem \<times> bool) list"
  p_succeeding :: "workItem list"
  p_joiners :: "(nat \<times> nat \<times> nat) list"
  p_watchers :: "(nat \<times> nat) list"
  p_calls :: "ready_call list"
  p_responses :: "(nat \<times> probe_response) list"

text \<open>\<open>podCtx\<close> is done when it was cancelled or its parent, the context of the target state, was.\<close>

definition podCtx_done :: "Prober \<Rightarrow> nat \<Rightarrow> nat \<Rightarrow> bool" where
  "podCtx_done m s p \<longleftrightarrow> ps_cancelled (p_pods m p) \<or> ts_done (p_states m s)"

section \<open>Operations\<close>

definition upd_state :: "nat \<Rightarrow> (targetState \<Rightarrow> targetState) \<Rightarrow> Prober \<Rightarrow> Prober" where
  "upd_state s f m = m\<lparr>p_states := (p_states m)(s := f (p_states m s))\<rparr>"

definition upd_pod :: "nat \<Rightarrow> (podState \<Rightarrow> podState) \<Rightarrow> Prober \<Rightarrow> Prober" where
  "upd_pod p f m = m\<lparr>p_pods := (p_pods m)(p := f (p_pods m p))\<rparr>"

definition state_check :: "targetState \<Rightarrow> targetState" where
  "state_check state =
     (if \<not> ts_ready state
      then state\<lparr>ts_ready := (int (card (ts_readyPartitions state)) = sint (sp_NumPartitions (kc_Spec (ts_ch state))))\<rparr>
      else state)"

definition checkReadiness :: "nat \<Rightarrow> Prober \<Rightarrow> Prober \<times> bool" where
  "checkReadiness s m = (upd_state s state_check m, ts_ready (state_check (p_states m s)))"

definition isOutdatedTargetState :: "targetState \<Rightarrow> SubscriberSpec \<Rightarrow> ip set \<Rightarrow> bool" where
  "isOutdatedTargetState state sub podIPs \<longleftrightarrow>
     ss_Generation (ts_sub state) \<noteq> ss_Generation sub \<or>
     (\<not> ts_ready state \<and> ts_probedPods state \<noteq> podIPs)"

definition ejectStateUnsafe :: "SubscriberSpec \<Rightarrow> Prober \<Rightarrow> Prober" where
  "ejectStateUnsafe sub m =
     (case p_targetStates m (ss_UID sub) of
        Some s \<Rightarrow> (upd_state s (\<lambda>state. state\<lparr>ts_done := True\<rparr>) m)
                    \<lparr>p_targetStates := (p_targetStates m)(ss_UID sub := None)\<rparr>
      | None \<Rightarrow> m)"

definition CancelProbing :: "SubscriberSpec \<Rightarrow> Prober \<Rightarrow> Prober" where
  "CancelProbing sub m = ejectStateUnsafe sub m"

definition CancelPodProbing :: "ip \<Rightarrow> Prober \<Rightarrow> Prober" where
  "CancelPodProbing podIP m =
     (case p_podContexts m podIP of
        Some c \<Rightarrow> m\<lparr>p_ipDone := (p_ipDone m)(c := True), p_podContexts := (p_podContexts m)(podIP := None)\<rparr>
      | None \<Rightarrow> m)"

text \<open>Get or create the context of an IP.\<close>

definition ip_context :: "ip \<Rightarrow> Prober \<Rightarrow> Prober \<times> nat" where
  "ip_context ip m =
     (case p_podContexts m ip of
        Some c \<Rightarrow> (m, c)
      | None \<Rightarrow> (m\<lparr>p_podContexts := (p_podContexts m)(ip \<mapsto> p_nextCtx m),
                     p_ipDone := (p_ipDone m)(p_nextCtx m := False),
                     p_nextCtx := Suc (p_nextCtx m)\<rparr>, p_nextCtx m))"

text \<open>
  The body of the loop of \<open>probeTarget\<close> over the IPs: a pod state with the IP's work items (there is
  one per IP), the two goroutines, and the items queued.
\<close>

definition probe_ip :: "nat \<Rightarrow> ProbeTarget \<Rightarrow> ip \<Rightarrow> Prober \<Rightarrow> Prober" where
  "probe_ip s target ip m =
     (let (m1, ipCtx) = ip_context ip m;
          p = p_nextPod m1;
          ipWorkItems = [\<lparr>wi_targetStates = s, wi_podState = p, wi_url = pt_URL target,
                          wi_podIP = ip, wi_podPort = pt_PodPort target\<rparr>]
      in m1\<lparr>p_pods := (p_pods m1)(p := \<lparr>ps_pendingCount = of_nat (length ipWorkItems), ps_cancelled = False\<rparr>),
            p_nextPod := Suc p,
            p_joiners := p_joiners m1 @ [(s, p, ipCtx)],
            p_watchers := p_watchers m1 @ [(s, p)],
            p_workQueue := p_workQueue m1 @ ipWorkItems\<rparr>)"

definition probeTarget ::
  "(ip set \<Rightarrow> ip list) \<Rightarrow> KafkaTopicChannel \<Rightarrow> SubscriberSpec \<Rightarrow> ProbeTarget \<Rightarrow> Prober \<Rightarrow> Prober" where
  "probeTarget ord ch sub target m =
     (let s = p_nextState m;
          subscriptionState =
            \<lparr>ts_sub = sub, ts_ch = ch, ts_pendingCount = of_nat (length (ord (pt_PodIPs target))),
             ts_probedPods = pt_PodIPs target, ts_ready = False, ts_readyPartitions = {}, ts_done = False\<rparr>;
          m1 = m\<lparr>p_states := (p_states m)(s := subscriptionState), p_nextState := Suc s\<rparr>;
          m2 = fold (probe_ip s target) (ord (pt_PodIPs target)) m1
      in m2\<lparr>p_targetStates := (p_targetStates m2)(ss_UID sub \<mapsto> s)\<rparr>)"

definition IsReady ::
  "(ip set \<Rightarrow> ip list) \<Rightarrow> (KafkaTopicChannel \<Rightarrow> go_error + ProbeTarget) \<Rightarrow>
   KafkaTopicChannel \<Rightarrow> SubscriberSpec \<Rightarrow> Prober \<Rightarrow> Prober \<times> (go_error + bool)" where
  "IsReady ord listProbeTargets ch sub m =
     (case listProbeTargets ch of
        Inl err \<Rightarrow> (m, Inl err)
      | Inr target \<Rightarrow>
          (case p_targetStates m (ss_UID sub) of
             Some s \<Rightarrow>
               (if \<not> isOutdatedTargetState (p_states m s) sub (pt_PodIPs target)
                then (case checkReadiness s m of (m1, b) \<Rightarrow> (m1, Inr b))
                else (probeTarget ord ch sub target (ejectStateUnsafe sub m), Inr False))
           | None \<Rightarrow> (probeTarget ord ch sub target m, Inr False)))"

text \<open>
  \<open>RefreshPodProbing\<close> ranges over a map that it changes on the way, so the keys it visits, and
  whether a replaced entry is visited again, are not fixed: \<open>visits\<close> are the keys in the order of the
  visits. An error of the lister ends the loop.
\<close>

fun RefreshPodProbing ::
  "(ip set \<Rightarrow> ip list) \<Rightarrow> (KafkaTopicChannel \<Rightarrow> go_error + ProbeTarget) \<Rightarrow> uid list \<Rightarrow> Prober \<Rightarrow> Prober" where
  "RefreshPodProbing ord listProbeTargets [] m = m"
| "RefreshPodProbing ord listProbeTargets (u # visits) m =
     (case p_targetStates m u of
        None \<Rightarrow> RefreshPodProbing ord listProbeTargets visits m
      | Some s \<Rightarrow>
          (case checkReadiness s m of
             (m1, True) \<Rightarrow> RefreshPodProbing ord listProbeTargets visits m1
           | (m1, False) \<Rightarrow>
               (let sub = ts_sub (p_states m1 s); ch = ts_ch (p_states m1 s) in
                case listProbeTargets ch of
                  Inl err \<Rightarrow> m1
                | Inr target \<Rightarrow>
                    RefreshPodProbing ord listProbeTargets visits
                      (probeTarget ord ch sub target (ejectStateUnsafe sub m1)))))"

section \<open>Workers\<close>

text \<open>\<open>processWorkItem\<close>, first phase: take an item and send the probe.\<close>

definition take_item :: "nat \<Rightarrow> Prober \<Rightarrow> Prober" where
  "take_item i m =
     m\<lparr>p_workQueue := take i (p_workQueue m) @ drop (Suc i) (p_workQueue m),
       p_probing := p_probing m @ [p_workQueue m ! i]\<rparr>"

text \<open>\<open>probeVerifier\<close>: the result and, for status 200, the partitions of the subscription are added.\<close>

definition probeVerifier :: "workItem \<Rightarrow> nat \<Rightarrow> (uid \<rightharpoonup> int list) option \<Rightarrow> Prober \<Rightarrow> Prober \<times> bool \<times> go_error option" where
  "probeVerifier item code body m =
     (if code = 200 then
        (case body of
           None \<Rightarrow> (m, False, Some (ErrorText ''error unmarshaling''))
         | Some subscriptions \<Rightarrow>
             (case subscriptions (ss_UID (ts_sub (p_states m (wi_targetStates item)))) of
                Some partitions \<Rightarrow>
                  (upd_state (wi_targetStates item)
                     (\<lambda>state. state\<lparr>ts_readyPartitions := ts_readyPartitions state \<union> set partitions\<rparr>) m, True, None)
              | None \<Rightarrow> (m, False, None)))
      else if code = 404 \<or> code = 503 then
        (m, False, Some (ErrorText (''unexpected status code: want 200, got '' @ itoa (int code))))
      else (m, True, None))"

text \<open>\<open>prober.Do\<close>: the verifier runs on a response; its verdict, or the transport's error, is the result.\<close>

definition prober_Do :: "workItem \<Rightarrow> probe_response \<Rightarrow> Prober \<Rightarrow> Prober \<times> bool \<times> go_error option" where
  "prober_Do item resp m =
     (case resp of
        TransportError e \<Rightarrow> (m, False, Some e)
      | HttpResponse code body \<Rightarrow> probeVerifier item code body m)"

definition answer_item :: "nat \<Rightarrow> probe_response \<Rightarrow> Prober \<Rightarrow> Prober" where
  "answer_item i resp m =
     (let item = p_probing m ! i in
      case prober_Do item resp m of
        (m1, ok, err) \<Rightarrow>
          m1\<lparr>p_probing := take i (p_probing m1) @ drop (Suc i) (p_probing m1),
             p_answered := p_answered m1 @ [(item, err = None \<and> ok)],
             p_responses := p_responses m1 @ [(wi_targetStates item, resp)]\<rparr>)"

text \<open>
  The rest of \<open>processWorkItem\<close>: drop the item when its context is done, queue it again after a
  failure, or go on to \<open>onProbingSuccess\<close>.
\<close>

definition decide_item :: "nat \<Rightarrow> Prober \<Rightarrow> Prober" where
  "decide_item i m =
     (case p_answered m ! i of
        (item, ok) \<Rightarrow>
          (let m1 = m\<lparr>p_answered := take i (p_answered m) @ drop (Suc i) (p_answered m)\<rparr> in
           if podCtx_done m (wi_targetStates item) (wi_podState item) then m1
           else if \<not> ok then m1\<lparr>p_workQueue := p_workQueue m1 @ [item]\<rparr>
           else m1\<lparr>p_succeeding := p_succeeding m1 @ [item]\<rparr>))"

definition call_ready :: "nat \<Rightarrow> nat \<Rightarrow> Prober \<Rightarrow> Prober" where
  "call_ready s p m =
     m\<lparr>p_calls := p_calls m @ [\<lparr>rc_state = s, rc_pod = p, rc_ch = ts_ch (p_states m s), rc_sub = ts_sub (p_states m s)\<rparr>]\<rparr>"

definition onProbingSuccess :: "nat \<Rightarrow> nat \<Rightarrow> Prober \<Rightarrow> Prober" where
  "onProbingSuccess s p m =
     (let m1 = upd_pod p (\<lambda>pod. pod\<lparr>ps_pendingCount := ps_pendingCount pod - 1\<rparr>) m in
      if ps_pendingCount (p_pods m1 p) = 0 then
        (let m2 = upd_pod p (\<lambda>pod. pod\<lparr>ps_cancelled := True\<rparr>) m1 in
         case checkReadiness s m2 of
           (m3, True) \<Rightarrow> call_ready s p (upd_state s (\<lambda>state. state\<lparr>ts_done := True\<rparr>) m3)
         | (m3, False) \<Rightarrow> m3)
      else m1)"

definition succeed_item :: "nat \<Rightarrow> Prober \<Rightarrow> Prober" where
  "succeed_item i m =
     (let item = p_succeeding m ! i in
      onProbingSuccess (wi_targetStates item) (wi_podState item)
        (m\<lparr>p_succeeding := take i (p_succeeding m) @ drop (Suc i) (p_succeeding m)\<rparr>))"

section \<open>Goroutines\<close>

text \<open>
  \<open>onProbingCancellation\<close>: the compare-and-swap loop sets a positive count to zero in one atomic
  step.
\<close>

definition onProbingCancellation :: "nat \<Rightarrow> nat \<Rightarrow> Prober \<Rightarrow> Prober" where
  "onProbingCancellation s p m =
     (if sint (ps_pendingCount (p_pods m p)) \<le> 0 then m
      else
        (let m1 = upd_pod p (\<lambda>pod. pod\<lparr>ps_pendingCount := 0\<rparr>) m;
             m2 = upd_state s (\<lambda>state. state\<lparr>ts_pendingCount := ts_pendingCount state - 1\<rparr>) m1
         in if ts_pendingCount (p_states m2 s) = 0 then
              (case checkReadiness s m2 of
                 (m3, True) \<Rightarrow> call_ready s p m3
               | (m3, False) \<Rightarrow> m3)
            else m2))"

text \<open>The goroutine that waits for \<open>podCtx\<close>, and the one that joins \<open>podCtx\<close> with the context of the IP.\<close>

definition run_watcher :: "nat \<Rightarrow> Prober \<Rightarrow> Prober" where
  "run_watcher i m =
     (case p_watchers m ! i of
        (s, p) \<Rightarrow>
          onProbingCancellation s p (m\<lparr>p_watchers := take i (p_watchers m) @ drop (Suc i) (p_watchers m)\<rparr>))"

definition run_joiner :: "nat \<Rightarrow> Prober \<Rightarrow> Prober" where
  "run_joiner i m =
     (case p_joiners m ! i of
        (s, p, c) \<Rightarrow>
          (let m1 = m\<lparr>p_joiners := take i (p_joiners m) @ drop (Suc i) (p_joiners m)\<rparr> in
           if podCtx_done m s p then m1
           else upd_pod p (\<lambda>pod. pod\<lparr>ps_cancelled := True\<rparr>) m1))"

definition NewProber :: "targetState \<Rightarrow> podState \<Rightarrow> Prober" where
  "NewProber s0 p0 =
     \<lparr>p_targetStates = Map.empty, p_states = (\<lambda>_. s0), p_nextState = 0, p_pods = (\<lambda>_. p0), p_nextPod = 0,
      p_podContexts = Map.empty, p_ipDone = (\<lambda>_. False), p_nextCtx = 0, p_workQueue = [], p_probing = [],
      p_answered = [], p_succeeding = [], p_joiners = [], p_watchers = [], p_calls = [], p_responses = []\<rparr>"

section \<open>Runs\<close>

definition finite_target :: "(KafkaTopicChannel \<Rightarrow> go_error + ProbeTarget) \<Rightarrow> bool" where
  "finite_target lister \<longleftrightarrow> (\<forall>ch target. lister ch = Inr target \<longrightarrow> finite (pt_PodIPs target))"

inductive prober_step :: "Prober \<Rightarrow> Prober \<Rightarrow> bool" where
  is_ready: "go_range ord \<Longrightarrow> finite_target lister \<Longrightarrow> prober_step m (fst (IsReady ord lister ch sub m))"
| cancel: "prober_step m (CancelProbing sub m)"
| cancel_pod: "prober_step m (CancelPodProbing ip m)"
| refresh: "go_range ord \<Longrightarrow> finite_target lister \<Longrightarrow> prober_step m (RefreshPodProbing ord lister visits m)"
| take_it: "i < length (p_workQueue m) \<Longrightarrow> prober_step m (take_item i m)"
| answer: "i < length (p_probing m) \<Longrightarrow> prober_step m (answer_item i resp m)"
| decide: "i < length (p_answered m) \<Longrightarrow> prober_step m (decide_item i m)"
| succeed: "i < length (p_succeeding m) \<Longrightarrow> prober_step m (succeed_item i m)"
| watcher: "i < length (p_watchers m) \<Longrightarrow> p_watchers m ! i = (s, p) \<Longrightarrow> podCtx_done m s p \<Longrightarrow> prober_step m (run_watcher i m)"
| joiner: "i < length (p_joiners m) \<Longrightarrow> p_joiners m ! i = (s, p, c) \<Longrightarrow> podCtx_done m s p \<or> p_ipDone m c \<Longrightarrow>
    prober_step m (run_joiner i m)"

inductive prober_reachable :: "Prober \<Rightarrow> bool" where
  start: "prober_reachable (NewProber s0 p0)"
| step: "prober_reachable m \<Longrightarrow> prober_step m m' \<Longrightarrow> prober_reachable m'"

inductive_cases prober_stepE: "prober_step m m'"

section \<open>The invariant\<close>

text \<open>The partitions of subscription \<open>u\<close> that responses with status 200 to probes of state \<open>s\<close> listed.\<close>

definition reported :: "(nat \<times> probe_response) list \<Rightarrow> nat \<Rightarrow> uid \<Rightarrow> int set" where
  "reported rs s u = {p. \<exists>body ps. (s, HttpResponse 200 (Some body)) \<in> set rs \<and> body u = Some ps \<and> p \<in> set ps}"

definition state_wf :: "(nat \<times> probe_response) list \<Rightarrow> nat \<Rightarrow> targetState \<Rightarrow> bool" where
  "state_wf rs s st \<longleftrightarrow> ts_readyPartitions st = reported rs s (ss_UID (ts_sub st)) \<and>
     (ts_ready st \<longrightarrow> sint (sp_NumPartitions (kc_Spec (ts_ch st))) \<le> int (card (ts_readyPartitions st)))"

definition states_inv :: "Prober \<Rightarrow> bool" where
  "states_inv m \<longleftrightarrow>
     (\<forall>u s. p_targetStates m u = Some s \<longrightarrow> s < p_nextState m \<and> ss_UID (ts_sub (p_states m s)) = u) \<and>
     (\<forall>s < p_nextState m. state_wf (p_responses m) s (p_states m s)) \<and>
     (\<forall>(s, r) \<in> set (p_responses m). s < p_nextState m)"

definition items :: "Prober \<Rightarrow> workItem list" where
  "items m = p_workQueue m @ p_probing m @ map fst (p_answered m) @ p_succeeding m"

definition pods_inv :: "Prober \<Rightarrow> bool" where
  "pods_inv m \<longleftrightarrow>
     (\<forall>item \<in> set (items m). wi_targetStates item < p_nextState m \<and> wi_podState item < p_nextPod m) \<and>
     (\<forall>(s, p) \<in> set (p_watchers m). s < p_nextState m \<and> p < p_nextPod m) \<and>
     distinct (map wi_podState (items m)) \<and>
     (\<forall>p < p_nextPod m. ps_pendingCount (p_pods m p) \<in> {1, 0, -1}) \<and>
     (\<forall>item \<in> set (items m). ps_pendingCount (p_pods m (wi_podState item)) \<noteq> -1)"

definition calls_inv :: "Prober \<Rightarrow> bool" where
  "calls_inv m \<longleftrightarrow>
     (\<forall>c \<in> set (p_calls m). rc_state c < p_nextState m \<and> ts_ready (p_states m (rc_state c)) \<and>
        rc_ch c = ts_ch (p_states m (rc_state c)) \<and> rc_sub c = ts_sub (p_states m (rc_state c)) \<and>
        rc_pod c < p_nextPod m \<and> ps_pendingCount (p_pods m (rc_pod c)) \<noteq> 1) \<and>
     distinct (map rc_pod (p_calls m))"

definition prober_inv :: "Prober \<Rightarrow> bool" where
  "prober_inv m \<longleftrightarrow> states_inv m \<and> pods_inv m \<and> calls_inv m"

text \<open>
  How states evolve: a state keeps its subscription and channel, its partitions only grow, and once
  ready it stays ready.
\<close>

definition state_le :: "targetState \<Rightarrow> targetState \<Rightarrow> bool" where
  "state_le a b \<longleftrightarrow> ts_sub b = ts_sub a \<and> ts_ch b = ts_ch a \<and>
     ts_readyPartitions a \<subseteq> ts_readyPartitions b \<and> (ts_ready a \<longrightarrow> ts_ready b)"

definition evolves :: "Prober \<Rightarrow> Prober \<Rightarrow> bool" where
  "evolves m m' \<longleftrightarrow> p_nextState m \<le> p_nextState m' \<and>
     (\<forall>s < p_nextState m. state_le (p_states m s) (p_states m' s))"

lemma state_le_refl [simp]: "state_le a a"
  by (simp add: state_le_def)

lemma evolves_refl [simp]: "evolves m m"
  by (simp add: evolves_def)

lemma evolves_trans: "evolves a b \<Longrightarrow> evolves b c \<Longrightarrow> evolves a c"
  unfolding evolves_def state_le_def by (metis dual_order.trans order_less_le_trans subset_trans)

lemma evolves_same: "p_nextState m' = p_nextState m \<Longrightarrow> p_states m' = p_states m \<Longrightarrow> evolves m m'"
  by (simp add: evolves_def)

lemma finite_reported: "finite (reported rs s u)"
proof -
  have "reported rs s u \<subseteq> (\<Union>(s', r) \<in> set rs.
      case r of HttpResponse _ (Some body) \<Rightarrow> (case body u of Some ps \<Rightarrow> set ps | None \<Rightarrow> {}) | _ \<Rightarrow> {})"
    by (force simp: reported_def)
  moreover have "finite (\<Union>(s', r) \<in> set rs.
      case r of HttpResponse _ (Some body) \<Rightarrow> (case body u of Some ps \<Rightarrow> set ps | None \<Rightarrow> {}) | _ \<Rightarrow> {})"
    by (rule finite_UN_I) (auto split: probe_response.splits option.splits prod.splits)
  ultimately show ?thesis by (rule finite_subset)
qed

lemma reported_mono: "reported rs s u \<subseteq> reported (rs @ rs') s u"
  by (auto simp: reported_def)

section \<open>Updates of a state\<close>

text \<open>An update that keeps all that the invariant says of a state.\<close>

definition keeps :: "(targetState \<Rightarrow> targetState) \<Rightarrow> bool" where
  "keeps f \<longleftrightarrow> (\<forall>st. state_le st (f st) \<and> ts_readyPartitions (f st) = ts_readyPartitions st \<and>
     (ts_ready (f st) \<longrightarrow> ts_ready st \<or>
        int (card (ts_readyPartitions st)) = sint (sp_NumPartitions (kc_Spec (ts_ch st)))))"

lemma keeps_simps [simp]:
  "keeps state_check"
  "keeps (\<lambda>state. state\<lparr>ts_done := True\<rparr>)"
  "keeps (\<lambda>state. state\<lparr>ts_pendingCount := g state\<rparr>)"
  by (auto simp: keeps_def state_le_def state_check_def)

lemma keeps_evolves: "keeps f \<Longrightarrow> evolves m (upd_state s f m)"
  by (simp add: keeps_def evolves_def upd_state_def)

lemma keeps_state_wf: "keeps f \<Longrightarrow> state_wf rs s st \<Longrightarrow> state_wf rs s (f st)"
  by (simp add: keeps_def state_wf_def state_le_def) (metis order_refl)

lemma keeps_inv:
  assumes "keeps f" "prober_inv m"
  shows "prober_inv (upd_state s f m)"
proof -
  have le: "state_le (p_states m s) (f (p_states m s))" using assms(1) by (simp add: keeps_def)
  have "states_inv (upd_state s f m)"
    using assms keeps_state_wf [OF assms(1)] le
    by (auto simp: prober_inv_def states_inv_def upd_state_def state_le_def)
  moreover have "pods_inv (upd_state s f m)"
    using assms by (simp add: prober_inv_def pods_inv_def upd_state_def items_def)
  moreover have "calls_inv (upd_state s f m)"
    using assms le by (auto simp: prober_inv_def calls_inv_def upd_state_def state_le_def)
  ultimately show ?thesis by (simp add: prober_inv_def)
qed

lemma checkReadiness_inv: "prober_inv m \<Longrightarrow> prober_inv (fst (checkReadiness s m))"
  by (simp add: checkReadiness_def keeps_inv)

lemma checkReadiness_evolves: "evolves m (fst (checkReadiness s m))"
  by (simp add: checkReadiness_def keeps_evolves)

section \<open>The operations keep the invariant\<close>

lemma forget_target_inv:
  "prober_inv m \<Longrightarrow> prober_inv (m\<lparr>p_targetStates := (p_targetStates m)(u := None)\<rparr>)"
  by (simp add: prober_inv_def states_inv_def pods_inv_def calls_inv_def items_def)

lemma eject_eq:
  "ejectStateUnsafe sub m =
     (case p_targetStates m (ss_UID sub) of
        None \<Rightarrow> m
      | Some s \<Rightarrow>
          (let m1 = upd_state s (\<lambda>state. state\<lparr>ts_done := True\<rparr>) m
           in m1\<lparr>p_targetStates := (p_targetStates m1)(ss_UID sub := None)\<rparr>))"
  by (simp add: ejectStateUnsafe_def upd_state_def split: option.splits)

lemma eject_inv: "prober_inv m \<Longrightarrow> prober_inv (ejectStateUnsafe sub m)"
  unfolding eject_eq Let_def by (auto split: option.splits intro!: forget_target_inv keeps_inv)

lemma eject_evolves: "evolves m (ejectStateUnsafe sub m)"
  by (auto simp: ejectStateUnsafe_def evolves_def upd_state_def state_le_def split: option.splits)

lemma CancelPodProbing_inv: "prober_inv m \<Longrightarrow> prober_inv (CancelPodProbing ip m)"
  by (auto simp: CancelPodProbing_def prober_inv_def states_inv_def pods_inv_def calls_inv_def items_def
      split: option.splits)

lemma CancelPodProbing_evolves: "evolves m (CancelPodProbing ip m)"
  by (simp add: CancelPodProbing_def evolves_same split: option.splits)

lemma ip_context_fields:
  assumes "ip_context ip m = (m1, c)"
  shows "p_targetStates m1 = p_targetStates m" "p_states m1 = p_states m" "p_nextState m1 = p_nextState m"
    "p_pods m1 = p_pods m" "p_nextPod m1 = p_nextPod m" "p_workQueue m1 = p_workQueue m"
    "p_probing m1 = p_probing m" "p_answered m1 = p_answered m" "p_succeeding m1 = p_succeeding m"
    "p_watchers m1 = p_watchers m" "p_calls m1 = p_calls m" "p_responses m1 = p_responses m"
  using assms by (auto simp: ip_context_def split: option.splits)

lemma probe_ip_fields:
  shows "p_targetStates (probe_ip s t ip m) = p_targetStates m" "p_states (probe_ip s t ip m) = p_states m"
    "p_nextState (probe_ip s t ip m) = p_nextState m" "p_calls (probe_ip s t ip m) = p_calls m"
    "p_responses (probe_ip s t ip m) = p_responses m" "p_probing (probe_ip s t ip m) = p_probing m"
    "p_answered (probe_ip s t ip m) = p_answered m" "p_succeeding (probe_ip s t ip m) = p_succeeding m"
    "p_nextPod (probe_ip s t ip m) = Suc (p_nextPod m)"
    "p_pods (probe_ip s t ip m) = (p_pods m)(p_nextPod m := \<lparr>ps_pendingCount = 1, ps_cancelled = False\<rparr>)"
    "p_watchers (probe_ip s t ip m) = p_watchers m @ [(s, p_nextPod m)]"
    "p_workQueue (probe_ip s t ip m) = p_workQueue m @
       [\<lparr>wi_targetStates = s, wi_podState = p_nextPod m, wi_url = pt_URL t, wi_podIP = ip, wi_podPort = pt_PodPort t\<rparr>]"
  by (auto simp: probe_ip_def Let_def ip_context_fields split: prod.splits)

lemma probe_ip_inv:
  assumes inv: "prober_inv m" and s: "s < p_nextState m"
  shows "prober_inv (probe_ip s t ip m)"
proof -
  let ?m = "probe_ip s t ip m"
  have old: "wi_podState item < p_nextPod m" if "item \<in> set (items m)" for item
    using inv that by (auto simp: prober_inv_def pods_inv_def)
  have it: "set (items ?m) = insert \<lparr>wi_targetStates = s, wi_podState = p_nextPod m, wi_url = pt_URL t,
      wi_podIP = ip, wi_podPort = pt_PodPort t\<rparr> (set (items m))"
    by (auto simp: items_def probe_ip_fields)
  have "p_nextPod m \<notin> wi_podState ` set (items m)" using old by fastforce
  then have "distinct (map wi_podState (items ?m))"
    using inv by (auto simp: prober_inv_def pods_inv_def items_def probe_ip_fields)
  then have "pods_inv ?m"
    using inv s old unfolding prober_inv_def pods_inv_def it
    by (auto simp: probe_ip_fields less_Suc_eq)
  moreover have "states_inv ?m" using inv by (simp add: prober_inv_def states_inv_def probe_ip_fields)
  moreover have "calls_inv ?m" using inv by (fastforce simp: prober_inv_def calls_inv_def probe_ip_fields)
  ultimately show ?thesis by (simp add: prober_inv_def)
qed

lemma probe_ips_inv:
  "prober_inv m \<Longrightarrow> s < p_nextState m \<Longrightarrow>
     prober_inv (fold (probe_ip s t) ips m) \<and> p_states (fold (probe_ip s t) ips m) = p_states m \<and>
     p_nextState (fold (probe_ip s t) ips m) = p_nextState m \<and>
     p_targetStates (fold (probe_ip s t) ips m) = p_targetStates m"
  by (induction ips arbitrary: m) (simp_all add: probe_ip_inv probe_ip_fields)

text \<open>The new state of \<open>probeTarget\<close>.\<close>

definition fresh_state :: "targetState \<Rightarrow> Prober \<Rightarrow> Prober" where
  "fresh_state st m = m\<lparr>p_states := (p_states m)(p_nextState m := st), p_nextState := Suc (p_nextState m)\<rparr>"

lemma fresh_state_inv:
  assumes inv: "prober_inv m" and st: "ts_readyPartitions st = {}" "\<not> ts_ready st"
  shows "prober_inv (fresh_state st m)"
proof -
  have "reported (p_responses m) (p_nextState m) u = {}" for u
    using inv by (fastforce simp: prober_inv_def states_inv_def reported_def)
  then have "states_inv (fresh_state st m)"
    using inv st by (auto simp: prober_inv_def states_inv_def fresh_state_def state_wf_def less_Suc_eq)
  moreover have "pods_inv (fresh_state st m)"
    using inv by (auto simp: prober_inv_def pods_inv_def fresh_state_def items_def less_Suc_eq)
  moreover have "calls_inv (fresh_state st m)"
    using inv by (auto simp: prober_inv_def calls_inv_def fresh_state_def less_Suc_eq)
  ultimately show ?thesis by (simp add: prober_inv_def)
qed

lemma probeTarget_spec:
  assumes inv: "prober_inv m"
  shows "prober_inv (probeTarget ord ch sub t m)" and "evolves m (probeTarget ord ch sub t m)"
    and "p_targetStates (probeTarget ord ch sub t m) = (p_targetStates m)(ss_UID sub \<mapsto> p_nextState m)"
    and "p_states (probeTarget ord ch sub t m) (p_nextState m) =
      \<lparr>ts_sub = sub, ts_ch = ch, ts_pendingCount = of_nat (length (ord (pt_PodIPs t))),
       ts_probedPods = pt_PodIPs t, ts_ready = False, ts_readyPartitions = {}, ts_done = False\<rparr>"
proof -
  define st where "st = \<lparr>ts_sub = sub, ts_ch = ch, ts_pendingCount = of_nat (length (ord (pt_PodIPs t))),
    ts_probedPods = pt_PodIPs t, ts_ready = False, ts_readyPartitions = {}, ts_done = False\<rparr>"
  define m2 where "m2 = fold (probe_ip (p_nextState m) t) (ord (pt_PodIPs t)) (fresh_state st m)"
  have eq: "probeTarget ord ch sub t m = m2\<lparr>p_targetStates := (p_targetStates m2)(ss_UID sub \<mapsto> p_nextState m)\<rparr>"
    by (simp add: probeTarget_def Let_def m2_def st_def fresh_state_def)
  have "prober_inv (fresh_state st m)" by (rule fresh_state_inv [OF inv]) (simp_all add: st_def)
  then have inv2: "prober_inv m2" and f: "p_states m2 = (p_states m)(p_nextState m := st)"
    "p_nextState m2 = Suc (p_nextState m)" "p_targetStates m2 = p_targetStates m"
    using probe_ips_inv [of "fresh_state st m" "p_nextState m" t "ord (pt_PodIPs t)"]
    by (auto simp: m2_def fresh_state_def)
  show "prober_inv (probeTarget ord ch sub t m)"
    using inv2 unfolding eq prober_inv_def states_inv_def pods_inv_def calls_inv_def items_def
    by (simp add: f st_def)
  show "evolves m (probeTarget ord ch sub t m)" by (simp add: eq evolves_def f)
  show "p_targetStates (probeTarget ord ch sub t m) = (p_targetStates m)(ss_UID sub \<mapsto> p_nextState m)"
    by (simp add: eq f)
  show "p_states (probeTarget ord ch sub t m) (p_nextState m) =
      \<lparr>ts_sub = sub, ts_ch = ch, ts_pendingCount = of_nat (length (ord (pt_PodIPs t))),
       ts_probedPods = pt_PodIPs t, ts_ready = False, ts_readyPartitions = {}, ts_done = False\<rparr>"
    by (simp add: eq f st_def)
qed

lemma IsReady_inv: "prober_inv m \<Longrightarrow> prober_inv (fst (IsReady ord lister ch sub m))"
  by (auto simp: IsReady_def checkReadiness_def keeps_inv probeTarget_spec eject_inv
      split: sum.splits option.splits)

lemma IsReady_evolves: "prober_inv m \<Longrightarrow> evolves m (fst (IsReady ord lister ch sub m))"
  using evolves_trans [OF eject_evolves probeTarget_spec(2) [OF eject_inv]]
  by (auto simp: IsReady_def checkReadiness_def keeps_evolves probeTarget_spec split: sum.splits option.splits)

lemma RefreshPodProbing_spec:
  "prober_inv m \<Longrightarrow> prober_inv (RefreshPodProbing ord lister visits m) \<and>
     evolves m (RefreshPodProbing ord lister visits m)"
proof (induction visits arbitrary: m)
  case Nil
  then show ?case by simp
next
  case (Cons u visits m)
  show ?case
  proof (cases "p_targetStates m u")
    case None
    with Cons show ?thesis by simp
  next
    case (Some s)
    obtain m1 b where c: "checkReadiness s m = (m1, b)" by fastforce
    have i1: "prober_inv m1" and e1: "evolves m m1"
      using checkReadiness_inv [OF Cons.prems, of s] checkReadiness_evolves [of m s] c by auto
    show ?thesis
    proof (cases b)
      case True
      with Cons.IH [OF i1] Some c e1 show ?thesis by (auto intro: evolves_trans)
    next
      case False
      show ?thesis
      proof (cases "lister (ts_ch (p_states m1 s))")
        case (Inl err)
        with False Some c i1 e1 show ?thesis by simp
      next
        case (Inr t)
        let ?ch = "ts_ch (p_states m1 s)" and ?sub = "ts_sub (p_states m1 s)"
        let ?m2 = "probeTarget ord ?ch ?sub t (ejectStateUnsafe ?sub m1)"
        have i2: "prober_inv ?m2" and e2: "evolves m ?m2"
          using probeTarget_spec(1,2) [OF eject_inv [OF i1]] e1 eject_evolves [of m1 ?sub]
          by (auto intro: evolves_trans)
        have r: "RefreshPodProbing ord lister (u # visits) m = RefreshPodProbing ord lister visits ?m2"
          using False Some c Inr by (simp add: Let_def)
        show ?thesis unfolding r using Cons.IH [OF i2] e2 by (blast intro: evolves_trans)
      qed
    qed
  qed
qed

section \<open>The workers and goroutines keep the invariant\<close>

lemma pods_inv_items:
  assumes "pods_inv m" "mset (items m') \<subseteq># mset (items m)" "set (p_watchers m') \<subseteq> set (p_watchers m)"
    and "p_nextState m' = p_nextState m" "p_nextPod m' = p_nextPod m"
    and "\<And>p. ps_pendingCount (p_pods m' p) = ps_pendingCount (p_pods m p)"
  shows "pods_inv m'"
  using assms set_mset_submset [OF assms(2)] distinct_map_submset [OF assms(2), of wi_podState]
  unfolding pods_inv_def assms(4-6) by blast

text \<open>A step that only moves or drops work items and goroutines.\<close>

lemma move_inv:
  assumes "prober_inv m" "mset (items m') \<subseteq># mset (items m)" "set (p_watchers m') \<subseteq> set (p_watchers m)"
    and "p_targetStates m' = p_targetStates m" "p_states m' = p_states m" "p_nextState m' = p_nextState m"
    and "p_nextPod m' = p_nextPod m" "\<And>p. ps_pendingCount (p_pods m' p) = ps_pendingCount (p_pods m p)"
    and "p_calls m' = p_calls m" "p_responses m' = p_responses m"
  shows "prober_inv m' \<and> evolves m m'"
proof -
  have "pods_inv m'" using assms pods_inv_items [of m m'] by (simp add: prober_inv_def)
  moreover have "states_inv m'" "calls_inv m'"
    using assms by (simp_all add: prober_inv_def states_inv_def calls_inv_def)
  ultimately show ?thesis using assms(5,6) by (simp add: prober_inv_def evolves_same)
qed

lemma take_item_spec:
  assumes "prober_inv m" "i < length (p_workQueue m)"
  shows "prober_inv (take_item i m) \<and> evolves m (take_item i m)"
proof (rule move_inv [OF assms(1)])
  show "mset (items (take_item i m)) \<subseteq># mset (items m)"
    using mset_remove_nth [OF assms(2)] by (simp add: items_def take_item_def)
qed (simp_all add: take_item_def)

lemma decide_item_spec:
  assumes "prober_inv m" "i < length (p_answered m)"
  shows "prober_inv (decide_item i m) \<and> evolves m (decide_item i m)"
proof (rule move_inv [OF assms(1)])
  obtain item ok where a: "p_answered m ! i = (item, ok)" by fastforce
  let ?rest = "take i (p_answered m) @ drop (Suc i) (p_answered m)"
  have "mset (map fst (p_answered m)) = add_mset item (mset (map fst ?rest))"
    using mset_remove_nth [OF assms(2)] by (simp add: a)
  then show "mset (items (decide_item i m)) \<subseteq># mset (items m)"
    by (simp add: items_def decide_item_def a Let_def subset_mset.add_increasing)
qed (simp_all add: decide_item_def Let_def split: prod.splits)

lemma run_joiner_spec:
  assumes "prober_inv m"
  shows "prober_inv (run_joiner i m) \<and> evolves m (run_joiner i m)"
  by (rule move_inv [OF assms]) (simp_all add: run_joiner_def Let_def items_def upd_pod_def split: prod.splits)

subsection \<open>Responses\<close>

definition response_partitions :: "probe_response \<Rightarrow> uid \<Rightarrow> int set" where
  "response_partitions resp u =
     (case resp of
        HttpResponse code (Some body) \<Rightarrow>
          (if code = 200 then (case body u of Some ps \<Rightarrow> set ps | None \<Rightarrow> {}) else {})
      | _ \<Rightarrow> {})"

lemma reported_snoc:
  "reported (rs @ [(s, resp)]) s' u = reported rs s' u \<union> (if s' = s then response_partitions resp u else {})"
  by (auto simp: reported_def response_partitions_def split: probe_response.splits option.splits if_splits)

lemma prober_Do_state:
  "fst (prober_Do item resp m) =
     upd_state (wi_targetStates item)
       (\<lambda>st. st\<lparr>ts_readyPartitions := ts_readyPartitions st \<union> response_partitions resp (ss_UID (ts_sub st))\<rparr>) m"
  by (auto simp: prober_Do_def probeVerifier_def response_partitions_def upd_state_def
      split: probe_response.splits option.splits)

lemma card_le_of_subset: "x \<le> int (card A) \<Longrightarrow> A \<subseteq> B \<Longrightarrow> finite B \<Longrightarrow> x \<le> int (card B)"
  by (metis card_mono of_nat_mono order_trans)

lemma answer_item_spec:
  assumes inv: "prober_inv m" and i: "i < length (p_probing m)"
  shows "prober_inv (answer_item i resp m) \<and> evolves m (answer_item i resp m)"
proof -
  let ?item = "p_probing m ! i" and ?m = "answer_item i resp m"
  let ?s = "wi_targetStates ?item"
  let ?f = "\<lambda>st. st\<lparr>ts_readyPartitions := ts_readyPartitions st \<union> response_partitions resp (ss_UID (ts_sub st))\<rparr>"
  obtain ok err where d: "prober_Do ?item resp m = (upd_state ?s ?f m, ok, err)"
    using prober_Do_state [of ?item resp m] by (metis prod.collapse)
  have eq: "?m = (upd_state ?s ?f m)
      \<lparr>p_probing := take i (p_probing m) @ drop (Suc i) (p_probing m),
       p_answered := p_answered m @ [(?item, err = None \<and> ok)], p_responses := p_responses m @ [(?s, resp)]\<rparr>"
    by (simp add: answer_item_def d Let_def upd_state_def)
  have s: "?s < p_nextState m"
    using inv i by (auto simp: prober_inv_def pods_inv_def items_def)
  have wf: "state_wf (p_responses m @ [(?s, resp)]) s' (((p_states m)(?s := ?f (p_states m ?s))) s')"
    if "state_wf (p_responses m) s' (p_states m s')" for s'
  proof (cases "s' = ?s")
    case False
    with that show ?thesis by (auto simp: state_wf_def reported_snoc)
  next
    case True
    let ?st = "p_states m ?s"
    let ?new = "reported (p_responses m @ [(?s, resp)]) ?s (ss_UID (ts_sub ?st))"
    from that True have rp: "ts_readyPartitions ?st = reported (p_responses m) ?s (ss_UID (ts_sub ?st))"
      and rd: "ts_ready ?st \<Longrightarrow> sint (sp_NumPartitions (kc_Spec (ts_ch ?st))) \<le> int (card (ts_readyPartitions ?st))"
      by (auto simp: state_wf_def)
    have "ts_readyPartitions (?f ?st) = ?new" by (simp add: rp reported_snoc)
    moreover have "sint (sp_NumPartitions (kc_Spec (ts_ch ?st))) \<le> int (card ?new)" if "ts_ready ?st"
      using rd [OF that] reported_mono finite_reported unfolding rp by (rule card_le_of_subset)
    ultimately show ?thesis using True by (simp add: state_wf_def)
  qed
  have "states_inv ?m"
    using inv wf s unfolding eq by (auto simp: prober_inv_def states_inv_def upd_state_def)
  moreover have "pods_inv ?m"
  proof (rule pods_inv_items)
    show "pods_inv m" using inv by (simp add: prober_inv_def)
    show "mset (items ?m) \<subseteq># mset (items m)"
      using mset_remove_nth [OF i] by (simp add: items_def eq upd_state_def)
  qed (simp_all add: eq upd_state_def)
  moreover have "calls_inv ?m" using inv by (auto simp: prober_inv_def calls_inv_def eq upd_state_def)
  moreover have "evolves m ?m" by (simp add: evolves_def eq upd_state_def state_le_def)
  ultimately show ?thesis by (simp add: prober_inv_def)
qed

subsection \<open>Successes and cancellations\<close>

lemma upd_pod_inv:
  assumes "prober_inv m" "ps_pendingCount (f (p_pods m p)) \<in> {0, -1}"
    and "ps_pendingCount (f (p_pods m p)) = -1 \<longrightarrow> p \<notin> wi_podState ` set (items m)"
  shows "prober_inv (upd_pod p f m)"
proof -
  have it: "items (upd_pod p f m) = items m" by (simp add: items_def upd_pod_def)
  have "pods_inv (upd_pod p f m)"
    using assms unfolding prober_inv_def pods_inv_def it by (auto simp: upd_pod_def)
  moreover have "states_inv (upd_pod p f m)"
    using assms by (simp add: prober_inv_def states_inv_def upd_pod_def)
  moreover have "calls_inv (upd_pod p f m)"
    using assms by (auto simp: prober_inv_def calls_inv_def upd_pod_def)
  ultimately show ?thesis by (simp add: prober_inv_def)
qed

lemma upd_pod_evolves: "evolves m (upd_pod p f m)"
  by (simp add: evolves_same upd_pod_def)

lemma call_ready_inv:
  assumes "prober_inv m" "s < p_nextState m" "ts_ready (p_states m s)" "p < p_nextPod m"
    and "ps_pendingCount (p_pods m p) \<noteq> 1" "p \<notin> rc_pod ` set (p_calls m)"
  shows "prober_inv (call_ready s p m)"
  using assms by (auto simp: prober_inv_def states_inv_def pods_inv_def calls_inv_def call_ready_def items_def)

lemma call_ready_evolves: "evolves m (call_ready s p m)"
  by (simp add: evolves_same call_ready_def)

lemma not_called:
  "prober_inv m \<Longrightarrow> ps_pendingCount (p_pods m p) = 1 \<Longrightarrow> p \<notin> rc_pod ` set (p_calls m)"
  by (auto simp: prober_inv_def calls_inv_def)

lemma onProbingSuccess_spec:
  assumes inv: "prober_inv m" and s: "s < p_nextState m" and p: "p < p_nextPod m"
    and gone: "p \<notin> wi_podState ` set (items m)" and pend: "ps_pendingCount (p_pods m p) \<noteq> -1"
  shows "prober_inv (onProbingSuccess s p m) \<and> evolves m (onProbingSuccess s p m)"
proof -
  let ?m1 = "upd_pod p (\<lambda>pod. pod\<lparr>ps_pendingCount := ps_pendingCount pod - 1\<rparr>) m"
  let ?m2 = "upd_pod p (\<lambda>pod. pod\<lparr>ps_cancelled := True\<rparr>) ?m1"
  let ?m3 = "upd_state s state_check ?m2"
  let ?m4 = "upd_state s (\<lambda>state. state\<lparr>ts_done := True\<rparr>) ?m3"
  have range: "ps_pendingCount (p_pods m p) \<in> {1, 0}"
    using inv p pend by (auto simp: prober_inv_def pods_inv_def)
  have i1: "prober_inv ?m1" by (rule upd_pod_inv [OF inv]) (use range gone in auto)
  show ?thesis
  proof (cases "ps_pendingCount (p_pods m p) = 1")
    case False
    then have "onProbingSuccess s p m = ?m1" by (simp add: onProbingSuccess_def Let_def upd_pod_def)
    then show ?thesis using i1 by (simp add: upd_pod_evolves)
  next
    case True
    have i2: "prober_inv ?m2" by (rule upd_pod_inv [OF i1]) (use True in \<open>auto simp: upd_pod_def\<close>)
    have e2: "evolves m ?m2" by (rule evolves_trans [OF upd_pod_evolves upd_pod_evolves])
    have i3: "prober_inv ?m3" and e3: "evolves m ?m3"
      using keeps_inv [OF _ i2] evolves_trans [OF e2 keeps_evolves] by auto
    have eq: "onProbingSuccess s p m = (if ts_ready (state_check (p_states m s)) then call_ready s p ?m4 else ?m3)"
      using True by (simp add: onProbingSuccess_def Let_def checkReadiness_def upd_pod_def)
    have i5: "prober_inv (call_ready s p ?m4)" if "ts_ready (state_check (p_states m s))"
    proof (rule call_ready_inv)
      show "prober_inv ?m4" using keeps_inv [OF _ i3] by simp
      show "p \<notin> rc_pod ` set (p_calls ?m4)"
        using not_called [OF inv True] by (simp add: upd_state_def upd_pod_def)
    qed (use that s p True in \<open>simp_all add: upd_state_def upd_pod_def\<close>)
    have "evolves m (call_ready s p ?m4)"
      using evolves_trans [OF e3 evolves_trans [OF keeps_evolves call_ready_evolves]] by simp
    then show ?thesis using i3 e3 i5 by (simp add: eq)
  qed
qed

lemma succeed_item_spec:
  assumes inv: "prober_inv m" and i: "i < length (p_succeeding m)"
  shows "prober_inv (succeed_item i m) \<and> evolves m (succeed_item i m)"
proof -
  let ?item = "p_succeeding m ! i"
  let ?m = "m\<lparr>p_succeeding := take i (p_succeeding m) @ drop (Suc i) (p_succeeding m)\<rparr>"
  have ms: "mset (items m) = add_mset ?item (mset (items ?m))"
    using mset_remove_nth [OF i] by (simp add: items_def)
  have im: "prober_inv ?m \<and> evolves m ?m"
    by (rule move_inv [OF inv]) (simp_all add: ms)
  have mem: "?item \<in> set (items m)" using i by (simp add: items_def)
  have "mset (map wi_podState (items m)) = mset (wi_podState ?item # map wi_podState (items ?m))"
    by (simp add: ms del: mset_map) (simp add: ms)
  then have "distinct (wi_podState ?item # map wi_podState (items ?m))"
    using inv by (metis mset_eq_imp_distinct_iff pods_inv_def prober_inv_def)
  then have gone: "wi_podState ?item \<notin> wi_podState ` set (items ?m)" by simp
  have "prober_inv (onProbingSuccess (wi_targetStates ?item) (wi_podState ?item) ?m) \<and>
      evolves ?m (onProbingSuccess (wi_targetStates ?item) (wi_podState ?item) ?m)"
    by (rule onProbingSuccess_spec [OF _ _ _ gone])
      (use im inv mem in \<open>auto simp: prober_inv_def pods_inv_def\<close>)
  then show ?thesis using im by (auto simp: succeed_item_def Let_def intro: evolves_trans)
qed

lemma onProbingCancellation_spec:
  assumes inv: "prober_inv m" and s: "s < p_nextState m" and p: "p < p_nextPod m"
  shows "prober_inv (onProbingCancellation s p m) \<and> evolves m (onProbingCancellation s p m)"
proof (cases "sint (ps_pendingCount (p_pods m p)) \<le> 0")
  case True
  then show ?thesis using inv by (simp add: onProbingCancellation_def)
next
  case False
  let ?m1 = "upd_pod p (\<lambda>pod. pod\<lparr>ps_pendingCount := 0\<rparr>) m"
  let ?m2 = "upd_state s (\<lambda>state. state\<lparr>ts_pendingCount := ts_pendingCount state - 1\<rparr>) ?m1"
  let ?m3 = "upd_state s state_check ?m2"
  have pend: "ps_pendingCount (p_pods m p) = 1"
    using inv p False by (auto simp: prober_inv_def pods_inv_def)
  have i1: "prober_inv ?m1" by (rule upd_pod_inv [OF inv]) simp_all
  have i2: "prober_inv ?m2" using keeps_inv [OF _ i1] by simp
  have i3: "prober_inv ?m3" using keeps_inv [OF _ i2] by simp
  have e2: "evolves m ?m2" using evolves_trans [OF upd_pod_evolves keeps_evolves] by simp
  have e3: "evolves m ?m3" using evolves_trans [OF e2 keeps_evolves] by simp
  have i4: "prober_inv (call_ready s p ?m3)" if "ts_ready (p_states ?m3 s)"
  proof (rule call_ready_inv [OF i3])
    show "p \<notin> rc_pod ` set (p_calls ?m3)"
      using not_called [OF inv pend] by (simp add: upd_state_def upd_pod_def)
  qed (use that s p in \<open>simp_all add: upd_state_def upd_pod_def\<close>)
  have e4: "evolves m (call_ready s p ?m3)" using evolves_trans [OF e3 call_ready_evolves] .
  have "onProbingCancellation s p m =
      (if ts_pendingCount (p_states ?m2 s) = 0
       then (if ts_ready (p_states ?m3 s) then call_ready s p ?m3 else ?m3) else ?m2)"
    using False by (simp add: onProbingCancellation_def Let_def checkReadiness_def upd_state_def split: bool.splits)
  then show ?thesis using i2 i3 i4 e2 e3 e4 by presburger
qed

lemma run_watcher_spec:
  assumes inv: "prober_inv m" and i: "i < length (p_watchers m)"
  shows "prober_inv (run_watcher i m) \<and> evolves m (run_watcher i m)"
proof -
  let ?m = "m\<lparr>p_watchers := take i (p_watchers m) @ drop (Suc i) (p_watchers m)\<rparr>"
  obtain s p where w: "p_watchers m ! i = (s, p)" by fastforce
  then have "(s, p) \<in> set (p_watchers m)" using i by (metis nth_mem)
  then have b: "s < p_nextState m" "p < p_nextPod m" using inv by (auto simp: prober_inv_def pods_inv_def)
  have sub: "set (take i (p_watchers m) @ drop (Suc i) (p_watchers m)) \<subseteq> set (p_watchers m)"
    by (auto dest: in_set_takeD in_set_dropD)
  have "prober_inv ?m \<and> evolves m ?m"
    by (rule move_inv [OF inv]) (use sub in \<open>simp_all add: items_def\<close>)
  with onProbingCancellation_spec [of ?m s p] b show ?thesis
    by (auto simp: run_watcher_def w intro: evolves_trans)
qed

section \<open>Reachable states\<close>

lemma NewProber_inv: "prober_inv (NewProber s0 p0)"
  by (simp add: NewProber_def prober_inv_def states_inv_def pods_inv_def calls_inv_def items_def)

lemma prober_step_spec: "prober_step m m' \<Longrightarrow> prober_inv m \<Longrightarrow> prober_inv m' \<and> evolves m m'"
proof (induction rule: prober_step.induct)
  case (is_ready ord lister m ch sub)
  then show ?case by (simp add: IsReady_inv IsReady_evolves)
next
  case (cancel m sub)
  then show ?case by (simp add: CancelProbing_def eject_inv eject_evolves)
next
  case (cancel_pod m ip)
  then show ?case by (simp add: CancelPodProbing_inv CancelPodProbing_evolves)
qed (simp_all add: RefreshPodProbing_spec take_item_spec answer_item_spec decide_item_spec succeed_item_spec
    run_watcher_spec run_joiner_spec)

lemma reachable_inv: "prober_reachable m \<Longrightarrow> prober_inv m"
  by (induction rule: prober_reachable.induct) (auto simp: NewProber_inv dest: prober_step_spec)

section \<open>The interface of the manager\<close>

text \<open>
  What a client of the manager may rely on: a subscription is reported ready only on evidence, and
  evidence is never lost. The evidence that the prober has for a subscription: for a channel that
  was probed for this generation of the subscription, at least as many partitions as the channel has
  were listed for it in responses with status 200.
\<close>

definition evidence :: "Prober \<Rightarrow> SubscriberSpec \<Rightarrow> bool" where
  "evidence m sub \<longleftrightarrow>
     (\<exists>s < p_nextState m. ss_UID (ts_sub (p_states m s)) = ss_UID sub \<and>
        ss_Generation (ts_sub (p_states m s)) = ss_Generation sub \<and>
        sint (sp_NumPartitions (kc_Spec (ts_ch (p_states m s)))) \<le> int (card (reported (p_responses m) s (ss_UID sub))))"

locale status_manager =
  fixes inv :: "'m \<Rightarrow> bool"
    and isReady :: "KafkaTopicChannel \<Rightarrow> SubscriberSpec \<Rightarrow> 'm \<Rightarrow> 'm \<times> (go_error + bool)"
    and backed :: "'m \<Rightarrow> SubscriberSpec \<Rightarrow> bool"
  assumes isReady_keeps: "inv m \<Longrightarrow> inv (fst (isReady ch sub m))"
    and isReady_backed: "inv m \<Longrightarrow> isReady ch sub m = (m', Inr True) \<Longrightarrow> backed m' sub"
    and backed_stable: "inv m \<Longrightarrow> backed m sub \<Longrightarrow> backed (fst (isReady ch sub' m)) sub"
begin

text \<open>Asking for a list of subscriptions, as a reconciler does; the answers in order.\<close>

fun ask_all :: "KafkaTopicChannel \<Rightarrow> SubscriberSpec list \<Rightarrow> 'm \<Rightarrow> 'm \<times> (go_error + bool) list" where
  "ask_all ch [] m = (m, [])"
| "ask_all ch (sub # subs) m =
     (case isReady ch sub m of
        (m1, r) \<Rightarrow> (case ask_all ch subs m1 of (m2, rs) \<Rightarrow> (m2, r # rs)))"

lemma ask_all_keeps: "inv m \<Longrightarrow> inv (fst (ask_all ch subs m))"
proof (induction subs arbitrary: m)
  case (Cons sub subs)
  with isReady_keeps [OF Cons.prems, of ch sub] show ?case by (simp add: case_prod_unfold)
qed simp

lemma ask_all_stable: "inv m \<Longrightarrow> backed m sub \<Longrightarrow> backed (fst (ask_all ch subs m)) sub"
proof (induction subs arbitrary: m)
  case (Cons x subs)
  with isReady_keeps [OF Cons.prems(1), of ch x] backed_stable [OF Cons.prems, of ch x]
  show ?case by (simp add: case_prod_unfold)
qed simp

lemma ask_all_backed:
  "inv m \<Longrightarrow> ask_all ch subs m = (m', rs) \<Longrightarrow>
     length rs = length subs \<and> (\<forall>i < length subs. rs ! i = Inr True \<longrightarrow> backed m' (subs ! i))"
proof (induction subs arbitrary: m rs)
  case Nil
  then show ?case by simp
next
  case (Cons sub subs)
  obtain m1 r where r: "isReady ch sub m = (m1, r)" by fastforce
  obtain m2 rs' where rs': "ask_all ch subs m1 = (m2, rs')" by fastforce
  have eq: "m' = m2" "rs = r # rs'" using Cons.prems(2) r rs' by auto
  have i1: "inv m1" using isReady_keeps [OF Cons.prems(1), of ch sub] r by simp
  have "backed m' sub" if "r = Inr True"
    using ask_all_stable [OF i1 isReady_backed [OF Cons.prems(1)], of ch sub ch subs] r rs' that eq by simp
  with Cons.IH [OF i1 rs' [folded eq(1)]] show ?case by (auto simp: eq nth_Cons split: nat.splits)
qed

end

lemma evidence_evolves:
  assumes "evolves m m'" "prober_inv m" "prober_inv m'" "evidence m sub"
  shows "evidence m' sub"
proof -
  from assms(4) obtain s where s: "s < p_nextState m" "ss_UID (ts_sub (p_states m s)) = ss_UID sub"
    "ss_Generation (ts_sub (p_states m s)) = ss_Generation sub"
    "sint (sp_NumPartitions (kc_Spec (ts_ch (p_states m s)))) \<le> int (card (reported (p_responses m) s (ss_UID sub)))"
    by (auto simp: evidence_def)
  from assms(1) s(1) have le: "state_le (p_states m s) (p_states m' s)" and s': "s < p_nextState m'"
    by (auto simp: evolves_def)
  have "reported (p_responses m) s (ss_UID sub) = ts_readyPartitions (p_states m s)"
    using assms(2) s(1,2) by (simp add: prober_inv_def states_inv_def state_wf_def)
  moreover have "reported (p_responses m') s (ss_UID sub) = ts_readyPartitions (p_states m' s)"
    using assms(3) s(2) s' le by (simp add: prober_inv_def states_inv_def state_wf_def state_le_def)
  ultimately have "reported (p_responses m) s (ss_UID sub) \<subseteq> reported (p_responses m') s (ss_UID sub)"
    using le by (simp add: state_le_def)
  from card_le_of_subset [OF s(4) this finite_reported] show ?thesis
    using s s' le by (auto simp: evidence_def state_le_def)
qed

lemma IsReady_evidence:
  assumes inv: "prober_inv m" and r: "IsReady ord lister ch sub m = (m', Inr True)"
  shows "evidence m' sub"
proof -
  from r obtain t s where s: "p_targetStates m (ss_UID sub) = Some s" "lister ch = Inr t"
    "\<not> isOutdatedTargetState (p_states m s) sub (pt_PodIPs t)" "m' = upd_state s state_check m"
    "ts_ready (p_states m' s)"
    by (auto simp: IsReady_def checkReadiness_def upd_state_def split: sum.splits option.splits if_splits)
  have inv': "prober_inv m'" using keeps_inv [OF _ inv] s(4) by simp
  have b: "s < p_nextState m'" "ss_UID (ts_sub (p_states m' s)) = ss_UID sub"
    using inv s(1,4) by (auto simp: prober_inv_def states_inv_def upd_state_def state_check_def)
  have "ss_Generation (ts_sub (p_states m' s)) = ss_Generation sub"
    using s(3,4) by (auto simp: isOutdatedTargetState_def upd_state_def state_check_def)
  moreover have "state_wf (p_responses m') s (p_states m' s)"
    using inv' b(1) by (simp add: prober_inv_def states_inv_def)
  ultimately show ?thesis using b s(5) by (auto simp: evidence_def state_wf_def)
qed

interpretation prober_manager: status_manager prober_inv "IsReady ord lister" evidence for ord lister
proof unfold_locales
  fix m ch sub
  assume "prober_inv m"
  then show "prober_inv (fst (IsReady ord lister ch sub m))" by (rule IsReady_inv)
next
  fix m ch sub m'
  assume "prober_inv m" "IsReady ord lister ch sub m = (m', Inr True)"
  then show "evidence m' sub" by (rule IsReady_evidence)
next
  fix m sub ch sub'
  assume "prober_inv m" "evidence m sub"
  then show "evidence (fst (IsReady ord lister ch sub' m)) sub"
    using evidence_evolves IsReady_evolves IsReady_inv by blast
qed

end
