(* ===== verification/Lifecycle.thy ===== *)
theory Lifecycle
  imports ApiTypes
begin

text \<open>
  The status of a channel (\<open>kafka_channel_lifecycle.go\<close>): seven conditions under the summary
  condition \<open>Ready\<close>, and the operations that mark them. The condition manager's contract is the
  locale \<open>condition_manager\<close>; the lemmas on runs of marks are proved inside it and reach the
  channel's status through its interpretation.
\<close>

section \<open>The condition set of a channel\<close>

abbreviation (input) TopicReady :: ConditionType where "TopicReady \<equiv> ''TopicReady''"
abbreviation (input) DispatcherReady :: ConditionType where "DispatcherReady \<equiv> ''DispatcherReady''"
abbreviation (input) ServiceReady :: ConditionType where "ServiceReady \<equiv> ''ServiceReady''"
abbreviation (input) EndpointsReady :: ConditionType where "EndpointsReady \<equiv> ''EndpointsReady''"
abbreviation (input) Addressable :: ConditionType where "Addressable \<equiv> ''Addressable''"
abbreviation (input) ChannelServiceReady :: ConditionType where "ChannelServiceReady \<equiv> ''ChannelServiceReady''"
abbreviation (input) ConfigReady :: ConditionType where "ConfigReady \<equiv> ''ConfigurationReady''"

definition kc_condSet :: ConditionSet where
  "kc_condSet = NewLivingConditionSet
     [TopicReady, DispatcherReady, ServiceReady, EndpointsReady, Addressable, ChannelServiceReady, ConfigReady]"

definition st_GetCondition :: "ConditionType \<Rightarrow> KafkaTopicChannelStatus \<Rightarrow> Condition option" where
  "st_GetCondition t st = GetCondition t (st_Conditions st)"

definition IsReady_status :: "KafkaTopicChannelStatus \<Rightarrow> bool" where
  "IsReady_status st = IsHappy kc_condSet (st_Conditions st)"

definition st_InitializeConditions :: "time \<Rightarrow> KafkaTopicChannelStatus \<Rightarrow> KafkaTopicChannelStatus" where
  "st_InitializeConditions now st =
     st\<lparr>st_Conditions := InitializeConditions now kc_condSet (st_Conditions st)\<rparr>"

section \<open>Marking\<close>

definition markTrue :: "time \<Rightarrow> ConditionType \<Rightarrow> KafkaTopicChannelStatus \<Rightarrow> KafkaTopicChannelStatus" where
  "markTrue now t st = st\<lparr>st_Conditions := MarkTrue now kc_condSet t (st_Conditions st)\<rparr>"

definition markFalse :: "time \<Rightarrow> ConditionType \<Rightarrow> string \<Rightarrow> string \<Rightarrow> KafkaTopicChannelStatus \<Rightarrow> KafkaTopicChannelStatus" where
  "markFalse now t reason message st =
     st\<lparr>st_Conditions := MarkFalse now kc_condSet t reason message (st_Conditions st)\<rparr>"

definition markUnknown :: "time \<Rightarrow> ConditionType \<Rightarrow> string \<Rightarrow> string \<Rightarrow> KafkaTopicChannelStatus \<Rightarrow> KafkaTopicChannelStatus" where
  "markUnknown now t reason message st =
     st\<lparr>st_Conditions := MarkUnknown now kc_condSet t reason message (st_Conditions st)\<rparr>"

text \<open>\<open>SetAddress\<close>: a nil \<open>Address\<close> is allocated first.\<close>

definition SetAddress :: "time \<Rightarrow> Url option \<Rightarrow> KafkaTopicChannelStatus \<Rightarrow> KafkaTopicChannelStatus" where
  "SetAddress now url st =
     (let st1 = (case st_Address st of None \<Rightarrow> st\<lparr>st_Address := Some None\<rparr> | Some _ \<Rightarrow> st)
      in case url of
           Some u \<Rightarrow> markTrue now Addressable (st1\<lparr>st_Address := Some (Some u)\<rparr>)
         | None \<Rightarrow> markFalse now Addressable ''EmptyURL'' ''URL is nil'' (st1\<lparr>st_Address := Some None\<rparr>))"

definition MarkDispatcherFailed where
  "MarkDispatcherFailed now reason message = markFalse now DispatcherReady reason message"

definition MarkDispatcherUnknown where
  "MarkDispatcherUnknown now reason message = markUnknown now DispatcherReady reason message"

text \<open>A condition of \<open>appsv1.DeploymentStatus\<close>.\<close>

record DeploymentCondition =
  dc_Type :: string
  dc_Status :: ConditionStatus
  dc_Reason :: string
  dc_Message :: string

fun PropagateDispatcherStatus ::
  "time \<Rightarrow> DeploymentCondition list \<Rightarrow> KafkaTopicChannelStatus \<Rightarrow> KafkaTopicChannelStatus" where
  "PropagateDispatcherStatus now [] st = st"
| "PropagateDispatcherStatus now (cond # conds) st =
     PropagateDispatcherStatus now conds
       (if dc_Type cond = ''Available'' then
          (if dc_Status cond = ConditionTrue then markTrue now DispatcherReady st
           else if dc_Status cond = ConditionFalse then
             MarkDispatcherFailed now ''DispatcherDeploymentFalse''
               (''The status of Dispatcher Deployment is False: '' @ dc_Reason cond @ '' : '' @ dc_Message cond) st
           else if dc_Status cond = ConditionUnknown then
             MarkDispatcherUnknown now ''DispatcherDeploymentUnknown''
               (''The status of Dispatcher Deployment is Unknown: '' @ dc_Reason cond @ '' : '' @ dc_Message cond) st
           else st)
        else st)"

definition MarkServiceFailed where
  "MarkServiceFailed now reason message = markFalse now ServiceReady reason message"

definition MarkServiceUnknown where
  "MarkServiceUnknown now reason message = markUnknown now ServiceReady reason message"

definition MarkServiceTrue where
  "MarkServiceTrue now = markTrue now ServiceReady"

definition MarkChannelServiceFailed where
  "MarkChannelServiceFailed now reason message = markFalse now ChannelServiceReady reason message"

definition MarkChannelServiceTrue where
  "MarkChannelServiceTrue now = markTrue now ChannelServiceReady"

definition MarkEndpointsFailed where
  "MarkEndpointsFailed now reason message = markFalse now EndpointsReady reason message"

definition MarkEndpointsTrue where
  "MarkEndpointsTrue now = markTrue now EndpointsReady"

definition MarkTopicTrue where
  "MarkTopicTrue now = markTrue now TopicReady"

definition MarkTopicFailed where
  "MarkTopicFailed now reason message = markFalse now TopicReady reason message"

definition MarkConfigTrue where
  "MarkConfigTrue now = markTrue now ConfigReady"

definition MarkConfigFailed where
  "MarkConfigFailed now reason message = markFalse now ConfigReady reason message"

lemmas lifecycle_defs =
  MarkDispatcherFailed_def MarkDispatcherUnknown_def MarkServiceFailed_def MarkServiceUnknown_def
  MarkServiceTrue_def MarkChannelServiceFailed_def MarkChannelServiceTrue_def MarkEndpointsFailed_def
  MarkEndpointsTrue_def MarkTopicTrue_def MarkTopicFailed_def MarkConfigTrue_def MarkConfigFailed_def

section \<open>The status as a machine of marks\<close>

text \<open>A call of the condition manager on one of the dependents, with the time it reads.\<close>

datatype mark =
    MTrue time ConditionType
  | MFalse time ConditionType string string
  | MUnknown time ConditionType string string

fun apply_mark :: "mark \<Rightarrow> KafkaTopicChannelStatus \<Rightarrow> KafkaTopicChannelStatus" where
  "apply_mark (MTrue now t) st = markTrue now t st"
| "apply_mark (MFalse now t r m) st = markFalse now t r m st"
| "apply_mark (MUnknown now t r m) st = markUnknown now t r m st"

fun mark_target :: "mark \<Rightarrow> ConditionType" where
  "mark_target (MTrue _ t) = t"
| "mark_target (MFalse _ t _ _) = t"
| "mark_target (MUnknown _ t _ _) = t"

fun mark_result :: "mark \<Rightarrow> ConditionStatus" where
  "mark_result (MTrue _ _) = ConditionTrue"
| "mark_result (MFalse _ _ _ _) = ConditionFalse"
| "mark_result (MUnknown _ _ _ _) = ConditionUnknown"

definition kc_dependents :: "ConditionType set" where
  "kc_dependents = {TopicReady, DispatcherReady, ServiceReady, EndpointsReady, Addressable, ChannelServiceReady, ConfigReady}"

definition status_wf :: "KafkaTopicChannelStatus \<Rightarrow> bool" where
  "status_wf st \<longleftrightarrow> cond_wf kc_condSet (st_Conditions st)"

definition dep_status :: "KafkaTopicChannelStatus \<Rightarrow> ConditionType \<Rightarrow> ConditionStatus" where
  "dep_status st t = status_of (st_Conditions st) t"

definition ready_agrees :: "KafkaTopicChannelStatus \<Rightarrow> bool" where
  "ready_agrees st \<longleftrightarrow> (IsReady_status st \<longleftrightarrow> (\<forall>t \<in> kc_dependents. dep_status st t = ConditionTrue))"

text \<open>The status a run of marks leaves a condition in: that of its last mark, if it has one.\<close>

fun last_mark :: "mark list \<Rightarrow> ConditionType \<Rightarrow> ConditionStatus \<Rightarrow> ConditionStatus" where
  "last_mark [] t s = s"
| "last_mark (m # ms) t s = last_mark ms t (if mark_target m = t then mark_result m else s)"

text \<open>The worst of several statuses: False before Unknown before True.\<close>

definition worst :: "ConditionStatus set \<Rightarrow> ConditionStatus" where
  "worst ss = (if ConditionFalse \<in> ss then ConditionFalse else if ConditionUnknown \<in> ss then ConditionUnknown else ConditionTrue)"

text \<open>The contract of a status kept by marks: what a client may rely on.\<close>

locale condition_manager =
  fixes deps :: "ConditionType set"
    and inv :: "'s \<Rightarrow> bool"
    and status :: "'s \<Rightarrow> ConditionType \<Rightarrow> ConditionStatus"
    and ready :: "'s \<Rightarrow> bool"
    and overall :: "'s \<Rightarrow> ConditionStatus"
    and mark :: "mark \<Rightarrow> 's \<Rightarrow> 's"
  assumes mark_inv: "inv s \<Longrightarrow> mark_target m \<in> deps \<Longrightarrow> inv (mark m s)"
    and mark_status: "inv s \<Longrightarrow> mark_target m \<in> deps \<Longrightarrow> d \<in> deps \<Longrightarrow>
          status (mark m s) d = (if d = mark_target m then mark_result m else status s d)"
    and mark_ready: "inv s \<Longrightarrow> mark_target m \<in> deps \<Longrightarrow>
          ready (mark m s) \<longleftrightarrow> (\<forall>d \<in> deps. status (mark m s) d = ConditionTrue)"
    and mark_overall: "inv s \<Longrightarrow> mark_target m \<in> deps \<Longrightarrow> overall (mark m s) = worst (status (mark m s) ` deps)"
begin

lemma run_inv: "inv s \<Longrightarrow> \<forall>m \<in> set ms. mark_target m \<in> deps \<Longrightarrow> inv (fold mark ms s)"
  by (induction ms arbitrary: s) (auto intro: mark_inv)

lemma run_status:
  "inv s \<Longrightarrow> \<forall>m \<in> set ms. mark_target m \<in> deps \<Longrightarrow> d \<in> deps \<Longrightarrow>
   status (fold mark ms s) d = last_mark ms d (status s d)"
  by (induction ms arbitrary: s) (auto simp: mark_status mark_inv)

lemma run_ready:
  assumes "inv s" and "\<forall>m \<in> set ms. mark_target m \<in> deps" and "ms \<noteq> []"
  shows "ready (fold mark ms s) \<longleftrightarrow> (\<forall>d \<in> deps. last_mark ms d (status s d) = ConditionTrue)"
proof -
  obtain ms' m where ms: "ms = ms' @ [m]" using assms(3) by (metis append_butlast_last_id)
  with assms have "inv (fold mark ms' s)" "mark_target m \<in> deps" by (auto intro: run_inv)
  from mark_ready [OF this] have "ready (fold mark ms s) \<longleftrightarrow> (\<forall>d \<in> deps. status (fold mark ms s) d = ConditionTrue)"
    by (simp add: ms)
  with run_status [OF assms(1,2)] show ?thesis by simp
qed

lemma run_overall:
  assumes "inv s" and "\<forall>m \<in> set ms. mark_target m \<in> deps" and "ms \<noteq> []"
  shows "overall (fold mark ms s) = worst (status (fold mark ms s) ` deps)"
proof -
  obtain ms' m where ms: "ms = ms' @ [m]" using assms(3) by (metis append_butlast_last_id)
  with assms have "inv (fold mark ms' s)" "mark_target m \<in> deps" by (auto intro: run_inv)
  from mark_overall [OF this] show ?thesis by (simp add: ms)
qed

text \<open>A condition that a run marks as not True and does not mark again keeps the status from ready.\<close>

lemma run_failure_not_ready:
  assumes "inv s" and "\<forall>m \<in> set ms. mark_target m \<in> deps"
    and "ms = ms1 @ m # ms2" and "mark_result m \<noteq> ConditionTrue"
    and "\<forall>m' \<in> set ms2. mark_target m' \<noteq> mark_target m"
  shows "\<not> ready (fold mark ms s)"
proof -
  have keep: "last_mark ms2 t u = u" if "\<forall>m' \<in> set ms2. mark_target m' \<noteq> t" for t u
    using that by (induction ms2) auto
  have "last_mark (ms1 @ m # ms2) (mark_target m) u = mark_result m" for u
    using assms(5) by (induction ms1 arbitrary: u) (auto simp: keep)
  moreover have "ms \<noteq> []" "mark_target m \<in> deps" using assms(2,3) by auto
  ultimately show ?thesis
    using run_ready [OF assms(1,2)] assms(3,4) by metis
qed

end

lemma kc_condSet_eq:
  "kc_condSet = \<lparr>cs_happy = ConditionReady, cs_dependents =
     [TopicReady, DispatcherReady, ServiceReady, EndpointsReady, Addressable, ChannelServiceReady, ConfigReady]\<rparr>"
  by (simp add: kc_condSet_def NewLivingConditionSet_def newConditionSet_def)

lemma kc_condSet_wf [simp]: "cs_wf kc_condSet"
  by (simp add: kc_condSet_def NewLivingConditionSet_def newConditionSet_wf)

lemma kc_condSet_deps [simp]: "set (cs_dependents kc_condSet) = kc_dependents"
  by (simp add: kc_condSet_eq kc_dependents_def)

lemma aggregate_worst: "aggregate ss = worst (set ss)"
  by (simp add: aggregate_def worst_def)

lemma apply_mark_marks:
  "status_wf st \<Longrightarrow> mark_target m \<in> kc_dependents \<Longrightarrow>
   marks kc_condSet (mark_target m) (mark_result m) (st_Conditions st) (st_Conditions (apply_mark m st))"
  by (cases m) (auto simp: status_wf_def markTrue_def markFalse_def markUnknown_def
      intro!: MarkTrue_marks MarkFalse_marks MarkUnknown_marks)

interpretation kc_status: condition_manager kc_dependents status_wf dep_status IsReady_status "\<lambda>st. dep_status st ConditionReady" apply_mark
proof
  fix st m
  assume wf: "status_wf st" and t: "mark_target m \<in> kc_dependents"
  note mk = apply_mark_marks [OF wf t]
  from mk show wf': "status_wf (apply_mark m st)" by (simp add: marks_def status_wf_def)
  from mk show "dep_status (apply_mark m st) d = (if d = mark_target m then mark_result m else dep_status st d)"
    if "d \<in> kc_dependents" for d
    using that by (simp add: marks_def dep_status_def)
  from mk show "IsReady_status (apply_mark m st) \<longleftrightarrow> (\<forall>d \<in> kc_dependents. dep_status (apply_mark m st) d = ConditionTrue)"
    by (simp add: marks_def IsReady_status_def IsHappy_iff dep_status_def)
  have "happy_agrees kc_condSet (st_Conditions (apply_mark m st))" using mk by (simp add: marks_def)
  moreover have "cs_happy kc_condSet = ConditionReady" by (simp add: kc_condSet_eq)
  ultimately show "dep_status (apply_mark m st) ConditionReady = worst (dep_status (apply_mark m st) ` kc_dependents)"
    by (simp only: happy_agrees_def aggregate_worst set_map kc_condSet_deps dep_status_def [abs_def])
qed

text \<open>Nothing but the conditions changes.\<close>

lemma apply_mark_frame:
  "st_Address (apply_mark m st) = st_Address st" "st_Subscribers (apply_mark m st) = st_Subscribers st"
  "st_ObservedGeneration (apply_mark m st) = st_ObservedGeneration st"
  "st_Annotations (apply_mark m st) = st_Annotations st"
  by (cases m; simp add: markTrue_def markFalse_def markUnknown_def)+

lemma run_marks_frame:
  "st_Address (fold apply_mark ms st) = st_Address st"
  "st_Subscribers (fold apply_mark ms st) = st_Subscribers st"
  "st_ObservedGeneration (fold apply_mark ms st) = st_ObservedGeneration st"
  by (induction ms arbitrary: st) (simp_all add: apply_mark_frame)

section \<open>The dispatcher's deployment\<close>

fun propagate_marks :: "time \<Rightarrow> DeploymentCondition list \<Rightarrow> mark list" where
  "propagate_marks now [] = []"
| "propagate_marks now (c # cs) =
     (if dc_Type c = ''Available'' \<and> dc_Status c = ConditionTrue then [MTrue now DispatcherReady]
      else if dc_Type c = ''Available'' \<and> dc_Status c = ConditionFalse
      then [MFalse now DispatcherReady ''DispatcherDeploymentFalse''
              (''The status of Dispatcher Deployment is False: '' @ dc_Reason c @ '' : '' @ dc_Message c)]
      else if dc_Type c = ''Available'' \<and> dc_Status c = ConditionUnknown
      then [MUnknown now DispatcherReady ''DispatcherDeploymentUnknown''
              (''The status of Dispatcher Deployment is Unknown: '' @ dc_Reason c @ '' : '' @ dc_Message c)]
      else []) @ propagate_marks now cs"

lemma PropagateDispatcherStatus_marks:
  "PropagateDispatcherStatus now conds st = fold apply_mark (propagate_marks now conds) st"
  by (induction conds arbitrary: st) (auto simp: lifecycle_defs)

lemma propagate_marks_target: "m \<in> set (propagate_marks now conds) \<Longrightarrow> mark_target m = DispatcherReady"
  by (induction conds) (auto split: if_splits)

text \<open>The status of the last \<open>Available\<close> condition with one of the three defined values.\<close>

definition available_status :: "DeploymentCondition list \<Rightarrow> ConditionStatus option" where
  "available_status conds =
     map_option dc_Status (find (\<lambda>c. dc_Type c = ''Available'' \<and> valid_status (dc_Status c)) (rev conds))"

lemma last_mark_propagate:
  "last_mark (propagate_marks now conds) DispatcherReady s =
     (case available_status conds of None \<Rightarrow> s | Some s' \<Rightarrow> s')"
proof (induction conds arbitrary: s)
  case Nil
  then show ?case by (simp add: available_status_def)
next
  case (Cons c conds)
  then show ?case
    by (auto simp: available_status_def find_append valid_status_def split: option.splits)
qed

section \<open>Main properties\<close>

text \<open>
  C13: Start from an initialised status and call any sequence of the marking operations on the seven
  conditions: the status stays well-formed, every condition has the status of its last mark, and the
  Ready condition is the aggregate of the seven: False if one of them is False, otherwise Unknown if one of
  them is Unknown, otherwise True. The channel is Ready exactly when all seven are True.
\<close>

theorem run_of_marks:
  assumes "status_wf st" and "\<forall>m \<in> set ms. mark_target m \<in> kc_dependents" and "ms \<noteq> []"
  shows "status_wf (fold apply_mark ms st) \<and>
         (\<forall>d \<in> kc_dependents. dep_status (fold apply_mark ms st) d = last_mark ms d (dep_status st d)) \<and>
         dep_status (fold apply_mark ms st) ConditionReady =
           (if \<exists>d \<in> kc_dependents. dep_status (fold apply_mark ms st) d = ConditionFalse then ConditionFalse
            else if \<exists>d \<in> kc_dependents. dep_status (fold apply_mark ms st) d = ConditionUnknown then ConditionUnknown
            else ConditionTrue) \<and>
         (IsReady_status (fold apply_mark ms st) \<longleftrightarrow>
            (\<forall>d \<in> kc_dependents. dep_status (fold apply_mark ms st) d = ConditionTrue))"
proof -
  have "c \<in> f ` D \<longleftrightarrow> (\<exists>d \<in> D. f d = c)" for c :: ConditionStatus and f and D :: "ConditionType set" by auto
  with kc_status.run_overall [OF assms]
  have "dep_status (fold apply_mark ms st) ConditionReady =
      (if \<exists>d \<in> kc_dependents. dep_status (fold apply_mark ms st) d = ConditionFalse then ConditionFalse
       else if \<exists>d \<in> kc_dependents. dep_status (fold apply_mark ms st) d = ConditionUnknown then ConditionUnknown
       else ConditionTrue)" by (simp only: worst_def)
  moreover have "IsReady_status (fold apply_mark ms st) \<longleftrightarrow> (\<forall>d \<in> kc_dependents. dep_status (fold apply_mark ms st) d = ConditionTrue)"
    using kc_status.run_status [OF assms(1,2)] kc_status.run_ready [OF assms] by simp
  ultimately show ?thesis using kc_status.run_inv [OF assms(1,2)] kc_status.run_status [OF assms(1,2)] by blast
qed

definition sample_initial_status :: KafkaTopicChannelStatus where
  "sample_initial_status = st_InitializeConditions 0 sample_status"

lemma sample_initial_status_wf: "status_wf sample_initial_status"
  using InitializeConditions_spec(1) [OF kc_condSet_wf, of "[]" 0]
  by (simp add: status_wf_def sample_initial_status_def st_InitializeConditions_def sample_status_def cond_partial_def)

theorem run_of_marks_witness:
  "dep_status (fold apply_mark [MTrue 1 TopicReady, MFalse 2 DispatcherReady ''r'' ''m'', MUnknown 3 ServiceReady ''r'' ''m''] sample_initial_status)
     ConditionReady = ConditionFalse"
proof -
  let ?f = "[MTrue 1 TopicReady, MFalse 2 DispatcherReady ''r'' ''m'', MUnknown 3 ServiceReady ''r'' ''m'']"
  have t: "\<forall>m \<in> set ?f. mark_target m \<in> kc_dependents" and d: "DispatcherReady \<in> kc_dependents" by (simp_all add: kc_dependents_def)
  note run = run_of_marks [OF sample_initial_status_wf t list.distinct(2)]
  have "dep_status (fold apply_mark ?f sample_initial_status) DispatcherReady = last_mark ?f DispatcherReady (dep_status sample_initial_status DispatcherReady)"
    using run d by blast
  also have "\<dots> = ConditionFalse" by simp
  finally have "\<exists>d \<in> kc_dependents. dep_status (fold apply_mark ?f sample_initial_status) d = ConditionFalse" using d by blast
  then show ?thesis using run by presburger
qed

text \<open>
  One failed or unknown condition is enough: if a run of marks ends with a condition marked False
  or Unknown and not marked again, the channel is not Ready, whatever else was marked True.
\<close>

lemma failure_not_ready:
  assumes "status_wf st" and "\<forall>m \<in> set (ms1 @ m # ms2). mark_target m \<in> kc_dependents"
    and "mark_result m \<noteq> ConditionTrue" and "\<forall>m' \<in> set ms2. mark_target m' \<noteq> mark_target m"
  shows "\<not> IsReady_status (fold apply_mark (ms1 @ m # ms2) st)"
  by (rule kc_status.run_failure_not_ready [OF assms(1,2) refl assms(3,4)])

text \<open>
  C36: \<open>InitializeConditions\<close> on any part of the condition set completes it: the result is well-formed,
  conditions that were there keep their status, new ones are Unknown (True under a Ready that was
  True), and a second call changes nothing.
\<close>

theorem initialize_conditions:
  assumes "cond_partial kc_condSet (st_Conditions st)"
  shows "status_wf (st_InitializeConditions now st) \<and>
         (\<forall>t \<in> c_Type ` set (st_Conditions st). dep_status (st_InitializeConditions now st) t = dep_status st t) \<and>
         (\<forall>t \<in> kc_dependents - c_Type ` set (st_Conditions st).
            dep_status (st_InitializeConditions now st) t =
              (if IsReady_status st then ConditionTrue else ConditionUnknown)) \<and>
         st_InitializeConditions later (st_InitializeConditions now st) = st_InitializeConditions now st"
proof -
  note sp = InitializeConditions_spec [OF kc_condSet_wf assms, of now]
  have happy: "IsReady_status st \<longleftrightarrow> status_of (st_Conditions st) (cs_happy kc_condSet) = ConditionTrue"
    by (auto simp: IsReady_status_def IsHappy_def status_of_def IsTrue_def split: option.splits)
  have "cs_happy kc_condSet \<notin> kc_dependents" by (simp add: kc_condSet_eq kc_dependents_def)
  then have fresh: "dep_status (st_InitializeConditions now st) t =
      (if IsReady_status st then ConditionTrue else ConditionUnknown)"
    if "t \<in> kc_dependents - c_Type ` set (st_Conditions st)" for t
    using that sp(2) [of t] by (auto simp: dep_status_def st_InitializeConditions_def happy)
  have "InitializeConditions later kc_condSet (InitializeConditions now kc_condSet (st_Conditions st)) =
      InitializeConditions now kc_condSet (st_Conditions st)"
    by (rule InitializeConditions_idle [OF sp(1)])
  with fresh sp show ?thesis
    by (simp add: status_wf_def dep_status_def st_InitializeConditions_def)
qed

theorem initialize_conditions_witness:
  "status_wf (st_InitializeConditions 5 sample_status) \<and>
   dep_status (st_InitializeConditions 5 sample_status) TopicReady = ConditionUnknown"
proof -
  have p: "cond_partial kc_condSet (st_Conditions sample_status)"
    by (simp add: cond_partial_def sample_status_def)
  have "TopicReady \<in> kc_dependents - c_Type ` set (st_Conditions sample_status)" "\<not> IsReady_status sample_status"
    by (simp_all add: kc_dependents_def sample_status_def IsReady_status_def IsHappy_def GetCondition_def IsTrue_def)
  with initialize_conditions [OF p, of 5] show ?thesis by metis
qed

text \<open>
  \<open>PropagateDispatcherStatus\<close> copies the health of the dispatcher's deployment: the condition
  DispatcherReady takes the status of the last \<open>Available\<close> condition of the deployment, stays as it
  was when there is none, and no other condition changes.
\<close>

lemma propagate_dispatcher_status:
  assumes "status_wf st"
  shows "status_wf (PropagateDispatcherStatus now conds st) \<and>
         dep_status (PropagateDispatcherStatus now conds st) DispatcherReady =
           (case available_status conds of None \<Rightarrow> dep_status st DispatcherReady | Some s \<Rightarrow> s) \<and>
         (\<forall>t \<in> kc_dependents - {DispatcherReady}.
            dep_status (PropagateDispatcherStatus now conds st) t = dep_status st t)"
proof -
  let ?ms = "propagate_marks now conds"
  have t: "\<forall>m \<in> set ?ms. mark_target m \<in> kc_dependents"
    by (auto simp: kc_dependents_def dest: propagate_marks_target)
  have d: "DispatcherReady \<in> kc_dependents" by (simp add: kc_dependents_def)
  have keep: "last_mark ms x u = u" if "\<forall>m \<in> set ms. mark_target m \<noteq> x" for ms x u
    using that by (induction ms) auto
  have "last_mark ?ms x u = u" if "x \<noteq> DispatcherReady" for x u
    by (rule keep) (use that in \<open>auto dest: propagate_marks_target\<close>)
  then show ?thesis
    using kc_status.run_inv [OF assms t] kc_status.run_status [OF assms t] d
    by (simp add: PropagateDispatcherStatus_marks last_mark_propagate)
qed

section \<open>Ready reset to unknown\<close>

lemma markUnknown_Ready:
  assumes "status_wf st"
  shows "status_wf (markUnknown now ConditionReady r m st)" and "\<not> IsReady_status (markUnknown now ConditionReady r m st)"
proof -
  have happy: "cs_happy kc_condSet = ConditionReady" by (simp add: kc_condSet_eq)
  note m = MarkUnknown_happy [OF kc_condSet_wf assms [unfolded status_wf_def], of now r m, unfolded happy]
  show "status_wf (markUnknown now ConditionReady r m st)" using m(1) by (simp add: status_wf_def markUnknown_def)
  show "\<not> IsReady_status (markUnknown now ConditionReady r m st)"
    using m(2) by (simp add: IsReady_status_def IsHappy_def IsTrue_status_of happy markUnknown_def)
qed

end
