(* ===== verification/Resources.thy ===== *)
theory Resources
  imports Lifecycle
begin

text \<open>
  The Kubernetes objects that the controller creates for a channel (\<open>controller/resources\<close>), the
  search for a container (\<open>utils/util.go\<close>), and the configuration that the dispatcher process reads
  back from its environment (\<open>utils/client.go\<close>). Fields the program does not set or read are left
  out.
\<close>

section \<open>Objects\<close>

datatype EnvSource = SecretRef SecretKeySelector | FieldRef string

record EnvVar =
  ev_Name :: string
  ev_Value :: string
  ev_ValueFrom :: "EnvSource option"

record Container =
  ct_Name :: string
  ct_Image :: string
  ct_Env :: "EnvVar list"
  ct_Ports :: "(string \<times> int) list"

record Deployment =
  dp_TypeMeta :: "string \<times> string"
  dp_Meta :: ObjectMeta
  dp_Replicas :: int32
  dp_Selector :: "string \<rightharpoonup> string"
  dp_PodLabels :: "string \<rightharpoonup> string"
  dp_PodAnnotations :: "string \<rightharpoonup> string"
  dp_ServiceAccountName :: string
  dp_Containers :: "Container list"
  dp_Conditions :: "DeploymentCondition list"

record ServicePort =
  sv_PortName :: string
  sv_Protocol :: string
  sv_Port :: int
  sv_TargetPort :: int

record ServiceSpec =
  ssp_Type :: string
  ssp_ExternalName :: string
  ssp_Selector :: "string \<rightharpoonup> string"
  ssp_Ports :: "ServicePort list"

record Service =
  sv_TypeMeta :: "string \<times> string"
  sv_Meta :: ObjectMeta
  sv_Spec :: ServiceSpec

record ServiceAccount =
  sa_Meta :: ObjectMeta

record RoleBinding =
  rb_Meta :: ObjectMeta
  rb_RoleRef :: "string \<times> string \<times> string"
  rb_Subjects :: "(string \<times> string \<times> string) list"

record DispatcherArgs =
  da_DispatcherScope :: string
  da_DispatcherNamespace :: string
  da_Image :: string
  da_Replicas :: int32
  da_ServiceAccount :: string
  da_ConfigMapHash :: string
  da_Channel :: KafkaTopicChannel

section \<open>The dispatcher deployment\<close>

definition DispatcherContainerName :: string where
  "DispatcherContainerName = ''dispatcher''"

definition dispatcherLabels :: "string \<rightharpoonup> string" where
  "dispatcherLabels =
     [''messaging.optum.dev/channel'' \<mapsto> ''kafka-topic-channel'', ''messaging.optum.dev/role'' \<mapsto> ''dispatcher'']"

definition value_env :: "string \<Rightarrow> string \<Rightarrow> EnvVar" where
  "value_env name v = \<lparr>ev_Name = name, ev_Value = v, ev_ValueFrom = None\<rparr>"

definition appendEnvFromSecretKeyRef :: "EnvVar list \<Rightarrow> string \<Rightarrow> SecretKeySelector option \<Rightarrow> EnvVar list" where
  "appendEnvFromSecretKeyRef env key ref =
     (case ref of
        None \<Rightarrow> env
      | Some r \<Rightarrow> env @ [\<lparr>ev_Name = key, ev_Value = '''', ev_ValueFrom = Some (SecretRef r)\<rparr>])"

definition makeEnv :: "DispatcherArgs \<Rightarrow> EnvVar list" where
  "makeEnv args =
     (let spec = kc_Spec (da_Channel args);
          env0 = [value_env ''KAFKA_BOOTSTRAP_SERVERS'' (go_join '','' (sp_BootstrapServers spec)),
                  value_env ''KAFKA_TOPIC'' (sp_Topic spec),
                  value_env ''CHANNEL_NAME'' (kc_Name (da_Channel args)),
                  value_env ''KAFKA_NET_SASL_ENABLE'' (format_bool (sasl_Enable (sp_SASL spec))),
                  value_env ''KAFKA_NET_TLS_ENABLE'' (format_bool (tls_Enable (sp_TLS spec))),
                  value_env ''SYSTEM_NAMESPACE'' (kc_Namespace (da_Channel args)),
                  value_env ''METRICS_DOMAIN'' ''knative.dev/eventing'',
                  value_env ''CONFIG_LOGGING_NAME'' ''config-logging'',
                  value_env ''CONFIG_LEADERELECTION_NAME'' ''config-leader-election''];
          env1 = appendEnvFromSecretKeyRef env0 ''KAFKA_NET_SASL_USER'' (sasl_User (sp_SASL spec));
          env2 = appendEnvFromSecretKeyRef env1 ''KAFKA_NET_SASL_PASSWORD'' (sasl_Password (sp_SASL spec));
          env3 = appendEnvFromSecretKeyRef env2 ''KAFKA_NET_SASL_TYPE'' (sasl_Type (sp_SASL spec));
          env4 = appendEnvFromSecretKeyRef env3 ''KAFKA_NET_TLS_CERT'' (tls_Cert (sp_TLS spec));
          env5 = appendEnvFromSecretKeyRef env4 ''KAFKA_NET_TLS_KEY'' (tls_Key (sp_TLS spec));
          env6 = appendEnvFromSecretKeyRef env5 ''KAFKA_NET_TLS_CA_CERT'' (tls_CACert (sp_TLS spec))
      in if da_DispatcherScope args = ''namespace''
         then env6 @ [\<lparr>ev_Name = ''NAMESPACE'', ev_Value = '''', ev_ValueFrom = Some (FieldRef ''metadata.namespace'')\<rparr>,
                      \<lparr>ev_Name = ''POD_NAME'', ev_Value = '''', ev_ValueFrom = Some (FieldRef ''metadata.name'')\<rparr>,
                      value_env ''CONTAINER_NAME'' ''dispatcher'']
         else env6)"

definition dispatcher_name :: "KafkaTopicChannel \<Rightarrow> string" where
  "dispatcher_name kc = kc_Name kc @ ''-dispatcher''"

definition MakeDispatcher :: "DispatcherArgs \<Rightarrow> Deployment" where
  "MakeDispatcher args =
     \<lparr>dp_TypeMeta = (''apps/v1'', ''Deployments''),
      dp_Meta = zero_ObjectMeta\<lparr>om_Name := dispatcher_name (da_Channel args),
                                om_Namespace := da_DispatcherNamespace args,
                                om_OwnerReferences := [NewControllerRef (da_Channel args)]\<rparr>,
      dp_Replicas = da_Replicas args,
      dp_Selector = dispatcherLabels,
      dp_PodLabels = dispatcherLabels,
      dp_PodAnnotations = [''sidecar.istio.io/inject'' \<mapsto> ''false''],
      dp_ServiceAccountName = da_ServiceAccount args,
      dp_Containers = [\<lparr>ct_Name = DispatcherContainerName, ct_Image = da_Image args, ct_Env = makeEnv args,
                        ct_Ports = [(''metrics'', 9090)]\<rparr>],
      dp_Conditions = []\<rparr>"

text \<open>\<open>FindContainer\<close> returns a pointer into the slice of containers: the index of the first match.\<close>

fun find_container_from :: "nat \<Rightarrow> Container list \<Rightarrow> string \<Rightarrow> nat option" where
  "find_container_from i [] name = None"
| "find_container_from i (c # cs) name = (if ct_Name c = name then Some i else find_container_from (Suc i) cs name)"

definition FindContainer :: "Deployment \<Rightarrow> string \<Rightarrow> nat option" where
  "FindContainer d containerName = find_container_from 0 (dp_Containers d) containerName"

section \<open>Services and access rights\<close>

definition MakeDispatcherService :: "string \<Rightarrow> KafkaTopicChannel \<Rightarrow> Service" where
  "MakeDispatcherService namespace kc =
     \<lparr>sv_TypeMeta = (''v1'', ''Service''),
      sv_Meta = zero_ObjectMeta\<lparr>om_Name := dispatcher_name kc, om_Namespace := namespace,
                                om_Labels := dispatcherLabels, om_OwnerReferences := [NewControllerRef kc]\<rparr>,
      sv_Spec = \<lparr>ssp_Type = '''', ssp_ExternalName = '''', ssp_Selector = dispatcherLabels,
                 ssp_Ports = [\<lparr>sv_PortName = ''http-dispatcher'', sv_Protocol = ''TCP'', sv_Port = 80, sv_TargetPort = 8080\<rparr>]\<rparr>\<rparr>"

definition MakeServiceAccount :: "string \<Rightarrow> string \<Rightarrow> ServiceAccount" where
  "MakeServiceAccount namespace name =
     \<lparr>sa_Meta = zero_ObjectMeta\<lparr>om_Namespace := namespace, om_Name := name\<rparr>\<rparr>"

definition MakeRoleBinding :: "string \<Rightarrow> string \<Rightarrow> ServiceAccount \<Rightarrow> string \<Rightarrow> RoleBinding" where
  "MakeRoleBinding ns name sa roleName =
     \<lparr>rb_Meta = zero_ObjectMeta\<lparr>om_Name := name, om_Namespace := ns\<rparr>,
      rb_RoleRef = (''rbac.authorization.k8s.io'', ''ClusterRole'', roleName),
      rb_Subjects = [(''ServiceAccount'', om_Namespace (sa_Meta sa), om_Name (sa_Meta sa))]\<rparr>"

definition MakeChannelServiceName :: "string \<Rightarrow> string" where
  "MakeChannelServiceName name = name @ ''-kn-channel''"

text \<open>\<open>network.GetServiceHostname\<close>; the domain of the cluster is read from a file, here an argument.\<close>

definition GetServiceHostname :: "string \<Rightarrow> string \<Rightarrow> string \<Rightarrow> string" where
  "GetServiceHostname clusterDomain name namespace = name @ ''.'' @ namespace @ ''.svc.'' @ clusterDomain"

definition ExternalService :: "string \<Rightarrow> string \<Rightarrow> string \<Rightarrow> Service \<Rightarrow> go_error + Service" where
  "ExternalService clusterDomain namespace service svc =
     Inr (svc\<lparr>sv_Spec := \<lparr>ssp_Type = ''ExternalName'',
                          ssp_ExternalName = GetServiceHostname clusterDomain service namespace,
                          ssp_Selector = Map.empty, ssp_Ports = []\<rparr>\<rparr>)"

fun apply_opts :: "(Service \<Rightarrow> go_error + Service) list \<Rightarrow> Service \<Rightarrow> go_error + Service" where
  "apply_opts [] svc = Inr svc"
| "apply_opts (opt # opts) svc = (case opt svc of Inl err \<Rightarrow> Inl err | Inr svc1 \<Rightarrow> apply_opts opts svc1)"

definition MakeK8sService :: "KafkaTopicChannel \<Rightarrow> (Service \<Rightarrow> go_error + Service) list \<Rightarrow> go_error + Service" where
  "MakeK8sService kc opts =
     apply_opts opts
       \<lparr>sv_TypeMeta = (''v1'', ''Service''),
        sv_Meta = zero_ObjectMeta\<lparr>om_Name := MakeChannelServiceName (kc_Name kc), om_Namespace := kc_Namespace kc,
                                  om_Labels := [''messaging.knative.dev/role'' \<mapsto> ''kafka-channel''],
                                  om_OwnerReferences := [NewControllerRef kc]\<rparr>,
        sv_Spec = \<lparr>ssp_Type = '''', ssp_ExternalName = '''', ssp_Selector = Map.empty,
                   ssp_Ports = [\<lparr>sv_PortName = ''http'', sv_Protocol = ''TCP'', sv_Port = 80, sv_TargetPort = 0\<rparr>]\<rparr>\<rparr>"

section \<open>The dispatcher's configuration\<close>

text \<open>
  The environment that a container sees is made by Kubernetes, whose code is not part of the repository: it is an
  argument, a function from the entries of the container to the variables. What is relied on is what the
  vendored API documents (\<open>k8s.io/api/core/v1/types.go\<close>, \<open>EnvVar\<close>): a value in which no \<open>$\<close> occurs is taken as it is
  (with a \<open>$\<close> it may hold references to other variables, which are expanded), references to secrets and fields are
  replaced by what they refer to (the arguments \<open>secret\<close> and \<open>field\<close>), and a variable that is not among the entries is
  what it was before (\<open>base\<close>, the variables of the image and of the services).
\<close>

definition documented_env ::
  "(SecretKeySelector \<Rightarrow> string) \<Rightarrow> (string \<Rightarrow> string) \<Rightarrow> (string \<rightharpoonup> string) \<Rightarrow> (EnvVar list \<Rightarrow> string \<rightharpoonup> string) \<Rightarrow> bool" where
  "documented_env secret field base container_env \<longleftrightarrow>
     (\<forall>env. distinct (map ev_Name env) \<longrightarrow>
        (\<forall>e \<in> set env. case ev_ValueFrom e of
             None \<Rightarrow> CHR ''$'' \<notin> set (ev_Value e) \<longrightarrow> container_env env (ev_Name e) = Some (ev_Value e)
           | Some (SecretRef ref) \<Rightarrow> container_env env (ev_Name e) = Some (secret ref)
           | Some (FieldRef path) \<Rightarrow> container_env env (ev_Name e) = Some (field path)) \<and>
        (\<forall>n. n \<notin> ev_Name ` set env \<longrightarrow> container_env env n = base n))"

text \<open>The image and the services set none of the variables that the dispatcher would read first.\<close>

definition base_ok :: "(string \<rightharpoonup> string) \<Rightarrow> bool" where
  "base_ok base \<longleftrightarrow> (\<forall>n. n = ''K_KAFKA_CONFIG'' \<or> take 4 n = ''NET_'' \<or> take 10 n = ''KAFKA_NET_'' \<longrightarrow> base n = None)"

record AdapterSASL =
  as_Enable :: bool
  as_User :: string
  as_Password :: string
  as_Type :: string

record AdapterTLS =
  at_Enable :: bool
  at_Cert :: string
  at_Key :: string
  at_CACert :: string

record KafkaEnvConfig =
  ke_KafkaConfigJson :: string
  ke_BootstrapServers :: "string list"
  ke_SASL :: AdapterSASL
  ke_TLS :: AdapterTLS

text \<open>
  \<open>envconfig.Process\<close> on this struct: a nested field is looked up under its prefixed name first and
  then under the name of its tag; \<open>BootstrapServers\<close> is required; a boolean that
  \<open>strconv.ParseBool\<close> refuses is an error; a list is split at commas.
\<close>

definition lookup_env :: "(string \<rightharpoonup> string) \<Rightarrow> string \<Rightarrow> string \<Rightarrow> string option" where
  "lookup_env env prefix tag = (case env (prefix @ tag) of Some v \<Rightarrow> Some v | None \<Rightarrow> env tag)"

definition string_env :: "(string \<rightharpoonup> string) \<Rightarrow> string \<Rightarrow> string \<Rightarrow> string" where
  "string_env env prefix tag = (case lookup_env env prefix tag of Some v \<Rightarrow> v | None \<Rightarrow> '''')"

definition parse_bool :: "string \<Rightarrow> bool option" where
  "parse_bool s =
     (if s \<in> {''1'', ''t'', ''T'', ''TRUE'', ''true'', ''True''} then Some True
      else if s \<in> {''0'', ''f'', ''F'', ''FALSE'', ''false'', ''False''} then Some False
      else None)"

definition bool_env :: "(string \<rightharpoonup> string) \<Rightarrow> string \<Rightarrow> string \<Rightarrow> go_error + bool" where
  "bool_env env prefix tag =
     (case lookup_env env prefix tag of
        None \<Rightarrow> Inr False
      | Some v \<Rightarrow> (case parse_bool v of
                       Some b \<Rightarrow> Inr b
                     | None \<Rightarrow> Inl (ErrorText (''envconfig.Process: assigning '' @ tag))))"

definition is_space :: "char \<Rightarrow> bool" where
  "is_space c \<longleftrightarrow> c \<in> {CHR 0x09, CHR 0x0A, CHR 0x0B, CHR 0x0C, CHR 0x0D, CHR 0x20}"

definition list_env :: "string \<Rightarrow> string list" where
  "list_env v = (if list_all is_space v then [] else go_split CHR '','' v)"

definition process_env :: "(string \<rightharpoonup> string) \<Rightarrow> go_error + KafkaEnvConfig" where
  "process_env env =
     (case env ''KAFKA_BOOTSTRAP_SERVERS'' of
        None \<Rightarrow> Inl (ErrorText ''required key KAFKA_BOOTSTRAP_SERVERS missing value'')
      | Some servers \<Rightarrow>
          (case bool_env env ''NET_SASL_'' ''KAFKA_NET_SASL_ENABLE'' of
             Inl e \<Rightarrow> Inl e
           | Inr sasl \<Rightarrow>
               (case bool_env env ''NET_TLS_'' ''KAFKA_NET_TLS_ENABLE'' of
                  Inl e \<Rightarrow> Inl e
                | Inr tls \<Rightarrow>
                    Inr \<lparr>ke_KafkaConfigJson = string_env env '''' ''K_KAFKA_CONFIG'',
                         ke_BootstrapServers = list_env servers,
                         ke_SASL = \<lparr>as_Enable = sasl,
                                    as_User = string_env env ''NET_SASL_'' ''KAFKA_NET_SASL_USER'',
                                    as_Password = string_env env ''NET_SASL_'' ''KAFKA_NET_SASL_PASSWORD'',
                                    as_Type = string_env env ''NET_SASL_'' ''KAFKA_NET_SASL_TYPE''\<rparr>,
                         ke_TLS = \<lparr>at_Enable = tls,
                                   at_Cert = string_env env ''NET_TLS_'' ''KAFKA_NET_TLS_CERT'',
                                   at_Key = string_env env ''NET_TLS_'' ''KAFKA_NET_TLS_KEY'',
                                   at_CACert = string_env env ''NET_TLS_'' ''KAFKA_NET_TLS_CA_CERT''\<rparr>\<rparr>)))"

text \<open>
  \<open>NewConfigWithEnv\<close>. The Sarama configuration is built by another vendored package: \<open>build\<close> takes the
  TLS and SASL settings and the YAML text, \<open>unmarshal\<close> parses the JSON of \<open>K_KAFKA_CONFIG\<close>.
\<close>

record KafkaAuthConfig =
  ka_TLS :: "(string \<times> string \<times> string) option"
  ka_SASL :: "(string \<times> string \<times> string) option"

definition NewConfigWithEnv ::
  "(string \<Rightarrow> go_error + string) \<Rightarrow> (KafkaAuthConfig \<Rightarrow> string option \<Rightarrow> go_error + 'cfg) \<Rightarrow> KafkaEnvConfig \<Rightarrow>
   go_error + (string list \<times> 'cfg)" where
  "NewConfigWithEnv unmarshal build env =
     (let tls = ke_TLS env; sasl = ke_SASL env;
          kafkaAuthConfig =
            \<lparr>ka_TLS = (if at_Enable tls then Some (at_CACert tls, at_Cert tls, at_Key tls) else None),
             ka_SASL = (if as_Enable sasl then Some (as_User sasl, as_Password sasl, as_Type sasl) else None)\<rparr>;
          finish = (\<lambda>yaml. case build kafkaAuthConfig yaml of
                             Inl err \<Rightarrow> Inl (Wrap ''error creating Sarama config: '' err)
                           | Inr cfg \<Rightarrow> Inr (ke_BootstrapServers env, cfg))
      in if ke_KafkaConfigJson env \<noteq> '''' then
           (case unmarshal (ke_KafkaConfigJson env) of
              Inl err \<Rightarrow> Inl (Wrap ''error parsing Kafka config from environment: '' err)
            | Inr yaml \<Rightarrow> finish (Some yaml))
         else finish None)"

definition NewConfigFromEnv ::
  "(string \<Rightarrow> go_error + string) \<Rightarrow> (KafkaAuthConfig \<Rightarrow> string option \<Rightarrow> go_error + 'cfg) \<Rightarrow> (string \<rightharpoonup> string) \<Rightarrow>
   go_error + (string list \<times> 'cfg)" where
  "NewConfigFromEnv unmarshal build env =
     (case process_env env of Inl err \<Rightarrow> Inl err | Inr e \<Rightarrow> NewConfigWithEnv unmarshal build e)"

definition TopicName :: "(string \<rightharpoonup> string) \<Rightarrow> string" where
  "TopicName env = (case env ''KAFKA_TOPIC'' of Some v \<Rightarrow> v | None \<Rightarrow> '''')"

section \<open>Properties\<close>

lemma set_appendEnv:
  "set (appendEnvFromSecretKeyRef env key ref) =
     set env \<union> (case ref of None \<Rightarrow> {} | Some r \<Rightarrow> {\<lparr>ev_Name = key, ev_Value = '''', ev_ValueFrom = Some (SecretRef r)\<rparr>})"
  by (simp add: appendEnvFromSecretKeyRef_def split: option.split)

lemma names_appendEnv:
  "ev_Name ` set (appendEnvFromSecretKeyRef env key ref) = ev_Name ` set env \<union> (if ref = None then {} else {key})"
  by (auto simp: set_appendEnv split: option.splits)

lemma distinct_appendEnv:
  "distinct (map ev_Name env) \<Longrightarrow> key \<notin> ev_Name ` set env \<Longrightarrow> distinct (map ev_Name (appendEnvFromSecretKeyRef env key ref))"
  by (simp add: appendEnvFromSecretKeyRef_def split: option.split)

lemma notin_appendEnv: "n \<noteq> key \<Longrightarrow> n \<notin> ev_Name ` set env \<Longrightarrow> n \<notin> ev_Name ` set (appendEnvFromSecretKeyRef env key ref)"
  by (simp add: names_appendEnv)

text \<open>No name occurs twice in the environment that the controller writes.\<close>

lemma makeEnv_distinct: "distinct (map ev_Name (makeEnv args))"
proof -
  have tail: "distinct (map ev_Name (env @ [a, b, c]))"
    if "distinct (map ev_Name env)" "distinct [ev_Name a, ev_Name b, ev_Name c]"
      "ev_Name a \<notin> ev_Name ` set env" "ev_Name b \<notin> ev_Name ` set env" "ev_Name c \<notin> ev_Name ` set env" for env and a b c :: EnvVar
    using that by auto
  show ?thesis
  proof (cases "da_DispatcherScope args = ''namespace''")
    case True
    show ?thesis unfolding makeEnv_def Let_def if_P [OF True]
      by (intro tail distinct_appendEnv notin_appendEnv; simp add: value_env_def)
  next
    case False
    show ?thesis unfolding makeEnv_def Let_def if_not_P [OF False]
      by (intro distinct_appendEnv notin_appendEnv; simp add: value_env_def)
  qed
qed

lemma makeEnv_names:
  "ev_Name ` set (makeEnv args) \<subseteq>
     {''KAFKA_BOOTSTRAP_SERVERS'', ''KAFKA_TOPIC'', ''CHANNEL_NAME'', ''KAFKA_NET_SASL_ENABLE'', ''KAFKA_NET_TLS_ENABLE'', ''SYSTEM_NAMESPACE'',
      ''METRICS_DOMAIN'', ''CONFIG_LOGGING_NAME'', ''CONFIG_LEADERELECTION_NAME'', ''KAFKA_NET_SASL_USER'', ''KAFKA_NET_SASL_PASSWORD'',
      ''KAFKA_NET_SASL_TYPE'', ''KAFKA_NET_TLS_CERT'', ''KAFKA_NET_TLS_KEY'', ''KAFKA_NET_TLS_CA_CERT'', ''NAMESPACE'', ''POD_NAME'', ''CONTAINER_NAME''}"
  by (simp add: makeEnv_def Let_def names_appendEnv value_env_def)

definition secret_or_empty :: "(SecretKeySelector \<Rightarrow> string) \<Rightarrow> SecretKeySelector option \<Rightarrow> string" where
  "secret_or_empty secret ref = (case ref of Some r \<Rightarrow> secret r | None \<Rightarrow> '''')"

text \<open>The lookups of an entry with a value, of a reference, and of a variable without an entry.\<close>

lemma documented_entry:
  assumes "documented_env secret field base container_env" "e \<in> set (makeEnv args)"
  shows "case ev_ValueFrom e of
             None \<Rightarrow> CHR ''$'' \<notin> set (ev_Value e) \<longrightarrow> container_env (makeEnv args) (ev_Name e) = Some (ev_Value e)
           | Some (SecretRef ref) \<Rightarrow> container_env (makeEnv args) (ev_Name e) = Some (secret ref)
           | Some (FieldRef path) \<Rightarrow> container_env (makeEnv args) (ev_Name e) = Some (field path)"
  using assms makeEnv_distinct [of args] unfolding documented_env_def by blast

lemma documented_value:
  "documented_env secret field base container_env \<Longrightarrow> value_env n v \<in> set (makeEnv args) \<Longrightarrow> CHR ''$'' \<notin> set v \<Longrightarrow>
     container_env (makeEnv args) n = Some v"
  by (drule documented_entry, assumption) (simp add: value_env_def)

lemma documented_ref:
  "documented_env secret field base container_env \<Longrightarrow> \<lparr>ev_Name = n, ev_Value = v, ev_ValueFrom = Some src\<rparr> \<in> set (makeEnv args) \<Longrightarrow>
     container_env (makeEnv args) n = Some (case src of SecretRef ref \<Rightarrow> secret ref | FieldRef path \<Rightarrow> field path)"
  by (drule documented_entry, assumption) (simp split: EnvSource.splits)

lemma documented_other:
  "documented_env secret field base container_env \<Longrightarrow> n \<notin> ev_Name ` set (makeEnv args) \<Longrightarrow> container_env (makeEnv args) n = base n"
  using makeEnv_distinct [of args] by (simp add: documented_env_def)

lemma makeEnv_values:
  "value_env ''KAFKA_BOOTSTRAP_SERVERS'' (go_join '','' (sp_BootstrapServers (kc_Spec (da_Channel args)))) \<in> set (makeEnv args)"
  "value_env ''KAFKA_TOPIC'' (sp_Topic (kc_Spec (da_Channel args))) \<in> set (makeEnv args)"
  "value_env ''CHANNEL_NAME'' (kc_Name (da_Channel args)) \<in> set (makeEnv args)"
  "value_env ''SYSTEM_NAMESPACE'' (kc_Namespace (da_Channel args)) \<in> set (makeEnv args)"
  "value_env ''KAFKA_NET_SASL_ENABLE'' (format_bool (sasl_Enable (sp_SASL (kc_Spec (da_Channel args))))) \<in> set (makeEnv args)"
  "value_env ''KAFKA_NET_TLS_ENABLE'' (format_bool (tls_Enable (sp_TLS (kc_Spec (da_Channel args))))) \<in> set (makeEnv args)"
  by (simp_all add: makeEnv_def Let_def set_appendEnv)

text \<open>A server list without \<open>$\<close> in its parts has none in the joined value.\<close>

lemma set_go_join: "set (go_join sep ws) \<subseteq> set sep \<union> \<Union> (set ` set ws)"
proof (induction ws)
  case (Cons w ws)
  then show ?case by (cases "ws = []") (auto simp: go_join_Cons)
qed simp

lemma env_values:
  assumes "documented_env secret field base container_env"
  shows "\<forall>w \<in> set (sp_BootstrapServers (kc_Spec (da_Channel args))). CHR ''$'' \<notin> set w \<Longrightarrow>
      container_env (makeEnv args) ''KAFKA_BOOTSTRAP_SERVERS'' = Some (go_join '','' (sp_BootstrapServers (kc_Spec (da_Channel args))))"
    "CHR ''$'' \<notin> set (sp_Topic (kc_Spec (da_Channel args))) \<Longrightarrow> container_env (makeEnv args) ''KAFKA_TOPIC'' = Some (sp_Topic (kc_Spec (da_Channel args)))"
    "CHR ''$'' \<notin> set (kc_Name (da_Channel args)) \<Longrightarrow> container_env (makeEnv args) ''CHANNEL_NAME'' = Some (kc_Name (da_Channel args))"
    "CHR ''$'' \<notin> set (kc_Namespace (da_Channel args)) \<Longrightarrow> container_env (makeEnv args) ''SYSTEM_NAMESPACE'' = Some (kc_Namespace (da_Channel args))"
    "container_env (makeEnv args) ''KAFKA_NET_SASL_ENABLE'' = Some (format_bool (sasl_Enable (sp_SASL (kc_Spec (da_Channel args)))))"
    "container_env (makeEnv args) ''KAFKA_NET_TLS_ENABLE'' = Some (format_bool (tls_Enable (sp_TLS (kc_Spec (da_Channel args)))))"
proof -
  show "container_env (makeEnv args) ''KAFKA_BOOTSTRAP_SERVERS'' = Some (go_join '','' (sp_BootstrapServers (kc_Spec (da_Channel args))))"
    if "\<forall>w \<in> set (sp_BootstrapServers (kc_Spec (da_Channel args))). CHR ''$'' \<notin> set w"
    using that set_go_join [of "'',''" "sp_BootstrapServers (kc_Spec (da_Channel args))"] by (intro documented_value [OF assms makeEnv_values(1)]) auto
qed (simp_all add: documented_value [OF assms makeEnv_values(2)] documented_value [OF assms makeEnv_values(3)]
  documented_value [OF assms makeEnv_values(4)] documented_value [OF assms makeEnv_values(5)] documented_value [OF assms makeEnv_values(6)] format_bool_def)

lemma makeEnv_secrets:
  "sasl_User (sp_SASL (kc_Spec (da_Channel args))) = Some r \<Longrightarrow> \<lparr>ev_Name = ''KAFKA_NET_SASL_USER'', ev_Value = '''', ev_ValueFrom = Some (SecretRef r)\<rparr> \<in> set (makeEnv args)"
  "sasl_Password (sp_SASL (kc_Spec (da_Channel args))) = Some r \<Longrightarrow> \<lparr>ev_Name = ''KAFKA_NET_SASL_PASSWORD'', ev_Value = '''', ev_ValueFrom = Some (SecretRef r)\<rparr> \<in> set (makeEnv args)"
  "sasl_Type (sp_SASL (kc_Spec (da_Channel args))) = Some r \<Longrightarrow> \<lparr>ev_Name = ''KAFKA_NET_SASL_TYPE'', ev_Value = '''', ev_ValueFrom = Some (SecretRef r)\<rparr> \<in> set (makeEnv args)"
  "tls_Cert (sp_TLS (kc_Spec (da_Channel args))) = Some r \<Longrightarrow> \<lparr>ev_Name = ''KAFKA_NET_TLS_CERT'', ev_Value = '''', ev_ValueFrom = Some (SecretRef r)\<rparr> \<in> set (makeEnv args)"
  "tls_Key (sp_TLS (kc_Spec (da_Channel args))) = Some r \<Longrightarrow> \<lparr>ev_Name = ''KAFKA_NET_TLS_KEY'', ev_Value = '''', ev_ValueFrom = Some (SecretRef r)\<rparr> \<in> set (makeEnv args)"
  "tls_CACert (sp_TLS (kc_Spec (da_Channel args))) = Some r \<Longrightarrow> \<lparr>ev_Name = ''KAFKA_NET_TLS_CA_CERT'', ev_Value = '''', ev_ValueFrom = Some (SecretRef r)\<rparr> \<in> set (makeEnv args)"
  by (simp_all add: makeEnv_def Let_def set_appendEnv)

lemma makeEnv_no_secrets:
  "sasl_User (sp_SASL (kc_Spec (da_Channel args))) = None \<Longrightarrow> ''KAFKA_NET_SASL_USER'' \<notin> ev_Name ` set (makeEnv args)"
  "sasl_Password (sp_SASL (kc_Spec (da_Channel args))) = None \<Longrightarrow> ''KAFKA_NET_SASL_PASSWORD'' \<notin> ev_Name ` set (makeEnv args)"
  "sasl_Type (sp_SASL (kc_Spec (da_Channel args))) = None \<Longrightarrow> ''KAFKA_NET_SASL_TYPE'' \<notin> ev_Name ` set (makeEnv args)"
  "tls_Cert (sp_TLS (kc_Spec (da_Channel args))) = None \<Longrightarrow> ''KAFKA_NET_TLS_CERT'' \<notin> ev_Name ` set (makeEnv args)"
  "tls_Key (sp_TLS (kc_Spec (da_Channel args))) = None \<Longrightarrow> ''KAFKA_NET_TLS_KEY'' \<notin> ev_Name ` set (makeEnv args)"
  "tls_CACert (sp_TLS (kc_Spec (da_Channel args))) = None \<Longrightarrow> ''KAFKA_NET_TLS_CA_CERT'' \<notin> ev_Name ` set (makeEnv args)"
  by (simp_all add: makeEnv_def Let_def names_appendEnv value_env_def)

lemma env_ref_or_base:
  assumes "documented_env secret field base container_env" "base_ok base" "take 10 n = ''KAFKA_NET_''"
    and "\<And>r. ref = Some r \<Longrightarrow> \<lparr>ev_Name = n, ev_Value = '''', ev_ValueFrom = Some (SecretRef r)\<rparr> \<in> set (makeEnv args)"
    and "ref = None \<Longrightarrow> n \<notin> ev_Name ` set (makeEnv args)"
  shows "container_env (makeEnv args) n = map_option secret ref"
proof (cases ref)
  case None
  then show ?thesis using documented_other [OF assms(1,5)] assms(2,3) by (simp add: base_ok_def)
next
  case (Some r)
  then show ?thesis using documented_ref [OF assms(1,4)] by simp
qed

lemma env_secret_refs:
  assumes "documented_env secret field base container_env" "base_ok base"
  shows "container_env (makeEnv args) ''KAFKA_NET_SASL_USER'' = map_option secret (sasl_User (sp_SASL (kc_Spec (da_Channel args))))"
    "container_env (makeEnv args) ''KAFKA_NET_SASL_PASSWORD'' = map_option secret (sasl_Password (sp_SASL (kc_Spec (da_Channel args))))"
    "container_env (makeEnv args) ''KAFKA_NET_SASL_TYPE'' = map_option secret (sasl_Type (sp_SASL (kc_Spec (da_Channel args))))"
    "container_env (makeEnv args) ''KAFKA_NET_TLS_CERT'' = map_option secret (tls_Cert (sp_TLS (kc_Spec (da_Channel args))))"
    "container_env (makeEnv args) ''KAFKA_NET_TLS_KEY'' = map_option secret (tls_Key (sp_TLS (kc_Spec (da_Channel args))))"
    "container_env (makeEnv args) ''KAFKA_NET_TLS_CA_CERT'' = map_option secret (tls_CACert (sp_TLS (kc_Spec (da_Channel args))))"
  by (rule env_ref_or_base [OF assms]; simp add: makeEnv_secrets makeEnv_no_secrets)+

lemma env_prefixed:
  assumes "documented_env secret field base container_env" "base_ok base"
  shows "container_env (makeEnv args) (''NET_'' @ w) = None" "container_env (makeEnv args) ''K_KAFKA_CONFIG'' = None"
proof -
  have n: "''NET_'' @ w \<notin> ev_Name ` set (makeEnv args)" "''K_KAFKA_CONFIG'' \<notin> ev_Name ` set (makeEnv args)"
    using makeEnv_names [of args] by auto
  show "container_env (makeEnv args) (''NET_'' @ w) = None" "container_env (makeEnv args) ''K_KAFKA_CONFIG'' = None"
    using documented_other [OF assms(1) n(1)] documented_other [OF assms(1) n(2)] assms(2) by (simp_all add: base_ok_def)
qed

lemma lookup_env_prefixed:
  assumes "documented_env secret field base container_env" "base_ok base"
  shows "lookup_env (container_env (makeEnv args)) ''NET_SASL_'' tag = container_env (makeEnv args) tag"
    "lookup_env (container_env (makeEnv args)) ''NET_TLS_'' tag = container_env (makeEnv args) tag"
  using env_prefixed(1) [OF assms, of args "''SASL_'' @ tag"] env_prefixed(1) [OF assms, of args "''TLS_'' @ tag"]
  by (simp_all add: lookup_env_def)

lemma env_secrets:
  assumes "documented_env secret field base container_env" "base_ok base"
  shows "string_env (container_env (makeEnv args)) ''NET_SASL_'' ''KAFKA_NET_SASL_USER'' = secret_or_empty secret (sasl_User (sp_SASL (kc_Spec (da_Channel args))))"
    "string_env (container_env (makeEnv args)) ''NET_SASL_'' ''KAFKA_NET_SASL_PASSWORD'' = secret_or_empty secret (sasl_Password (sp_SASL (kc_Spec (da_Channel args))))"
    "string_env (container_env (makeEnv args)) ''NET_SASL_'' ''KAFKA_NET_SASL_TYPE'' = secret_or_empty secret (sasl_Type (sp_SASL (kc_Spec (da_Channel args))))"
    "string_env (container_env (makeEnv args)) ''NET_TLS_'' ''KAFKA_NET_TLS_CERT'' = secret_or_empty secret (tls_Cert (sp_TLS (kc_Spec (da_Channel args))))"
    "string_env (container_env (makeEnv args)) ''NET_TLS_'' ''KAFKA_NET_TLS_KEY'' = secret_or_empty secret (tls_Key (sp_TLS (kc_Spec (da_Channel args))))"
    "string_env (container_env (makeEnv args)) ''NET_TLS_'' ''KAFKA_NET_TLS_CA_CERT'' = secret_or_empty secret (tls_CACert (sp_TLS (kc_Spec (da_Channel args))))"
    "string_env (container_env (makeEnv args)) [] ''K_KAFKA_CONFIG'' = []"
  unfolding string_env_def lookup_env_prefixed [OF assms] env_secret_refs [OF assms] secret_or_empty_def
  by (simp_all add: lookup_env_def env_prefixed [OF assms] split: option.split)

lemma env_bools:
  assumes "documented_env secret field base container_env" "base_ok base"
  shows "bool_env (container_env (makeEnv args)) ''NET_SASL_'' ''KAFKA_NET_SASL_ENABLE'' = Inr (sasl_Enable (sp_SASL (kc_Spec (da_Channel args))))"
    "bool_env (container_env (makeEnv args)) ''NET_TLS_'' ''KAFKA_NET_TLS_ENABLE'' = Inr (tls_Enable (sp_TLS (kc_Spec (da_Channel args))))"
  unfolding bool_env_def lookup_env_prefixed [OF assms] env_values(5,6) [OF assms(1)] by (simp_all add: parse_bool_def format_bool_def)

lemma list_env_join:
  assumes "ws \<noteq> []" "\<And>w. w \<in> set ws \<Longrightarrow> CHR '','' \<notin> set w" "\<exists>w \<in> set ws. \<not> list_all is_space w"
  shows "list_env (go_join '','' ws) = ws"
proof -
  have "\<not> list_all is_space (go_join sep ws)" for sep
    using assms(1,3)
  proof (induction ws)
    case (Cons w ws)
    then show ?case by (cases "ws = []") (auto simp: go_join_Cons)
  qed simp
  then show ?thesis by (simp add: list_env_def go_split_join [OF assms(1,2)])
qed

text \<open>\<open>FindContainer\<close> finds the first container of that name.\<close>

lemma find_container_from_spec:
  "find_container_from i cs name = Some j \<Longrightarrow>
     i \<le> j \<and> j - i < length cs \<and> ct_Name (cs ! (j - i)) = name \<and> (\<forall>k < j - i. ct_Name (cs ! k) \<noteq> name)"
proof (induction cs arbitrary: i)
  case (Cons c cs)
  show ?case
  proof (cases "ct_Name c = name")
    case False
    with Cons have ih: "Suc i \<le> j" "j - Suc i < length cs" "ct_Name (cs ! (j - Suc i)) = name"
      "\<forall>k < j - Suc i. ct_Name (cs ! k) \<noteq> name" by auto
    have "j - i = Suc (j - Suc i)" using ih(1) by simp
    with ih False show ?thesis by (auto simp: nth_Cons split: nat.splits)
  qed (use Cons in auto)
qed simp

lemma find_container_from_None:
  "find_container_from i cs name = None \<longleftrightarrow> (\<forall>c \<in> set cs. ct_Name c \<noteq> name)"
  by (induction cs arbitrary: i) auto

lemma FindContainer_MakeDispatcher: "FindContainer (MakeDispatcher args) DispatcherContainerName = Some 0"
  by (simp add: FindContainer_def MakeDispatcher_def)

lemma config_from_env:
  assumes "documented_env secret field base container_env" and "base_ok base"
    and "sp_BootstrapServers (kc_Spec (da_Channel args)) \<noteq> []"
    and "\<forall>w \<in> set (sp_BootstrapServers (kc_Spec (da_Channel args))). CHR '','' \<notin> set w \<and> CHR ''$'' \<notin> set w"
    and "\<exists>w \<in> set (sp_BootstrapServers (kc_Spec (da_Channel args))). \<not> list_all is_space w"
  shows "NewConfigFromEnv unmarshal build (container_env (makeEnv args)) =
           (let spec = kc_Spec (da_Channel args); tls = sp_TLS spec; sasl = sp_SASL spec;
                get = secret_or_empty secret;
                auth = \<lparr>ka_TLS = (if tls_Enable tls then Some (get (tls_CACert tls), get (tls_Cert tls), get (tls_Key tls)) else None),
                        ka_SASL = (if sasl_Enable sasl then Some (get (sasl_User sasl), get (sasl_Password sasl), get (sasl_Type sasl)) else None)\<rparr>
            in case build auth None of
                 Inl err \<Rightarrow> Inl (Wrap ''error creating Sarama config: '' err)
               | Inr cfg \<Rightarrow> Inr (sp_BootstrapServers spec, cfg))"
proof -
  have servers: "list_env (go_join '','' (sp_BootstrapServers (kc_Spec (da_Channel args)))) = sp_BootstrapServers (kc_Spec (da_Channel args))"
    using assms(3-5) by (intro list_env_join) auto
  have written: "container_env (makeEnv args) ''KAFKA_BOOTSTRAP_SERVERS'' = Some (go_join '','' (sp_BootstrapServers (kc_Spec (da_Channel args))))"
    using env_values(1) [OF assms(1), of args] assms(4) by auto
  show ?thesis
    unfolding NewConfigFromEnv_def process_env_def written env_bools [OF assms(1,2)] env_secrets [OF assms(1,2)] NewConfigWithEnv_def
    by (simp add: servers Let_def split: sum.split)
qed

lemma topic_from_env:
  "documented_env secret field base container_env \<Longrightarrow> CHR ''$'' \<notin> set (sp_Topic (kc_Spec (da_Channel args))) \<Longrightarrow>
     TopicName (container_env (makeEnv args)) = sp_Topic (kc_Spec (da_Channel args))"
  by (simp add: TopicName_def env_values(2))

section \<open>Main properties\<close>

text \<open>
  C24: What the controller writes into the environment of the dispatcher container is what the dispatcher
  reads back: the bootstrap servers, the topic, and the TLS and SASL settings with their secrets, each
  part only if it is enabled. The container gets its variables as the API documents it, and the image sets none that the
  dispatcher would read instead; servers contain no comma, one of them is not blank, and neither they nor the
  topic contain a \<open>$\<close>, which would start a reference to another variable.
\<close>

theorem environment_round_trip:
  assumes "documented_env secret field base container_env" and "base_ok base"
    and "sp_BootstrapServers (kc_Spec (da_Channel args)) \<noteq> []"
    and "\<forall>w \<in> set (sp_BootstrapServers (kc_Spec (da_Channel args))). CHR '','' \<notin> set w \<and> CHR ''$'' \<notin> set w"
    and "\<exists>w \<in> set (sp_BootstrapServers (kc_Spec (da_Channel args))). \<not> list_all is_space w"
    and "CHR ''$'' \<notin> set (sp_Topic (kc_Spec (da_Channel args)))"
  shows "NewConfigFromEnv unmarshal build (container_env (makeEnv args)) =
           (let spec = kc_Spec (da_Channel args); tls = sp_TLS spec; sasl = sp_SASL spec;
                get = secret_or_empty secret;
                auth = \<lparr>ka_TLS = (if tls_Enable tls then Some (get (tls_CACert tls), get (tls_Cert tls), get (tls_Key tls)) else None),
                        ka_SASL = (if sasl_Enable sasl then Some (get (sasl_User sasl), get (sasl_Password sasl), get (sasl_Type sasl)) else None)\<rparr>
            in case build auth None of
                 Inl err \<Rightarrow> Inl (Wrap ''error creating Sarama config: '' err)
               | Inr cfg \<Rightarrow> Inr (sp_BootstrapServers spec, cfg)) \<and>
         TopicName (container_env (makeEnv args)) = sp_Topic (kc_Spec (da_Channel args))"
  using config_from_env [OF assms(1-5)] topic_from_env [OF assms(1,6)] by (intro conjI)

text \<open>
  An environment as the API documents it, used in the examples: \<open>$(NAME)\<close> is replaced by the value of an earlier variable
  and kept if there is none, \<open>$$\<close> stands for one \<open>$\<close>.
\<close>

function expand :: "(string \<rightharpoonup> string) \<Rightarrow> string \<Rightarrow> string" where
  "expand m [] = []"
| "expand m (c # cs) =
     (if c \<noteq> CHR ''$'' \<or> cs = [] then c # expand m cs
      else if hd cs = CHR ''$'' then CHR ''$'' # expand m (tl cs)
      else if hd cs = CHR ''('' \<and> CHR '')'' \<in> set (tl cs) then
        (let name = takeWhile (\<lambda>x. x \<noteq> CHR '')'') (tl cs); rest = tl (dropWhile (\<lambda>x. x \<noteq> CHR '')'') (tl cs))
         in (case m name of Some v \<Rightarrow> v | None \<Rightarrow> ''$('' @ name @ '')'') @ expand m rest)
      else c # expand m cs)"
  by pat_completeness auto
termination
proof (relation "measure (\<lambda>(m, s). length s)")
  fix m :: "string \<rightharpoonup> string" and c :: char and cs name rest :: string
  assume "rest = tl (dropWhile (\<lambda>x. x \<noteq> CHR '')'') (tl cs))"
  then have "length rest \<le> length cs" using length_dropWhile_le [of "\<lambda>x. x \<noteq> CHR '')''" "tl cs"] by simp
  then show "((m, rest), m, c # cs) \<in> measure (\<lambda>(m, s). length s)" by simp
qed simp_all

definition sample_container_env :: "(SecretKeySelector \<Rightarrow> string) \<Rightarrow> (string \<Rightarrow> string) \<Rightarrow> EnvVar list \<Rightarrow> string \<rightharpoonup> string" where
  "sample_container_env secret field env =
     fold (\<lambda>e m. m(ev_Name e \<mapsto> (case ev_ValueFrom e of
         None \<Rightarrow> expand m (ev_Value e) | Some (SecretRef ref) \<Rightarrow> secret ref | Some (FieldRef path) \<Rightarrow> field path))) env Map.empty"

lemma expand_literal: "CHR ''$'' \<notin> set v \<Longrightarrow> expand m v = v"
  by (induction v) auto

lemma sample_container_env_documented: "documented_env secret field Map.empty (sample_container_env secret field)"
proof -
  let ?v = "\<lambda>e m. case ev_ValueFrom e of None \<Rightarrow> expand m (ev_Value e) | Some (SecretRef ref) \<Rightarrow> secret ref | Some (FieldRef path) \<Rightarrow> field path"
  let ?ok = "\<lambda>env e. case ev_ValueFrom e of
             None \<Rightarrow> CHR ''$'' \<notin> set (ev_Value e) \<longrightarrow> sample_container_env secret field env (ev_Name e) = Some (ev_Value e)
           | Some (SecretRef ref) \<Rightarrow> sample_container_env secret field env (ev_Name e) = Some (secret ref)
           | Some (FieldRef path) \<Rightarrow> sample_container_env secret field env (ev_Name e) = Some (field path)"
  have last: "sample_container_env secret field (env @ [e]) =
      (sample_container_env secret field env)(ev_Name e \<mapsto> ?v e (sample_container_env secret field env))" for env e
    by (simp only: sample_container_env_def fold_append fold.simps comp_apply id_apply)
  have "(\<forall>e \<in> set env. ?ok env e) \<and> (\<forall>n. n \<notin> ev_Name ` set env \<longrightarrow> sample_container_env secret field env n = None)"
    if "distinct (map ev_Name env)" for env
    using that
  proof (induction env rule: rev_induct)
    case Nil
    then show ?case by (simp add: sample_container_env_def)
  next
    case (snoc e env)
    then have ne: "ev_Name x \<noteq> ev_Name e" if "x \<in> set env" for x using that by simp (metis image_eqI)
    have "?ok (env @ [e]) x = ?ok env x" if "x \<in> set env" for x using ne [OF that]
      by (auto simp: last split: option.split EnvSource.split)
    moreover have "?ok (env @ [e]) e"
      by (auto simp: last expand_literal split: option.split EnvSource.split)
    ultimately show ?case using snoc by (auto simp: last)
  qed
  then show ?thesis by (simp add: documented_env_def)
qed

definition sample_args :: DispatcherArgs where
  "sample_args =
     \<lparr>da_DispatcherScope = ''namespace'', da_DispatcherNamespace = ''ns'', da_Image = ''img'', da_Replicas = 1,
      da_ServiceAccount = ''sa'', da_ConfigMapHash = '''', da_Channel = sample_channel 1 []\<rparr>"

theorem environment_round_trip_witness:
  "NewConfigFromEnv (\<lambda>_. Inr '''') (\<lambda>auth yaml. Inr (ka_TLS auth)) (sample_container_env (\<lambda>_. ''s'') (\<lambda>_. ''f'') (makeEnv sample_args)) =
     Inr ([''kafka:9092''], None)"
  using environment_round_trip [OF sample_container_env_documented, of sample_args "\<lambda>_. Inr ''''" "\<lambda>auth yaml. Inr (ka_TLS auth)" "\<lambda>_. ''s''" "\<lambda>_. ''f''"]
  by (simp add: sample_args_def sample_channel_def sample_spec_def is_space_def base_ok_def)

end
