(* ===== verification/Wiring.thy ===== *)
theory Wiring
  imports Prober Resources
begin

text \<open>
  How the controller is wired (\<open>controller/controller.go\<close>, \<open>controller/lister.go\<close>): where the prober
  finds the pods of a channel's dispatcher, and which cluster events reach the reconciler and the
  prober.
\<close>

section \<open>The probe targets of a channel\<close>

text \<open>The endpoints of a service: the addresses of each subset.\<close>

type_synonym Endpoints = "ip list list"

type_synonym EndpointsLister = "string \<Rightarrow> string \<Rightarrow> go_error + Endpoints"

definition ListProbeTargets :: "EndpointsLister \<Rightarrow> KafkaTopicChannel \<Rightarrow> go_error + ProbeTarget" where
  "ListProbeTargets endpointLister kc =
     (let dispatcherNamespace = kc_Namespace kc in
      case endpointLister dispatcherNamespace (dispatcher_name kc) of
        Inl err \<Rightarrow> Inl (Wrap ''failed to get internal service: '' err)
      | Inr eps \<Rightarrow>
          (let readyIPs = concat eps in
           if length readyIPs = 0 then Inl (ErrorText ''no gateway pods available'')
           else Inr \<lparr>pt_PodIPs = set readyIPs, pt_PodPort = ''8081'',
                     pt_URL = \<lparr>url_Scheme = ''http'',
                               url_Host = dispatcher_name kc @ ''.'' @ dispatcherNamespace,
                               url_Path = ''/'' @ kc_Namespace kc @ ''/'' @ kc_Name kc\<rparr>\<rparr>))"

lemma ListProbeTargets_finite: "finite_target (ListProbeTargets lister)"
  by (auto simp: finite_target_def ListProbeTargets_def Let_def split: sum.splits if_splits)

lemma ListProbeTargets_nonempty: "ListProbeTargets lister kc = Inr t \<Longrightarrow> pt_PodIPs t \<noteq> {}"
  by (auto simp: ListProbeTargets_def Let_def split: sum.splits if_splits)

section \<open>Which events are handled\<close>

text \<open>\<open>LabelFilterFunc\<close>, \<open>ChainFilterFuncs\<close> and \<open>FilterControllerGK\<close> on the metadata of an object.\<close>

definition LabelFilterFunc :: "string \<Rightarrow> string \<Rightarrow> bool \<Rightarrow> ObjectMeta \<Rightarrow> bool" where
  "LabelFilterFunc label value allowUnset mo =
     (case om_Labels mo label of Some v \<Rightarrow> v = value | None \<Rightarrow> allowUnset)"

definition ChainFilterFuncs :: "(ObjectMeta \<Rightarrow> bool) list \<Rightarrow> ObjectMeta \<Rightarrow> bool" where
  "ChainFilterFuncs funcs mo = list_all (\<lambda>f. f mo) funcs"

definition FilterControllerGK :: "string \<Rightarrow> string \<Rightarrow> ObjectMeta \<Rightarrow> bool" where
  "FilterControllerGK grp kind object =
     (case find or_Controller (om_OwnerReferences object) of
        None \<Rightarrow> False
      | Some owner \<Rightarrow>
          (case go_split CHR ''/'' (or_APIVersion owner) of
             [v] \<Rightarrow> grp = '''' \<and> or_Kind owner = kind
           | [g, v] \<Rightarrow> g = grp \<and> or_Kind owner = kind
           | _ \<Rightarrow> False))"

definition channelLabelKey :: string where "channelLabelKey = ''messaging.optum.dev/channel''"
definition channelLabelValue :: string where "channelLabelValue = ''kafka-channel''"
definition roleLabelKey :: string where "roleLabelKey = ''messaging.optum.dev/role''"
definition roleLabelValue :: string where "roleLabelValue = ''dispatcher''"

definition podFilter :: "ObjectMeta \<Rightarrow> bool" where
  "podFilter = ChainFilterFuncs [LabelFilterFunc channelLabelKey channelLabelValue False,
                                 LabelFilterFunc roleLabelKey roleLabelValue False]"

definition ownedFilter :: "ObjectMeta \<Rightarrow> bool" where
  "ownedFilter = FilterControllerGK GroupName ''KafkaTopicChannel''"

text \<open>The metadata of a pod that the deployment's template produces carries the template's labels.\<close>

definition pod_of :: "Deployment \<Rightarrow> string \<Rightarrow> ObjectMeta" where
  "pod_of d name = zero_ObjectMeta\<lparr>om_Name := name, om_Namespace := om_Namespace (dp_Meta d),
     om_Labels := dp_PodLabels d\<rparr>"

text \<open>A service selects the pods of its namespace that carry all labels of its selector.\<close>

definition selects :: "Service \<Rightarrow> ObjectMeta \<Rightarrow> bool" where
  "selects svc pod \<longleftrightarrow>
     om_Namespace pod = om_Namespace (sv_Meta svc) \<and> ssp_Selector (sv_Spec svc) \<subseteq>\<^sub>m om_Labels pod"

lemma podFilter_dispatcher: "\<not> podFilter (pod_of (MakeDispatcher args) name)"
  by (simp add: podFilter_def ChainFilterFuncs_def LabelFilterFunc_def pod_of_def MakeDispatcher_def
      dispatcherLabels_def channelLabelKey_def channelLabelValue_def)

lemma ownedFilter_NewControllerRef:
  "om_OwnerReferences mo = [NewControllerRef kc] \<Longrightarrow> ownedFilter mo"
  by (simp add: ownedFilter_def FilterControllerGK_def NewControllerRef_def GetGroupVersionKind_def
      SchemeGroupVersion_def GroupName_def)

section \<open>Main properties\<close>

text \<open>
  The service of a dispatcher selects the dispatcher pods of every channel in the namespace, since
  the selector and the labels of the pods do not mention the channel.
\<close>

lemma dispatcher_services_share_pods:
  "selects (MakeDispatcherService namespace kc) (pod_of (MakeDispatcher args) name) \<longleftrightarrow>
     da_DispatcherNamespace args = namespace"
  by (simp add: selects_def MakeDispatcherService_def pod_of_def MakeDispatcher_def)

text \<open>
  The deployment and both services that the controller creates are owned by the channel, so their
  events resync the channels; an object without a controller reference (as the endpoints of a service)
  does not pass the filter.
\<close>

lemma owned_objects_watched:
  "ownedFilter (dp_Meta (MakeDispatcher args)) \<and> ownedFilter (sv_Meta (MakeDispatcherService namespace kc)) \<and>
   (\<forall>svc. MakeK8sService kc [ExternalService domain namespace service] = Inr svc \<longrightarrow> ownedFilter (sv_Meta svc)) \<and>
   (\<forall>mo. find or_Controller (om_OwnerReferences mo) = None \<longrightarrow> \<not> ownedFilter mo)"
proof -
  have "\<not> ownedFilter mo" if "find or_Controller (om_OwnerReferences mo) = None" for mo
    using that by (simp add: ownedFilter_def FilterControllerGK_def)
  then show ?thesis
    by (auto simp: MakeDispatcher_def MakeDispatcherService_def MakeK8sService_def ExternalService_def
        intro!: ownedFilter_NewControllerRef)
qed

end
