(* ===== verification/Validation.thy ===== *)
theory Validation
  imports ApiTypes
begin

text \<open>
  Validation and defaulting of a channel (\<open>kafka_channel_validation.go\<close>,
  \<open>kafka_channel_defaults.go\<close>) with the field errors of \<open>knative.dev/pkg/apis\<close>
  (\<open>field_error.go\<close>) that validation collects. A nil \<open>*FieldError\<close> is \<open>None\<close>.
\<close>

section \<open>Field errors\<close>

datatype FieldError =
  FieldError (fe_Message: string) (fe_Paths: "string list") (fe_Details: string) (fe_errors: "FieldError list")

definition isEmpty :: "FieldError option \<Rightarrow> bool" where
  "isEmpty fe =
     (case fe of
        None \<Rightarrow> True
      | Some f \<Rightarrow> fe_Message f = '''' \<and> fe_Details f = '''' \<and> fe_errors f = [] \<and> fe_Paths f = [])"

definition Also :: "FieldError option \<Rightarrow> FieldError option list \<Rightarrow> FieldError option" where
  "Also fe errs =
     (if length errs = 0 \<or> length errs = 1 \<and> isEmpty (hd errs) then fe
      else
        let base = (case fe of Some f \<Rightarrow> if isEmpty fe then FieldError '''' [] '''' [] else f
                    | None \<Rightarrow> FieldError '''' [] '''' []);
            newErr = FieldError (fe_Message base) (fe_Paths base) (fe_Details base)
                       (fe_errors base @ map the (filter (\<lambda>e. \<not> isEmpty e) errs))
        in if isEmpty (Some newErr) then None else Some newErr)"

definition isIndex :: "string \<Rightarrow> bool" where
  "isIndex part \<longleftrightarrow> part \<noteq> [] \<and> hd part = CHR ''['' \<and> last part = CHR '']''"

definition asKey :: "string \<Rightarrow> string" where
  "asKey key = ''['' @ key @ '']''"

fun flatten_loop :: "string list \<Rightarrow> string list \<Rightarrow> string list" where
  "flatten_loop [] newPath = newPath"
| "flatten_loop (p # ps) newPath =
     (if p = '''' then flatten_loop ps newPath
      else if newPath \<noteq> [] \<and> isIndex p
      then flatten_loop ps (butlast newPath @ [last newPath @ p])
      else flatten_loop ps (newPath @ [p]))"

definition flatten :: "string list \<Rightarrow> string" where
  "flatten path = go_join ''.'' (flatten_loop (concat (map (go_split CHR ''.'') path)) [])"

primrec ViaField_aux :: "string list \<Rightarrow> FieldError \<Rightarrow> FieldError option" where
  "ViaField_aux prefix (FieldError message paths details errs) =
     foldl (\<lambda>newErr e. Also newErr [e])
       (Some (FieldError message (map (\<lambda>oldPath. flatten (prefix @ [oldPath])) paths) details []))
       (map (ViaField_aux prefix) errs)"

definition ViaField :: "string list \<Rightarrow> FieldError option \<Rightarrow> FieldError option" where
  "ViaField prefix fe = (case fe of None \<Rightarrow> None | Some f \<Rightarrow> ViaField_aux prefix f)"

definition ViaFieldKey :: "string \<Rightarrow> string \<Rightarrow> FieldError option \<Rightarrow> FieldError option" where
  "ViaFieldKey field key fe = ViaField [field] (ViaField [asKey key] fe)"

primrec normalized_aux :: "FieldError \<Rightarrow> FieldError list" where
  "normalized_aux (FieldError message paths details errs) =
     (if message \<noteq> '''' then [FieldError message paths details []] else []) @
     concat (map normalized_aux errs)"

definition normalized :: "FieldError option \<Rightarrow> FieldError list" where
  "normalized fe = (case fe of None \<Rightarrow> [] | Some f \<Rightarrow> normalized_aux f)"

text \<open>
  \<open>merge\<close> collects the errors in a map keyed by message and details (here an association list
  in the order of insertion, since the result is sorted by both afterwards), joins the paths of
  equal keys, and sorts the paths and the errors.
\<close>

definition mergePaths :: "string list \<Rightarrow> string list \<Rightarrow> string list" where
  "mergePaths a b = foldl (\<lambda>newPaths bi. if bi \<in> set newPaths then newPaths else newPaths @ [bi]) a b"

definition fe_key :: "FieldError \<Rightarrow> string" where
  "fe_key e = fe_Message e @ ''-'' @ fe_Details e"

fun merge_insert :: "FieldError \<Rightarrow> FieldError list \<Rightarrow> FieldError list" where
  "merge_insert e [] = [e]"
| "merge_insert e (v # vs) =
     (if fe_key v = fe_key e
      then FieldError (fe_Message v) (mergePaths (fe_Paths v) (fe_Paths e)) (fe_Details v) (fe_errors v) # vs
      else v # merge_insert e vs)"

definition merge_errors :: "FieldError list \<Rightarrow> FieldError list" where
  "merge_errors errs =
     sort_slice (\<lambda>a b. if fe_Message a = fe_Message b then fe_Details a < fe_Details b
                       else fe_Message a < fe_Message b)
       (map (\<lambda>v. FieldError (fe_Message v) (sort_slice (<) (fe_Paths v)) (fe_Details v) (fe_errors v))
         (foldl (\<lambda>m e. merge_insert e m) [] errs))"

definition fe_Error :: "FieldError option \<Rightarrow> string" where
  "fe_Error fe =
     go_join [CHR 0x0A]
       (map (\<lambda>e. if fe_Details e = '''' then fe_Message e @ '': '' @ go_join '', '' (fe_Paths e)
                 else fe_Message e @ '': '' @ go_join '', '' (fe_Paths e) @ [CHR 0x0A] @ fe_Details e)
         (merge_errors (normalized fe)))"

definition ErrMissingField :: "string list \<Rightarrow> FieldError" where
  "ErrMissingField fieldPaths = FieldError ''missing field(s)'' fieldPaths '''' []"

definition ErrInvalidValue :: "string \<Rightarrow> string \<Rightarrow> FieldError" where
  "ErrInvalidValue value fieldPath = FieldError (''invalid value: '' @ value) [fieldPath] '''' []"

section \<open>Validation\<close>

abbreviation (input) ScopeAnnotationKey :: string where
  "ScopeAnnotationKey \<equiv> ''eventing.knative.dev/scope''"

text \<open>The loop over the subscribers, from the index \<open>i\<close> on.\<close>

fun spec_Validate_subs :: "nat \<Rightarrow> SubscriberSpec list \<Rightarrow> FieldError option \<Rightarrow> FieldError option" where
  "spec_Validate_subs i [] errs = errs"
| "spec_Validate_subs i (subscriber # subs) errs =
     spec_Validate_subs (Suc i) subs
       (if ss_ReplyURI subscriber = None \<and> ss_SubscriberURI subscriber = None
        then
          let fe = ErrMissingField [''replyURI'', ''subscriberURI''];
              fe = FieldError (fe_Message fe) (fe_Paths fe) ''expected at least one of, got none'' (fe_errors fe)
          in Also errs
               [ViaField [''subscribable''] (ViaField [''subscriber['' @ itoa (int i) @ '']''] (Some fe))]
        else errs)"

definition spec_Validate :: "KafkaTopicChannelSpec \<Rightarrow> FieldError option" where
  "spec_Validate cs =
     (let errs = None;
          errs = (if sint (sp_NumPartitions cs) \<le> 0
                  then Also errs [Some (ErrInvalidValue (itoa (sint (sp_NumPartitions cs))) ''numPartitions'')]
                  else errs);
          errs = (if sint (sp_ReplicationFactor cs) \<le> 0
                  then Also errs [Some (ErrInvalidValue (itoa (sint (sp_ReplicationFactor cs))) ''replicationFactor'')]
                  else errs)
      in spec_Validate_subs 0 (sp_Subscribers cs) errs)"

definition Validate :: "KafkaTopicChannel \<Rightarrow> FieldError option" where
  "Validate c =
     (let errs = ViaField [''spec''] (spec_Validate (kc_Spec c))
      in case om_Annotations (kc_Meta c) of
           None \<Rightarrow> errs
         | Some annotations \<Rightarrow>
             (case annotations ScopeAnnotationKey of
                None \<Rightarrow> errs
              | Some scope \<Rightarrow>
                  if scope \<noteq> ''namespace'' \<and> scope \<noteq> ''cluster'' then
                    let iv = ErrInvalidValue scope '''';
                        iv = FieldError (fe_Message iv) (fe_Paths iv)
                               (''expected either '' @ [CHR 0x27] @ ''cluster'' @ [CHR 0x27] @ '' or '' @ [CHR 0x27]
                                 @ ''namespace'' @ [CHR 0x27]) (fe_errors iv)
                    in Also errs [ViaField [''metadata''] (ViaFieldKey ''annotations'' ScopeAnnotationKey (Some iv))]
                  else errs))"

section \<open>Defaults\<close>

abbreviation (input) SubscribableDuckVersionAnnotation :: string where
  "SubscribableDuckVersionAnnotation \<equiv> ''messaging.knative.dev/subscribable''"

definition spec_SetDefaults :: "KafkaTopicChannelSpec \<Rightarrow> KafkaTopicChannelSpec" where
  "spec_SetDefaults cs =
     (let cs1 = (if sp_NumPartitions cs = 0 then cs\<lparr>sp_NumPartitions := 1\<rparr> else cs)
      in if sp_ReplicationFactor cs1 = 0 then cs1\<lparr>sp_ReplicationFactor := 1\<rparr> else cs1)"

definition SetDefaults :: "KafkaTopicChannel \<Rightarrow> KafkaTopicChannel" where
  "SetDefaults c =
     (let annotations = (case om_Annotations (kc_Meta c) of None \<Rightarrow> Map.empty | Some a \<Rightarrow> a);
          meta = (kc_Meta c)\<lparr>om_Annotations := Some (annotations(SubscribableDuckVersionAnnotation \<mapsto> ''v1''))\<rparr>
      in c\<lparr>kc_Meta := meta, kc_Spec := spec_SetDefaults (kc_Spec c)\<rparr>)"

section \<open>The errors that validation reports\<close>

text \<open>The paths of the offending fields, in the order validation finds them.\<close>

fun subscriber_paths :: "nat \<Rightarrow> SubscriberSpec list \<Rightarrow> string list list" where
  "subscriber_paths i [] = []"
| "subscriber_paths i (s # ss) =
     (if ss_ReplyURI s = None \<and> ss_SubscriberURI s = None
      then [map (\<lambda>f. ''spec.subscribable.subscriber['' @ itoa (int i) @ '']'' @ f) [''.replyURI'', ''.subscriberURI'']]
      else []) @ subscriber_paths (Suc i) ss"

definition bad_scope :: "KafkaTopicChannel \<Rightarrow> bool" where
  "bad_scope c =
     (case om_Annotations (kc_Meta c) of
        None \<Rightarrow> False
      | Some a \<Rightarrow> (case a ScopeAnnotationKey of None \<Rightarrow> False | Some s \<Rightarrow> s \<notin> {''namespace'', ''cluster''}))"

definition violation_paths :: "KafkaTopicChannel \<Rightarrow> string list list" where
  "violation_paths c =
     (if sint (sp_NumPartitions (kc_Spec c)) \<le> 0 then [[''spec.numPartitions'']] else []) @
     (if sint (sp_ReplicationFactor (kc_Spec c)) \<le> 0 then [[''spec.replicationFactor'']] else []) @
     subscriber_paths 0 (sp_Subscribers (kc_Spec c)) @
     (if bad_scope c then [[''metadata.annotations.[eventing.knative.dev/scope]'']] else [])"

text \<open>The leaf \<open>l\<close> seen through the fields \<open>prefix\<close>.\<close>

definition relabel :: "string list \<Rightarrow> FieldError \<Rightarrow> FieldError" where
  "relabel prefix l = FieldError (fe_Message l) (map (\<lambda>p. flatten (prefix @ [p])) (fe_Paths l)) (fe_Details l) []"

lemma normalized_isEmpty: "isEmpty fe \<Longrightarrow> normalized fe = []"
proof (cases fe)
  case None
  then show ?thesis by (simp add: normalized_def)
next
  case (Some f)
  assume "isEmpty fe"
  with Some show ?thesis by (cases f) (simp add: isEmpty_def normalized_def)
qed

lemma normalized_aux_errors:
  "normalized_aux (FieldError m p d (es @ es')) = normalized_aux (FieldError m p d es) @ concat (map normalized_aux es')"
  by simp

lemma normalized_Also: "normalized (Also fe [e]) = normalized fe @ normalized e"
proof (cases "isEmpty e")
  case True
  then show ?thesis by (simp add: Also_def normalized_isEmpty)
next
  case False
  then obtain x where x: "e = Some x" by (cases e) (auto simp: isEmpty_def)
  define base where "base = (case fe of Some f \<Rightarrow> if isEmpty fe then FieldError '''' [] '''' [] else f
                             | None \<Rightarrow> FieldError '''' [] '''' [])"
  have base: "normalized (Some base) = normalized fe"
    by (auto simp: base_def normalized_isEmpty split: option.split) (simp_all add: normalized_def)
  have "Also fe [e] = Some (FieldError (fe_Message base) (fe_Paths base) (fe_Details base) (fe_errors base @ [x]))"
    using False by (simp add: Also_def base_def [symmetric] x Let_def) (simp add: isEmpty_def)
  then have "normalized (Also fe [e]) = normalized (Some base) @ normalized_aux x"
    by (cases base) (simp add: normalized_def)
  then show ?thesis by (simp add: base) (simp add: x normalized_def)
qed

lemma normalized_foldl_Also:
  "normalized (foldl (\<lambda>newErr e. Also newErr [e]) fe es) = normalized fe @ concat (map normalized es)"
  by (induction es arbitrary: fe) (simp_all add: normalized_Also)

lemma normalized_ViaField_aux: "normalized (ViaField_aux prefix f) = map (relabel prefix) (normalized_aux f)"
proof (induction f)
  case (FieldError m ps d es)
  have "concat (map normalized (map (ViaField_aux prefix) es)) = map (relabel prefix) (concat (map normalized_aux es))"
    using FieldError.IH by (induction es) auto
  then show ?case
    by (simp add: normalized_foldl_Also) (simp add: normalized_def relabel_def)
qed

lemma normalized_ViaField: "normalized (ViaField prefix fe) = map (relabel prefix) (normalized fe)"
  by (cases fe) (simp_all add: ViaField_def normalized_ViaField_aux, simp_all add: normalized_def)

subsection \<open>Paths\<close>

lemma digit_char_cases: "n < 10 \<Longrightarrow> digit_char n \<in> set ''0123456789''"
  unfolding digit_char_def by (rule nth_mem) simp

lemma set_itoa_nat: "set (itoa_nat n) \<subseteq> set ''0123456789''"
proof (induction n rule: itoa_nat.induct)
  case (1 n)
  then show ?case
    using digit_char_cases [of n] digit_char_cases [of "n mod 10"]
    by (subst itoa_nat.simps) auto
qed

lemma itoa_no_dot [simp]: "CHR ''.'' \<notin> set (itoa (int i))"
  using subsetD [OF set_itoa_nat [of i]] by (auto simp: itoa_def)

text \<open>A path whose components are field names.\<close>

definition plain :: "string \<Rightarrow> bool" where
  "plain p \<longleftrightarrow> (\<forall>c \<in> set (go_split CHR ''.'' p). c \<noteq> '''' \<and> \<not> isIndex c)"

lemma flatten_loop_plain: "\<forall>c \<in> set ps. c \<noteq> '''' \<and> \<not> isIndex c \<Longrightarrow> flatten_loop ps acc = acc @ ps"
  by (induction ps arbitrary: acc) auto

lemma flatten_plain:
  assumes "CHR ''.'' \<notin> set w" and "w \<noteq> ''''" and "\<not> isIndex w" and "plain p"
  shows "flatten [w, p] = w @ ''.'' @ p" and "plain (w @ ''.'' @ p)"
proof -
  have s: "go_split CHR ''.'' (w @ CHR ''.'' # p) = w # go_split CHR ''.'' p"
    using assms(1) by (rule go_split_append)
  have "flatten_loop (w # go_split CHR ''.'' p) [] = w # go_split CHR ''.'' p"
    using assms by (subst flatten_loop_plain) (auto simp: plain_def)
  then show "flatten [w, p] = w @ ''.'' @ p"
    using assms(1) by (simp add: flatten_def go_split_no_sep go_join_Cons go_join_split)
  from assms s show "plain (w @ ''.'' @ p)" by (simp add: plain_def)
qed

lemma plain_word: "CHR ''.'' \<notin> set w \<Longrightarrow> w \<noteq> '''' \<Longrightarrow> \<not> isIndex w \<Longrightarrow> plain w"
  by (simp add: plain_def go_split_no_sep)

lemma subscriber_path:
  assumes "f \<in> {''replyURI'', ''subscriberURI''}"
  shows "flatten [''spec'', flatten [''subscribable'', flatten [''subscriber['' @ itoa (int i) @ '']'', f]]] =
         ''spec.subscribable.subscriber['' @ itoa (int i) @ ''].'' @ f"
proof -
  let ?w = "''subscriber['' @ itoa (int i) @ '']''"
  have f: "plain f" using assms by (auto intro!: plain_word simp: isIndex_def)
  have w: "CHR ''.'' \<notin> set ?w" "?w \<noteq> ''''" "\<not> isIndex ?w" by (auto simp: isIndex_def)
  note p1 = flatten_plain [OF w f]
  have "CHR ''.'' \<notin> set ''subscribable''" "''subscribable'' \<noteq> ''''" "\<not> isIndex ''subscribable''"
    by (auto simp: isIndex_def)
  note p2 = flatten_plain [OF this p1(2)]
  have "CHR ''.'' \<notin> set ''spec''" "''spec'' \<noteq> ''''" "\<not> isIndex ''spec''"
    by (auto simp: isIndex_def)
  note p3 = flatten_plain [OF this p2(2)]
  show ?thesis unfolding p1(1) p2(1) p3(1) by simp
qed

lemma spec_paths:
  "flatten [''spec'', ''numPartitions''] = ''spec.numPartitions''"
  "flatten [''spec'', ''replicationFactor''] = ''spec.replicationFactor''"
  by (simp_all add: flatten_def isIndex_def)

lemma scope_path:
  "flatten [''metadata'', flatten [''annotations'', flatten [asKey ScopeAnnotationKey, '''']]] =
   ''metadata.annotations.[eventing.knative.dev/scope]''"
  by (simp add: flatten_def asKey_def isIndex_def)

subsection \<open>What is reported\<close>

lemma relabel_paths: "fe_Paths (relabel prefix l) = map (\<lambda>p. flatten (prefix @ [p])) (fe_Paths l)"
  by (simp add: relabel_def)

lemma normalized_leaf: "m \<noteq> '''' \<Longrightarrow> normalized (Some (FieldError m p d [])) = [FieldError m p d []]"
  by (simp add: normalized_def)

lemma spec_Validate_subs_paths:
  "map fe_Paths (map (relabel [''spec'']) (normalized (spec_Validate_subs i ss errs))) =
   map fe_Paths (map (relabel [''spec'']) (normalized errs)) @ subscriber_paths i ss"
proof (induction i ss errs rule: spec_Validate_subs.induct)
  case (1 i errs)
  then show ?case by simp
next
  case (2 i s ss errs)
  have "map fe_Paths (map (relabel [''spec''])
          (normalized (ViaField [''subscribable'']
             (ViaField [''subscriber['' @ itoa (int i) @ '']'']
               (Some (FieldError ''missing field(s)'' [''replyURI'', ''subscriberURI'']
                  ''expected at least one of, got none'' []))))))
      = [[''spec.subscribable.subscriber['' @ itoa (int i) @ ''].replyURI'',
          ''spec.subscribable.subscriber['' @ itoa (int i) @ ''].subscriberURI'']]"
    using subscriber_path [of "''replyURI''" i] subscriber_path [of "''subscriberURI''" i]
    by (simp add: normalized_ViaField normalized_leaf relabel_paths)
  then show ?case
    using 2 by (simp add: normalized_Also ErrMissingField_def Let_def)
qed

lemma spec_Validate_paths:
  "map fe_Paths (normalized (ViaField [''spec''] (spec_Validate cs))) =
     (if sint (sp_NumPartitions cs) \<le> 0 then [[''spec.numPartitions'']] else []) @
     (if sint (sp_ReplicationFactor cs) \<le> 0 then [[''spec.replicationFactor'']] else []) @
     subscriber_paths 0 (sp_Subscribers cs)"
proof -
  have none: "normalized None = []" by (simp add: normalized_def)
  have leaf: "normalized (Some (ErrInvalidValue v p)) = [ErrInvalidValue v p]"
    "map (\<lambda>q. flatten ([''spec''] @ [q])) (fe_Paths (ErrInvalidValue v p)) = [flatten [''spec'', p]]" for v p
    by (simp_all add: ErrInvalidValue_def normalized_leaf)
  show ?thesis
    unfolding normalized_ViaField spec_Validate_def Let_def spec_Validate_subs_paths
    by (simp add: normalized_Also none leaf(1) relabel_paths leaf(2) [simplified] spec_paths)
qed

lemma Validate_paths: "map fe_Paths (normalized (Validate c)) = violation_paths c"
proof -
  have "map fe_Paths (normalized (ViaField [''metadata''] (ViaFieldKey ''annotations'' ScopeAnnotationKey
          (Some (FieldError (''invalid value: '' @ s) [''''] d []))))) =
        [[''metadata.annotations.[eventing.knative.dev/scope]'']]" for s d
    using scope_path by (simp add: ViaFieldKey_def normalized_ViaField normalized_leaf relabel_paths)
  then show ?thesis
    by (auto simp: Validate_def violation_paths_def bad_scope_def spec_Validate_paths normalized_Also
        ErrInvalidValue_def Let_def split: option.split)
qed

text \<open>A report is nil exactly when nothing is wrong.\<close>

lemma Also_None_iff: "Also fe [e] = None \<longleftrightarrow> fe = None \<and> isEmpty e"
proof (cases "isEmpty e")
  case False
  then obtain x where "e = Some x" by (cases e) (auto simp: isEmpty_def)
  with False show ?thesis by (simp add: Also_def Let_def) (simp add: isEmpty_def)
qed (simp add: Also_def)

lemma ViaField_aux_not_None: "ViaField_aux prefix f \<noteq> None"
proof -
  have "fe \<noteq> None \<Longrightarrow> foldl (\<lambda>newErr e. Also newErr [e]) fe es \<noteq> None" for fe es
    by (induction es arbitrary: fe) (simp_all add: Also_None_iff del: not_None_eq)
  then show ?thesis by (cases f) (simp del: not_None_eq)
qed

lemma ViaField_None_iff: "ViaField prefix fe = None \<longleftrightarrow> fe = None"
  by (cases fe) (simp_all add: ViaField_def ViaField_aux_not_None)

lemma normalized_not_isEmpty: "normalized fe \<noteq> [] \<Longrightarrow> \<not> isEmpty fe"
  using normalized_isEmpty by blast

lemma spec_Validate_subs_None_iff:
  "spec_Validate_subs i ss errs = None \<longleftrightarrow>
     errs = None \<and> (\<forall>s \<in> set ss. ss_ReplyURI s \<noteq> None \<or> ss_SubscriberURI s \<noteq> None)"
proof (induction i ss errs rule: spec_Validate_subs.induct)
  case (1 i errs)
  then show ?case by simp
next
  case (2 i s ss errs)
  have "\<not> isEmpty (ViaField p (ViaField q (Some (FieldError ''missing field(s)'' ps d []))))" for p q ps d
    by (rule normalized_not_isEmpty) (simp add: normalized_ViaField normalized_leaf)
  with 2 show ?case by (auto simp: Also_None_iff ErrMissingField_def Let_def)
qed

lemma Validate_None_iff:
  "Validate c = None \<longleftrightarrow>
     0 < sint (sp_NumPartitions (kc_Spec c)) \<and> 0 < sint (sp_ReplicationFactor (kc_Spec c)) \<and>
     (\<forall>s \<in> set (sp_Subscribers (kc_Spec c)). ss_ReplyURI s \<noteq> None \<or> ss_SubscriberURI s \<noteq> None) \<and>
     \<not> bad_scope c"
proof -
  have e1: "\<not> isEmpty (Some (ErrInvalidValue v p))" for v p by (simp add: isEmpty_def ErrInvalidValue_def)
  have e2: "\<not> isEmpty (ViaField q (ViaFieldKey f k (Some (FieldError (''invalid value: '' @ s) ps d []))))" for q f k s ps d
    by (rule normalized_not_isEmpty) (simp add: ViaFieldKey_def normalized_ViaField normalized_leaf)
  have "spec_Validate (kc_Spec c) = None \<longleftrightarrow>
     0 < sint (sp_NumPartitions (kc_Spec c)) \<and> 0 < sint (sp_ReplicationFactor (kc_Spec c)) \<and>
     (\<forall>s \<in> set (sp_Subscribers (kc_Spec c)). ss_ReplyURI s \<noteq> None \<or> ss_SubscriberURI s \<noteq> None)"
    by (auto simp: spec_Validate_def Let_def spec_Validate_subs_None_iff Also_None_iff e1)
  then show ?thesis
    using e2 by (auto simp: Validate_def Let_def ViaField_None_iff Also_None_iff bad_scope_def
        ErrInvalidValue_def split: option.split)
qed

section \<open>Defaulting\<close>

lemma SetDefaults_idempotent: "SetDefaults (SetDefaults c) = SetDefaults c"
  by (simp add: SetDefaults_def spec_SetDefaults_def Let_def)

lemma SetDefaults_frame [simp]:
  "kc_Status (SetDefaults c) = kc_Status c" "kc_Name (SetDefaults c) = kc_Name c"
  "kc_Namespace (SetDefaults c) = kc_Namespace c" "om_UID (kc_Meta (SetDefaults c)) = om_UID (kc_Meta c)"
  "sp_Subscribers (kc_Spec (SetDefaults c)) = sp_Subscribers (kc_Spec c)"
  by (simp_all add: SetDefaults_def spec_SetDefaults_def Let_def)

lemma SetDefaults_counts:
  "sint (sp_NumPartitions (kc_Spec (SetDefaults c))) =
     (if sp_NumPartitions (kc_Spec c) = 0 then 1 else sint (sp_NumPartitions (kc_Spec c)))"
  "sint (sp_ReplicationFactor (kc_Spec (SetDefaults c))) =
     (if sp_ReplicationFactor (kc_Spec c) = 0 then 1 else sint (sp_ReplicationFactor (kc_Spec c)))"
  by (simp_all add: SetDefaults_def spec_SetDefaults_def Let_def)

lemma SetDefaults_scope: "bad_scope (SetDefaults c) = bad_scope c"
  by (simp add: bad_scope_def SetDefaults_def Let_def split: option.split)

section \<open>Main properties\<close>

text \<open>
  C31: Validation reports every violation and nothing else: the normalised errors name, in order, the
  paths of exactly the offending fields (number of partitions, replication factor, every subscriber
  without a subscriber and reply URI, the scope annotation).
\<close>

theorem validation_reports_all: "map fe_Paths (normalized (Validate c)) = violation_paths c"
  by (rule Validate_paths)

text \<open>
  A channel is accepted exactly when its numbers of partitions and replicas are positive as signed
  integers, every subscriber has a subscriber or a reply URI, and a scope annotation, where there is
  one, is \<open>cluster\<close> or \<open>namespace\<close>.
\<close>

lemma validation_accepts:
  "Validate c = None \<longleftrightarrow>
     0 < sint (sp_NumPartitions (kc_Spec c)) \<and> 0 < sint (sp_ReplicationFactor (kc_Spec c)) \<and>
     (\<forall>s \<in> set (sp_Subscribers (kc_Spec c)). ss_ReplyURI s \<noteq> None \<or> ss_SubscriberURI s \<noteq> None) \<and>
     \<not> bad_scope c"
  by (rule Validate_None_iff)

text \<open>
  Defaulting fills in what validation would reject as zero and is idempotent: afterwards a count
  is 1 if it was 0 and unchanged otherwise, so the defaulted channel is rejected for its counts only
  if one was negative; subscribers, identity and the scope annotation are kept.
\<close>

lemma defaults_then_valid:
  "SetDefaults (SetDefaults c) = SetDefaults c \<and>
   (Validate (SetDefaults c) = None \<longleftrightarrow>
      0 \<le> sint (sp_NumPartitions (kc_Spec c)) \<and> 0 \<le> sint (sp_ReplicationFactor (kc_Spec c)) \<and>
      (\<forall>s \<in> set (sp_Subscribers (kc_Spec c)). ss_ReplyURI s \<noteq> None \<or> ss_SubscriberURI s \<noteq> None) \<and>
      \<not> bad_scope c) \<and>
   kc_Status (SetDefaults c) = kc_Status c \<and> kc_Name (SetDefaults c) = kc_Name c \<and>
   kc_Namespace (SetDefaults c) = kc_Namespace c"
proof -
  have z: "sint x = 0 \<longleftrightarrow> x = 0" for x :: "'w::len word"
    by (rule signed_eq_0_iff)
  have p: "0 < sint (sp_NumPartitions (kc_Spec (SetDefaults c))) \<longleftrightarrow> 0 \<le> sint (sp_NumPartitions (kc_Spec c))"
    using z [of "sp_NumPartitions (kc_Spec c)"] by (auto simp: SetDefaults_counts)
  have q: "0 < sint (sp_ReplicationFactor (kc_Spec (SetDefaults c))) \<longleftrightarrow> 0 \<le> sint (sp_ReplicationFactor (kc_Spec c))"
    using z [of "sp_ReplicationFactor (kc_Spec c)"] by (auto simp: SetDefaults_counts)
  show ?thesis
    by (simp add: SetDefaults_idempotent Validate_None_iff p q SetDefaults_scope)
qed

end
