(* ===== verification/Controller.thy ===== *)
theory Controller
  imports Wiring Validation
begin

text \<open>
  The controller's reconciler (\<open>controller/kafkachannel.go\<close>): it validates a channel, makes sure that
  the dispatcher's objects exist, propagates their health into the conditions of the channel, and
  reports the subscribers that the prober finds ready. The listers and the API server are arguments;
  what the reconciler asks of them is recorded as effects, in order.
\<close>

section \<open>The environment and the state of a reconciliation\<close>

datatype effect =
    CreateServiceAccount ServiceAccount
  | CreateRoleBinding RoleBinding
  | CreateDeployment Deployment
  | UpdateDeployment Deployment
  | CreateService Service
  | UpdateService Service
  | PatchStatus string string string
  | RecordEvent string string string

text \<open>
  The fields of the \<open>Reconciler\<close>, the caches behind its listers (all but the deployments, which the
  reconciler writes to), and the answers of the API server. \<open>env_now\<close> is the clock: the time of the
  \<open>n\<close>-th marking.
\<close>

record env =
  env_systemNamespace :: string
  env_dispatcherImage :: string
  env_dispatcherServiceAccount :: string
  env_clusterDomain :: string
  env_now :: "nat \<Rightarrow> time"
  env_serviceAccountLister :: "string \<Rightarrow> string \<Rightarrow> go_error + ServiceAccount"
  env_roleBindingLister :: "string \<Rightarrow> string \<Rightarrow> go_error + RoleBinding"
  env_serviceLister :: "string \<Rightarrow> string \<Rightarrow> go_error + Service"
  env_endpointsLister :: EndpointsLister
  env_createServiceAccount :: "ServiceAccount \<Rightarrow> go_error + ServiceAccount"
  env_createRoleBinding :: "RoleBinding \<Rightarrow> go_error + RoleBinding"
  env_createDeployment :: "Deployment \<Rightarrow> go_error + Deployment"
  env_updateDeployment :: "Deployment \<Rightarrow> go_error + Deployment"
  env_createService :: "Service \<Rightarrow> go_error + Service"
  env_updateService :: "Service \<Rightarrow> go_error + Service"
  env_createPatch :: "KafkaTopicChannel \<Rightarrow> KafkaTopicChannel \<Rightarrow> go_error + string list"
  env_marshalPatch :: "string list \<Rightarrow> go_error + string"
  env_patch :: "string \<Rightarrow> go_error option"
  env_ord :: "ip set \<Rightarrow> ip list"

text \<open>
  The state: the channel object being reconciled, the deployments in the lister's cache, the status
  manager, the effects so far, and the number of markings so far.
\<close>

record rstate =
  rs_kc :: KafkaTopicChannel
  rs_deployments :: "string \<Rightarrow> string \<Rightarrow> go_error + Deployment"
  rs_statusManager :: Prober
  rs_effects :: "effect list"
  rs_marks :: nat

definition mark_status :: "env \<Rightarrow> (time \<Rightarrow> KafkaTopicChannelStatus \<Rightarrow> KafkaTopicChannelStatus) \<Rightarrow> rstate \<Rightarrow> rstate" where
  "mark_status env f s =
     s\<lparr>rs_kc := (rs_kc s)\<lparr>kc_Status := f (env_now env (rs_marks s)) (kc_Status (rs_kc s))\<rparr>,
       rs_marks := Suc (rs_marks s)\<rparr>"

definition emit :: "effect \<Rightarrow> rstate \<Rightarrow> rstate" where
  "emit e s = s\<lparr>rs_effects := rs_effects s @ [e]\<rparr>"

section \<open>Events\<close>

definition newReconciledNormal :: "string \<Rightarrow> string \<Rightarrow> go_error" where
  "newReconciledNormal namespace name =
     ReconcilerEvent ''Normal'' ''KafkaTopicChannelReconciled''
       (''KafkaTopicChannel reconciled: '' @ [CHR 0x22] @ namespace @ ''/'' @ name @ [CHR 0x22])"

definition newDeploymentWarn :: "go_error \<Rightarrow> go_error" where
  "newDeploymentWarn err = ReconcilerEvent ''Warning'' ''DispatcherDeploymentFailed''
     (''Reconciling dispatcher Deployment failed with: '' @ error_text err)"

definition newDispatcherServiceWarn :: "go_error \<Rightarrow> go_error" where
  "newDispatcherServiceWarn err = ReconcilerEvent ''Warning'' ''DispatcherServiceFailed''
     (''Reconciling dispatcher Service failed with: '' @ error_text err)"

definition newServiceAccountWarn :: "go_error \<Rightarrow> go_error" where
  "newServiceAccountWarn err = ReconcilerEvent ''Warning'' ''DispatcherServiceAccountFailed''
     (''Reconciling dispatcher ServiceAccount failed: '' @ error_text err)"

definition newRoleBindingWarn :: "go_error \<Rightarrow> go_error" where
  "newRoleBindingWarn err = ReconcilerEvent ''Warning'' ''DispatcherRoleBindingFailed''
     (''Reconciling dispatcher RoleBinding failed: '' @ error_text err)"

section \<open>The dispatcher's objects\<close>

definition reconcileServiceAccount :: "env \<Rightarrow> string \<Rightarrow> rstate \<Rightarrow> rstate \<times> (go_error + ServiceAccount)" where
  "reconcileServiceAccount env dispatcherNamespace s =
     (case env_serviceAccountLister env dispatcherNamespace (env_dispatcherServiceAccount env) of
        Inl err \<Rightarrow>
          if IsNotFound err then
            (let expected = MakeServiceAccount dispatcherNamespace (env_dispatcherServiceAccount env);
                 s1 = emit (CreateServiceAccount expected) s
             in case env_createServiceAccount env expected of
                  Inr sa \<Rightarrow>
                    (emit (RecordEvent ''Normal'' ''DispatcherServiceAccountCreated'' ''Dispatcher service account created'') s1,
                     Inr sa)
                | Inl err \<Rightarrow>
                    (mark_status env (\<lambda>now. MarkDispatcherFailed now ''DispatcherDeploymentFailed''
                       (''Failed to create the dispatcher service account: '' @ error_text err)) s1,
                     Inl (newServiceAccountWarn err)))
          else
            (mark_status env (\<lambda>now. MarkDispatcherUnknown now ''DispatcherServiceAccountFailed''
               (''Failed to get dispatcher service account: '' @ error_text err)) s,
             Inl (newServiceAccountWarn err))
      | Inr sa \<Rightarrow> (s, Inr sa))"

definition reconcileRoleBinding ::
  "env \<Rightarrow> string \<Rightarrow> string \<Rightarrow> string \<Rightarrow> ServiceAccount \<Rightarrow> rstate \<Rightarrow> rstate \<times> (go_error + RoleBinding)" where
  "reconcileRoleBinding env name ns clusterRoleName sa s =
     (case env_roleBindingLister env ns name of
        Inl err \<Rightarrow>
          if IsNotFound err then
            (let expected = MakeRoleBinding ns name sa clusterRoleName;
                 s1 = emit (CreateRoleBinding expected) s
             in case env_createRoleBinding env expected of
                  Inr rb \<Rightarrow>
                    (emit (RecordEvent ''Normal'' ''DispatcherRoleBindingCreated'' ''Dispatcher role binding created'') s1,
                     Inr rb)
                | Inl err \<Rightarrow>
                    (mark_status env (\<lambda>now. MarkDispatcherFailed now ''DispatcherDeploymentFailed''
                       (''Failed to create the dispatcher role binding: '' @ error_text err)) s1,
                     Inl (newRoleBindingWarn err)))
          else
            (mark_status env (\<lambda>now. MarkDispatcherUnknown now ''DispatcherRoleBindingFailed''
               (''Failed to get dispatcher role binding: '' @ error_text err)) s,
             Inl (newRoleBindingWarn err))
      | Inr rb \<Rightarrow> (s, Inr rb))"

text \<open>
  The deployment. On the branch where it exists, \<open>existing\<close> points into the object of the lister's
  cache, so the new image and the new number of replicas are written there before the update.
\<close>

definition store_deployment :: "string \<Rightarrow> string \<Rightarrow> Deployment \<Rightarrow> rstate \<Rightarrow> rstate" where
  "store_deployment ns name d s =
     s\<lparr>rs_deployments := (rs_deployments s)(ns := (rs_deployments s ns)(name := Inr d))\<rparr>"

definition propagate_deployment :: "env \<Rightarrow> Deployment \<Rightarrow> rstate \<Rightarrow> rstate" where
  "propagate_deployment env d = mark_status env (\<lambda>now. PropagateDispatcherStatus now (dp_Conditions d))"

definition update_deployment :: "env \<Rightarrow> Deployment \<Rightarrow> rstate \<Rightarrow> rstate \<times> (go_error + Deployment)" where
  "update_deployment env d s =
     (let s1 = emit (UpdateDeployment d) s in
      case env_updateDeployment env d of
        Inr d' \<Rightarrow>
          (propagate_deployment env d'
             (emit (RecordEvent ''Normal'' ''DispatcherDeploymentUpdated'' ''Dispatcher deployment updated'') s1), Inr d')
      | Inl err \<Rightarrow>
          (mark_status env (\<lambda>now. MarkServiceFailed now ''DispatcherDeploymentUpdateFailed''
             (''Failed to update the dispatcher deployment: '' @ error_text err)) s1,
           Inl (newDeploymentWarn err)))"

definition dispatcher_args :: "env \<Rightarrow> string \<Rightarrow> KafkaTopicChannel \<Rightarrow> DispatcherArgs" where
  "dispatcher_args env dispatcherNamespace kc =
     \<lparr>da_DispatcherScope = ''namespace'', da_DispatcherNamespace = dispatcherNamespace,
      da_Image = env_dispatcherImage env, da_Replicas = 1, da_ServiceAccount = env_dispatcherServiceAccount env,
      da_ConfigMapHash = '''', da_Channel = kc\<rparr>"

text \<open>A deployment read from the API server always has \<open>Replicas\<close>, which the server sets to 1 when it is absent; the code relies on it.\<close>

definition reconcile_deployment :: "env \<Rightarrow> string \<Rightarrow> rstate \<Rightarrow> rstate \<times> (go_error + Deployment)" where
  "reconcile_deployment env dispatcherNamespace s =
     (let kc = rs_kc s; name = dispatcher_name kc;
          expected = MakeDispatcher (dispatcher_args env dispatcherNamespace kc)
      in case rs_deployments s dispatcherNamespace name of
           Inl err \<Rightarrow>
             if IsNotFound err then
               (let s1 = emit (CreateDeployment expected) s in
                case env_createDeployment env expected of
                  Inr d \<Rightarrow>
                    (propagate_deployment env d
                       (emit (RecordEvent ''Normal'' ''DispatcherDeploymentCreated'' ''Dispatcher deployment created'') s1), Inr d)
                | Inl err \<Rightarrow>
                    (mark_status env (\<lambda>now. MarkDispatcherFailed now ''DispatcherDeploymentFailed''
                       (''Failed to create the dispatcher deployment: '' @ error_text err)) s1,
                     Inl (newDeploymentWarn err)))
             else
               (mark_status env (\<lambda>now. MarkDispatcherUnknown now ''DispatcherDeploymentFailed''
                  (''Failed to get dispatcher deployment: '' @ error_text err)) s, Inl err)
         | Inr d \<Rightarrow>
             (case FindContainer d DispatcherContainerName of
                None \<Rightarrow> update_deployment env expected s
              | Some i \<Rightarrow>
                  (case FindContainer expected DispatcherContainerName of
                     None \<Rightarrow> (s, Inl (ErrorText (''container '' @ DispatcherContainerName @
                        '' does not exist in expected dispatcher deployment. Cannot check if the deployment needs an update'')))
                   | Some j \<Rightarrow>
                       (let expectedImage = ct_Image (dp_Containers expected ! j);
                            existing = dp_Containers d ! i;
                            imageChanged = ct_Image existing \<noteq> expectedImage;
                            d1 = (if imageChanged
                                  then d\<lparr>dp_Containers := (dp_Containers d)[i := existing\<lparr>ct_Image := expectedImage\<rparr>]\<rparr>
                                  else d);
                            noReplicas = (dp_Replicas d1 = 0);
                            d2 = (if noReplicas then d1\<lparr>dp_Replicas := 1\<rparr> else d1);
                            s1 = store_deployment dispatcherNamespace name d2 s
                        in if imageChanged \<or> noReplicas then update_deployment env d2 s1
                           else (propagate_deployment env d2 s1, Inr d2)))))"

definition reconcileDispatcher :: "env \<Rightarrow> string \<Rightarrow> rstate \<Rightarrow> rstate \<times> (go_error + Deployment)" where
  "reconcileDispatcher env dispatcherNamespace s =
     (case reconcileServiceAccount env dispatcherNamespace s of
        (s1, Inl err) \<Rightarrow> (s1, Inl err)
      | (s1, Inr sa) \<Rightarrow>
          (case reconcileRoleBinding env ''kt-channel-dispatcher'' dispatcherNamespace ''kt-channel-dispatcher'' sa s1 of
             (s2, Inl err) \<Rightarrow> (s2, Inl err)
           | (s2, Inr _) \<Rightarrow>
               (case reconcileRoleBinding env (''kt-channel-dispatcher-'' @ dispatcherNamespace)
                       (env_systemNamespace env) ''eventing-config-reader'' sa s2 of
                  (s3, Inl err) \<Rightarrow> (s3, Inl err)
                | (s3, Inr _) \<Rightarrow> reconcile_deployment env dispatcherNamespace s3)))"

section \<open>The services\<close>

definition reconcileDispatcherService :: "env \<Rightarrow> string \<Rightarrow> rstate \<Rightarrow> rstate \<times> (go_error + Service)" where
  "reconcileDispatcherService env dispatcherNamespace s =
     (case env_serviceLister env dispatcherNamespace (dispatcher_name (rs_kc s)) of
        Inl err \<Rightarrow>
          if IsNotFound err then
            (let expected = MakeDispatcherService dispatcherNamespace (rs_kc s);
                 s1 = emit (CreateService expected) s
             in case env_createService env expected of
                  Inr svc \<Rightarrow>
                    (mark_status env MarkServiceTrue
                       (emit (RecordEvent ''Normal'' ''DispatcherServiceCreated'' ''Dispatcher service created'') s1), Inr svc)
                | Inl err \<Rightarrow>
                    (mark_status env (\<lambda>now. MarkServiceFailed now ''DispatcherServiceFailed''
                       (''Failed to create the dispatcher service: '' @ error_text err))
                       (emit (RecordEvent ''Warning'' ''DispatcherServiceFailed''
                          (''Failed to create the dispatcher service: '' @ error_text err)) s1), Inl err))
          else
            (mark_status env (\<lambda>now. MarkServiceUnknown now ''DispatcherServiceFailed''
               (''Failed to get dispatcher service: '' @ error_text err)) s,
             Inl (newDispatcherServiceWarn err))
      | Inr svc \<Rightarrow> (mark_status env MarkServiceTrue s, Inr svc))"

text \<open>The ownership check at the end of \<open>reconcileChannelService\<close>.\<close>

definition check_owner :: "env \<Rightarrow> Service \<Rightarrow> rstate \<Rightarrow> rstate \<times> (go_error + Service)" where
  "check_owner env svc s =
     (let channel = rs_kc s in
      if \<not> IsControlledBy (sv_Meta svc) (kc_Meta channel) then
        (let err = ErrorText (''kafkatopicchannel: '' @ kc_Namespace channel @ ''/'' @ kc_Name channel @
                     '' does not own Service: '' @ [CHR 0x22] @ om_Name (sv_Meta svc) @ [CHR 0x22])
         in (mark_status env (\<lambda>now. MarkChannelServiceFailed now ''ChannelServiceFailed''
               (''Channel Service failed: '' @ error_text err)) s, Inl err))
      else (s, Inr svc))"

definition reconcileChannelService :: "env \<Rightarrow> string \<Rightarrow> rstate \<Rightarrow> rstate \<times> (go_error + Service)" where
  "reconcileChannelService env dispatcherNamespace s =
     (let channel = rs_kc s;
          failed = (\<lambda>err. mark_status env (\<lambda>now. MarkChannelServiceFailed now ''ChannelServiceFailed''
                             (''Channel Service failed: '' @ error_text err)))
      in case MakeK8sService channel
                [ExternalService (env_clusterDomain env) dispatcherNamespace (dispatcher_name channel)] of
           Inl err \<Rightarrow> (failed err s, Inl err)
         | Inr expected \<Rightarrow>
             (case env_serviceLister env (kc_Namespace channel) (MakeChannelServiceName (kc_Name channel)) of
                Inl err \<Rightarrow>
                  if IsNotFound err then
                    (let s1 = emit (CreateService expected) s in
                     case env_createService env expected of
                       Inl err \<Rightarrow> (failed err s1, Inl err)
                     | Inr svc \<Rightarrow> (s1, Inr svc))
                  else (s, Inl err)
              | Inr svc \<Rightarrow>
                  if sv_Spec svc \<noteq> sv_Spec expected then
                    (let svc1 = svc\<lparr>sv_Spec := sv_Spec expected\<rparr>; s1 = emit (UpdateService svc1) s in
                     case env_updateService env svc1 of
                       Inl err \<Rightarrow> (s1, Inl err)
                     | Inr svc2 \<Rightarrow> check_owner env svc2 s1)
                  else check_owner env svc s))"

section \<open>Subscribers\<close>

text \<open>The loop over the subscribers: the ready ones, and the status manager afterwards.\<close>

fun subscriber_loop ::
  "env \<Rightarrow> KafkaTopicChannel \<Rightarrow> SubscriberSpec list \<Rightarrow> Prober \<Rightarrow> SubscriberStatus list \<Rightarrow> Prober \<times> SubscriberStatus list" where
  "subscriber_loop env ch [] m acc = (m, acc)"
| "subscriber_loop env ch (sub # subs) m acc =
     (case IsReady (env_ord env) (ListProbeTargets (env_endpointsLister env)) ch sub m of
        (m1, Inr True) \<Rightarrow>
          subscriber_loop env ch subs m1
            (acc @ [\<lparr>sst_UID = ss_UID sub, sst_ObservedGeneration = ss_Generation sub,
                     sst_Ready = ConditionTrue, sst_Message = ''''\<rparr>])
      | (m1, _) \<Rightarrow> subscriber_loop env ch subs m1 acc)"

definition reconcileSubscribers :: "env \<Rightarrow> rstate \<Rightarrow> rstate \<times> go_error option" where
  "reconcileSubscribers env s =
     (let ch = rs_kc s in
      case subscriber_loop env ch (sp_Subscribers (kc_Spec ch)) (rs_statusManager s) [] of
        (m1, statuses) \<Rightarrow>
          (let after = ch\<lparr>kc_Status := (kc_Status ch)\<lparr>st_Subscribers := statuses\<rparr>\<rparr>;
               s1 = s\<lparr>rs_statusManager := m1\<rparr>
           in case env_createPatch env ch after of
                Inl err \<Rightarrow> (s1, Some (Wrap ''creating JSON patch: '' err))
              | Inr jsonPatch \<Rightarrow>
                  if length jsonPatch = 0 then (s1, None)
                  else
                    (case env_marshalPatch env jsonPatch of
                       Inl err \<Rightarrow> (s1, Some (Wrap ''marshaling JSON patch: '' err))
                     | Inr patch \<Rightarrow>
                         (let s2 = emit (PatchStatus (kc_Namespace ch) (kc_Name ch) patch) s1 in
                          case env_patch env patch of
                            Some err \<Rightarrow> (s2, Some (Wrap ''Failed patching: '' err))
                          | None \<Rightarrow> (s2, None)))))"

section \<open>Reconciling and finalizing a channel\<close>

text \<open>From the endpoints on.\<close>

definition reconcile_address :: "env \<Rightarrow> string \<Rightarrow> rstate \<Rightarrow> rstate \<times> go_error" where
  "reconcile_address env dispatcherNamespace s =
     (case reconcileChannelService env dispatcherNamespace s of
        (s1, Inl err) \<Rightarrow> (s1, err)
      | (s1, Inr svc) \<Rightarrow>
          (let s2 = mark_status env MarkChannelServiceTrue s1;
               s3 = mark_status env (\<lambda>now. SetAddress now
                      (Some \<lparr>url_Scheme = ''http'',
                             url_Host = GetServiceHostname (env_clusterDomain env) (om_Name (sv_Meta svc)) (om_Namespace (sv_Meta svc)),
                             url_Path = ''''\<rparr>)) s2
           in case reconcileSubscribers env s3 of
                (s4, Some err) \<Rightarrow> (s4, ErrorText (''error reconciling subscribers '' @ error_text err))
              | (s4, None) \<Rightarrow> (s4, newReconciledNormal (kc_Namespace (rs_kc s4)) (kc_Name (rs_kc s4)))))"

definition reconcile_endpoints :: "env \<Rightarrow> string \<Rightarrow> rstate \<Rightarrow> rstate \<times> go_error" where
  "reconcile_endpoints env dispatcherNamespace s =
     (let dispatcherName = dispatcher_name (rs_kc s) in
      case env_endpointsLister env dispatcherNamespace dispatcherName of
        Inl err \<Rightarrow>
          (if IsNotFound err
           then mark_status env (\<lambda>now. MarkEndpointsFailed now ''DispatcherEndpointsDoesNotExist'' ''Dispatcher Endpoints does not exist'') s
           else mark_status env (\<lambda>now. MarkEndpointsFailed now ''DispatcherEndpointsGetFailed'' ''Failed to get dispatcher endpoints'') s,
           err)
      | Inr e \<Rightarrow>
          if length e = 0 then
            (mark_status env (\<lambda>now. MarkEndpointsFailed now ''DispatcherEndpointsNotReady''
               ''There are no endpoints ready for Dispatcher service'') s,
             ErrorText (''there are no endpoints ready for Dispatcher service '' @ dispatcherName))
          else reconcile_address env dispatcherNamespace (mark_status env MarkEndpointsTrue s))"

definition ReconcileKind :: "env \<Rightarrow> rstate \<Rightarrow> rstate \<times> go_error" where
  "ReconcileKind env s =
     (let s1 = mark_status env st_InitializeConditions s;
          s2 = s1\<lparr>rs_kc := SetDefaults (rs_kc s1)\<rparr>
      in case Validate (rs_kc s2) of
           Some err \<Rightarrow> (s2, ErrorText (fe_Error (Some err)))
         | None \<Rightarrow>
             (let s3 = mark_status env MarkConfigTrue s2;
                  s4 = mark_status env MarkTopicTrue s3;
                  dispatcherNamespace = kc_Namespace (rs_kc s4)
              in case reconcileDispatcher env dispatcherNamespace s4 of
                   (s5, Inl err) \<Rightarrow> (s5, err)
                 | (s5, Inr _) \<Rightarrow>
                     (case reconcileDispatcherService env dispatcherNamespace s5 of
                        (s6, Inl err) \<Rightarrow> (s6, err)
                      | (s6, Inr _) \<Rightarrow> reconcile_endpoints env dispatcherNamespace s6)))"

definition FinalizeKind :: "rstate \<Rightarrow> rstate \<times> go_error" where
  "FinalizeKind s =
     (let kc = rs_kc s in
      (s\<lparr>rs_statusManager := fold CancelProbing (sp_Subscribers (kc_Spec kc)) (rs_statusManager s)\<rparr>,
       newReconciledNormal (kc_Namespace kc) (kc_Name kc)))"

section \<open>What a marking does\<close>

abbreviation rs_status :: "rstate \<Rightarrow> KafkaTopicChannelStatus" where
  "rs_status s \<equiv> kc_Status (rs_kc s)"

text \<open>A marking \<open>f\<close> sets condition \<open>t\<close> to \<open>r\<close> and leaves Ready in agreement with the conditions.\<close>

definition sets :: "(time \<Rightarrow> KafkaTopicChannelStatus \<Rightarrow> KafkaTopicChannelStatus) \<Rightarrow> ConditionType \<Rightarrow> ConditionStatus \<Rightarrow> bool" where
  "sets f t r \<longleftrightarrow> t \<in> kc_dependents \<and>
     (\<forall>now st. status_wf st \<longrightarrow> status_wf (f now st) \<and> ready_agrees (f now st) \<and>
        (\<forall>d \<in> kc_dependents. dep_status (f now st) d = (if d = t then r else dep_status st d)))"

lemma sets_mark:
  assumes "\<And>now st. f now st = apply_mark (M now) st" "\<And>now. mark_target (M now) = t" "\<And>now. mark_result (M now) = r"
    and "t \<in> kc_dependents"
  shows "sets f t r"
  unfolding sets_def ready_agrees_def assms(1)
  using kc_status.mark_inv kc_status.mark_status kc_status.mark_ready assms(2-4) by simp

lemma sets_lifecycle [simp]:
  "sets (\<lambda>now. MarkDispatcherFailed now r m) DispatcherReady ConditionFalse"
  "sets (\<lambda>now. MarkDispatcherUnknown now r m) DispatcherReady ConditionUnknown"
  "sets (\<lambda>now. MarkServiceFailed now r m) ServiceReady ConditionFalse"
  "sets (\<lambda>now. MarkServiceUnknown now r m) ServiceReady ConditionUnknown"
  "sets MarkServiceTrue ServiceReady ConditionTrue"
  "sets (\<lambda>now. MarkChannelServiceFailed now r m) ChannelServiceReady ConditionFalse"
  "sets MarkChannelServiceTrue ChannelServiceReady ConditionTrue"
  "sets (\<lambda>now. MarkEndpointsFailed now r m) EndpointsReady ConditionFalse"
  "sets MarkEndpointsTrue EndpointsReady ConditionTrue"
  "sets MarkTopicTrue TopicReady ConditionTrue"
  "sets MarkConfigTrue ConfigReady ConditionTrue"
  by (rule sets_mark [where M = "\<lambda>now. MFalse now DispatcherReady r m"]
        sets_mark [where M = "\<lambda>now. MUnknown now DispatcherReady r m"]
        sets_mark [where M = "\<lambda>now. MFalse now ServiceReady r m"]
        sets_mark [where M = "\<lambda>now. MUnknown now ServiceReady r m"]
        sets_mark [where M = "\<lambda>now. MTrue now ServiceReady"]
        sets_mark [where M = "\<lambda>now. MFalse now ChannelServiceReady r m"]
        sets_mark [where M = "\<lambda>now. MTrue now ChannelServiceReady"]
        sets_mark [where M = "\<lambda>now. MFalse now EndpointsReady r m"]
        sets_mark [where M = "\<lambda>now. MTrue now EndpointsReady"]
        sets_mark [where M = "\<lambda>now. MTrue now TopicReady"]
        sets_mark [where M = "\<lambda>now. MTrue now ConfigReady"];
      simp add: lifecycle_defs kc_dependents_def; fail)+

text \<open>\<open>touches T s s'\<close>: of the channel only the status changed, and of its conditions only those in \<open>T\<close>.\<close>

definition touches :: "ConditionType set \<Rightarrow> rstate \<Rightarrow> rstate \<Rightarrow> bool" where
  "touches T s s' \<longleftrightarrow> (status_wf (rs_status s) \<longrightarrow> status_wf (rs_status s') \<and>
       (\<forall>d \<in> kc_dependents - T. dep_status (rs_status s') d = dep_status (rs_status s) d)) \<and>
     kc_Meta (rs_kc s') = kc_Meta (rs_kc s) \<and> kc_Spec (rs_kc s') = kc_Spec (rs_kc s)"

lemma touches_refl: "touches T s s"
  by (simp add: touches_def)

lemma touches_trans:
  assumes "touches T s s1" "touches U s1 s2" "T \<union> U \<subseteq> V"
  shows "touches V s s2"
proof -
  have "dep_status (rs_status s2) d = dep_status (rs_status s) d"
    if "status_wf (rs_status s)" "d \<in> kc_dependents - V" for d
  proof -
    from that(2) assms(3) have "d \<in> kc_dependents - T" "d \<in> kc_dependents - U" by auto
    with assms(1,2) that(1) show ?thesis by (simp add: touches_def)
  qed
  with assms(1,2) show ?thesis by (simp add: touches_def)
qed

lemma touches_mono: "touches T s s' \<Longrightarrow> T \<subseteq> U \<Longrightarrow> touches U s s'"
  by (auto simp: touches_def)

lemma touches_same_kc: "rs_kc s' = rs_kc s \<Longrightarrow> touches T s s'"
  by (simp add: touches_def)

lemma emit_kc [simp]: "rs_kc (emit e s) = rs_kc s"
  by (simp add: emit_def)

lemma emit_touches: "touches T s (emit e s)"
  by (simp add: touches_same_kc)

lemma mark_touches: "sets f t r \<Longrightarrow> touches {t} s (mark_status env f s)"
  by (simp add: touches_def sets_def mark_status_def)

lemma mark_dep:
  assumes "sets f t r" "status_wf (rs_status s)"
  shows "dep_status (rs_status (mark_status env f s)) t = r"
    and "ready_agrees (rs_status (mark_status env f s))"
  using assms by (auto simp: sets_def mark_status_def)

lemma mark_not_ready:
  assumes "sets f t r" "r \<noteq> ConditionTrue" "status_wf (rs_status s)"
  shows "\<not> IsReady_status (rs_status (mark_status env f s))"
  using mark_dep [OF assms(1,3), of env] assms(1,2) by (auto simp: ready_agrees_def sets_def)

lemma propagate_touches: "touches {DispatcherReady} s (propagate_deployment env d s)"
proof -
  let ?ms = "propagate_marks (env_now env (rs_marks s)) (dp_Conditions d)"
  have t: "\<forall>m \<in> set ?ms. mark_target m \<in> kc_dependents"
    by (auto simp: kc_dependents_def dest: propagate_marks_target)
  have keep: "last_mark ms x u = u" if "\<forall>m \<in> set ms. mark_target m \<noteq> x" for ms x u
    using that by (induction ms) auto
  have "last_mark ?ms x u = u" if "x \<noteq> DispatcherReady" for x u
    by (rule keep) (use that in \<open>auto dest: propagate_marks_target\<close>)
  then show ?thesis
    using kc_status.run_inv [OF _ t] kc_status.run_status [OF _ t]
    by (simp add: touches_def propagate_deployment_def mark_status_def PropagateDispatcherStatus_marks)
qed

lemma propagate_dep:
  assumes "status_wf (rs_status s)"
  shows "dep_status (rs_status (propagate_deployment env d s)) DispatcherReady =
    (case available_status (dp_Conditions d) of None \<Rightarrow> dep_status (rs_status s) DispatcherReady | Some x \<Rightarrow> x)"
proof -
  let ?ms = "propagate_marks (env_now env (rs_marks s)) (dp_Conditions d)"
  have t: "\<forall>m \<in> set ?ms. mark_target m \<in> kc_dependents"
    by (auto simp: kc_dependents_def dest: propagate_marks_target)
  have "DispatcherReady \<in> kc_dependents" by (simp add: kc_dependents_def)
  from kc_status.run_status [OF assms t this] show ?thesis
    by (simp add: propagate_deployment_def mark_status_def PropagateDispatcherStatus_marks last_mark_propagate)
qed

section \<open>What the steps do to the status\<close>

definition not_ready :: "rstate \<Rightarrow> bool" where
  "not_ready s \<longleftrightarrow> \<not> IsReady_status (rs_status s)"

text \<open>
  A step that only touches \<open>T\<close>: on failure the channel is left not ready, on success \<open>Q\<close> holds of the
  result and the new state.
\<close>

definition step_ok :: "ConditionType set \<Rightarrow> rstate \<Rightarrow> rstate \<times> (go_error + 'a) \<Rightarrow> ('a \<Rightarrow> rstate \<Rightarrow> bool) \<Rightarrow> bool" where
  "step_ok T s res Q \<longleftrightarrow> touches T s (fst res) \<and>
     (case snd res of Inl _ \<Rightarrow> not_ready (fst res) | Inr x \<Rightarrow> Q x (fst res))"

lemma step_ok_fail:
  assumes "status_wf (rs_status s)" "rs_kc s0 = rs_kc s" "sets f t r" "r \<noteq> ConditionTrue" "t \<in> T"
  shows "step_ok T s (mark_status env f s0, Inl e) Q"
proof -
  have "touches T s (mark_status env f s0)"
    using touches_trans [OF touches_same_kc [OF assms(2)] mark_touches [OF assms(3)]] assms(5) by auto
  moreover have "not_ready (mark_status env f s0)"
    unfolding not_ready_def by (rule mark_not_ready [OF assms(3,4)]) (simp add: assms(1,2))
  ultimately show ?thesis by (simp add: step_ok_def)
qed

lemmas step_ok_fails =
  step_ok_fail [OF _ _ sets_lifecycle(1)] step_ok_fail [OF _ _ sets_lifecycle(2)] step_ok_fail [OF _ _ sets_lifecycle(3)]
  step_ok_fail [OF _ _ sets_lifecycle(4)] step_ok_fail [OF _ _ sets_lifecycle(6)] step_ok_fail [OF _ _ sets_lifecycle(8)]

lemma reconcileServiceAccount_ok:
  assumes "status_wf (rs_status s)"
  shows "step_ok {DispatcherReady} s (reconcileServiceAccount env ns s) (\<lambda>sa s'. rs_kc s' = rs_kc s)"
  unfolding reconcileServiceAccount_def Let_def
  by (auto split: sum.splits intro!: step_ok_fails simp: assms)
     (auto simp: step_ok_def touches_same_kc)

lemma reconcileRoleBinding_ok:
  assumes "status_wf (rs_status s)"
  shows "step_ok {DispatcherReady} s (reconcileRoleBinding env name ns role sa s) (\<lambda>rb s'. rs_kc s' = rs_kc s)"
  unfolding reconcileRoleBinding_def Let_def
  by (auto split: sum.splits intro!: step_ok_fails simp: assms)
     (auto simp: step_ok_def touches_same_kc)

text \<open>After a successful step the dispatcher's condition is that of the deployment, where it has one.\<close>

definition deployment_propagated :: "rstate \<Rightarrow> Deployment \<Rightarrow> rstate \<Rightarrow> bool" where
  "deployment_propagated s d s' \<longleftrightarrow> touches {DispatcherReady} s s' \<and>
     dep_status (rs_status s') DispatcherReady =
       (case available_status (dp_Conditions d) of None \<Rightarrow> dep_status (rs_status s) DispatcherReady | Some x \<Rightarrow> x)"

lemma propagate_step_ok:
  assumes "status_wf (rs_status s)" "rs_kc s0 = rs_kc s"
  shows "step_ok {DispatcherReady, ServiceReady} s (propagate_deployment env d s0, Inr d) (deployment_propagated s)"
proof -
  have "touches {DispatcherReady} s (propagate_deployment env d s0)"
    by (rule touches_trans [OF touches_same_kc [OF assms(2)] propagate_touches]) auto
  moreover from this have "touches {DispatcherReady, ServiceReady} s (propagate_deployment env d s0)"
    by (rule touches_mono) auto
  ultimately show ?thesis
    using propagate_dep [of s0 env d] assms by (simp add: step_ok_def deployment_propagated_def split: option.splits)
qed

lemma update_deployment_ok:
  assumes "status_wf (rs_status s)" "rs_kc s0 = rs_kc s"
  shows "step_ok {DispatcherReady, ServiceReady} s (update_deployment env d s0) (deployment_propagated s)"
  unfolding update_deployment_def Let_def
  by (auto split: sum.splits intro!: step_ok_fails propagate_step_ok simp: assms)

lemma store_deployment_kc [simp]: "rs_kc (store_deployment ns name d s) = rs_kc s"
  by (simp add: store_deployment_def)

lemma reconcile_deployment_ok:
  assumes "status_wf (rs_status s)"
  shows "step_ok {DispatcherReady, ServiceReady} s (reconcile_deployment env ns s) (deployment_propagated s)"
  unfolding reconcile_deployment_def Let_def FindContainer_MakeDispatcher
  by (auto split: sum.splits option.splits
      intro!: step_ok_fails propagate_step_ok update_deployment_ok simp: assms)

lemma reconcileDispatcher_ok:
  assumes wf: "status_wf (rs_status s)"
  shows "step_ok {DispatcherReady, ServiceReady} s (reconcileDispatcher env ns s) (deployment_propagated s)"
proof -
  obtain s1 r1 where e1: "reconcileServiceAccount env ns s = (s1, r1)" by fastforce
  note ok1 = reconcileServiceAccount_ok [OF wf, of env ns, unfolded e1 step_ok_def]
  show ?thesis
  proof (cases r1)
    case (Inl err)
    with ok1 e1 show ?thesis
      by (auto simp: reconcileDispatcher_def step_ok_def elim: touches_mono)
  next
    case (Inr sa)
    with ok1 have k1: "rs_kc s1 = rs_kc s" by simp
    obtain s2 r2 where e2: "reconcileRoleBinding env ''kt-channel-dispatcher'' ns ''kt-channel-dispatcher'' sa s1 = (s2, r2)"
      by fastforce
    have wf1: "status_wf (rs_status s1)" using wf by (simp add: k1)
    note ok2 = reconcileRoleBinding_ok [OF wf1, of env "''kt-channel-dispatcher''" ns "''kt-channel-dispatcher''" sa,
        unfolded e2 step_ok_def]
    have t1: "touches T s s1" for T by (rule touches_same_kc [OF k1])
    show ?thesis
    proof (cases r2)
      case Inl
      with ok2 have "touches {DispatcherReady, ServiceReady} s s2" "not_ready s2"
        using touches_trans [OF t1 [of "{}"], of _ s2] by auto
      with Inl Inr e1 e2 show ?thesis by (simp add: reconcileDispatcher_def step_ok_def)
    next
      case (Inr rb)
      with ok2 k1 have k2: "rs_kc s2 = rs_kc s" by simp
      let ?name = "''kt-channel-dispatcher-'' @ ns"
      obtain s3 r3 where e3: "reconcileRoleBinding env ?name (env_systemNamespace env) ''eventing-config-reader'' sa s2 = (s3, r3)"
        by fastforce
      have wf2: "status_wf (rs_status s2)" using wf by (simp add: k2)
      note ok3 = reconcileRoleBinding_ok [OF wf2, of env ?name "env_systemNamespace env" "''eventing-config-reader''" sa,
          unfolded e3 step_ok_def]
      have t2: "touches T s s2" for T by (rule touches_same_kc [OF k2])
      show ?thesis
      proof (cases r3)
        case Inl
        with ok3 have "touches {DispatcherReady, ServiceReady} s s3" "not_ready s3"
          using touches_trans [OF t2 [of "{}"], of _ s3] by auto
        with Inl Inr \<open>r1 = Inr sa\<close> e1 e2 e3 show ?thesis by (simp add: reconcileDispatcher_def step_ok_def)
      next
        case (Inr rb')
        with ok3 k2 have k3: "rs_kc s3 = rs_kc s" by simp
        have "reconcileDispatcher env ns s = reconcile_deployment env ns s3"
          using Inr \<open>r1 = Inr sa\<close> \<open>r2 = Inr rb\<close> e1 e2 e3 by (simp add: reconcileDispatcher_def)
        moreover have "touches T s x = touches T s3 x" for T x by (simp add: touches_def k3)
        then have "step_ok T s res (deployment_propagated s) = step_ok T s3 res (deployment_propagated s3)" for T res
          by (simp add: step_ok_def deployment_propagated_def [abs_def] k3 split: sum.split option.split)
        ultimately show ?thesis using reconcile_deployment_ok [of s3 env ns] wf by (simp add: k3)
      qed
    qed
  qed
qed

lemma reconcileDispatcherService_ok:
  assumes "status_wf (rs_status s)"
  shows "step_ok {ServiceReady} s (reconcileDispatcherService env ns s)
           (\<lambda>svc s'. dep_status (rs_status s') ServiceReady = ConditionTrue)"
proof -
  have "step_ok {ServiceReady} s (mark_status env MarkServiceTrue s0, Inr svc)
      (\<lambda>svc s'. dep_status (rs_status s') ServiceReady = ConditionTrue)" if "rs_kc s0 = rs_kc s" for s0 and svc :: Service
    using touches_trans [OF touches_same_kc [OF that, of "{}"] mark_touches [OF sets_lifecycle(5)], of "{ServiceReady}" env]
      mark_dep(1) [of MarkServiceTrue ServiceReady ConditionTrue s0 env] assms that
    by (simp add: step_ok_def)
  then show ?thesis
    unfolding reconcileDispatcherService_def Let_def
    by (auto split: sum.splits intro!: step_ok_fails simp: assms)
qed

lemma status_Address [simp]:
  "status_wf (st\<lparr>st_Address := x\<rparr>) = status_wf st"
  "dep_status (st\<lparr>st_Address := x\<rparr>) = dep_status st"
  "IsReady_status (st\<lparr>st_Address := x\<rparr>) = IsReady_status st"
  by (simp_all add: status_wf_def dep_status_def IsReady_status_def fun_eq_iff)

lemma SetAddress_eq:
  "SetAddress now (Some u) st = (apply_mark (MTrue now Addressable) st)\<lparr>st_Address := Some (Some u)\<rparr>"
  by (simp add: SetAddress_def Let_def markTrue_def split: option.split)

lemma sets_SetAddress [simp]: "sets (\<lambda>now. SetAddress now (Some u)) Addressable ConditionTrue"
proof -
  have "sets (\<lambda>now. apply_mark (MTrue now Addressable)) Addressable ConditionTrue"
    by (rule sets_mark [where M = "\<lambda>now. MTrue now Addressable"]) (simp_all add: kc_dependents_def)
  then show ?thesis
    unfolding sets_def SetAddress_eq ready_agrees_def by simp
qed

lemma check_owner_spec:
  assumes "check_owner env svc s = (s', r)"
  shows "touches {ChannelServiceReady} s s'"
    and "r = Inr svc' \<Longrightarrow> s' = s \<and> svc' = svc \<and> IsControlledBy (sv_Meta svc) (kc_Meta (rs_kc s))"
  using assms by (auto simp: check_owner_def Let_def touches_refl mark_touches [OF sets_lifecycle(6)] split: if_splits)

text \<open>The service of a channel, when the step succeeds: owned by the channel, or just created.\<close>

definition channel_service :: "env \<Rightarrow> KafkaTopicChannel \<Rightarrow> Service \<Rightarrow> bool" where
  "channel_service env kc svc \<longleftrightarrow> IsControlledBy (sv_Meta svc) (kc_Meta kc) \<or>
     (\<exists>expected. IsControlledBy (sv_Meta expected) (kc_Meta kc) \<and> env_createService env expected = Inr svc)"

lemma MakeK8sService_External:
  "MakeK8sService kc [ExternalService cd ns name] = Inr
     \<lparr>sv_TypeMeta = (''v1'', ''Service''),
      sv_Meta = zero_ObjectMeta\<lparr>om_Name := MakeChannelServiceName (kc_Name kc), om_Namespace := kc_Namespace kc,
                                om_Labels := [''messaging.knative.dev/role'' \<mapsto> ''kafka-channel''],
                                om_OwnerReferences := [NewControllerRef kc]\<rparr>,
      sv_Spec = \<lparr>ssp_Type = ''ExternalName'', ssp_ExternalName = GetServiceHostname cd name ns,
                 ssp_Selector = Map.empty, ssp_Ports = []\<rparr>\<rparr>"
  by (simp add: MakeK8sService_def ExternalService_def)

lemma reconcileChannelService_spec:
  assumes "reconcileChannelService env ns s = (s', r)"
  shows "touches {ChannelServiceReady} s s'"
    and "r = Inr svc \<Longrightarrow> rs_kc s' = rs_kc s \<and> rs_statusManager s' = rs_statusManager s \<and> channel_service env (rs_kc s) svc"
proof -
  let ?ex = "\<lparr>sv_TypeMeta = (''v1'', ''Service''),
      sv_Meta = zero_ObjectMeta\<lparr>om_Name := MakeChannelServiceName (kc_Name (rs_kc s)), om_Namespace := kc_Namespace (rs_kc s),
                                om_Labels := [''messaging.knative.dev/role'' \<mapsto> ''kafka-channel''],
                                om_OwnerReferences := [NewControllerRef (rs_kc s)]\<rparr>,
      sv_Spec = \<lparr>ssp_Type = ''ExternalName'',
                 ssp_ExternalName = GetServiceHostname (env_clusterDomain env) (dispatcher_name (rs_kc s)) ns,
                 ssp_Selector = Map.empty, ssp_Ports = []\<rparr>\<rparr>"
  have owned: "IsControlledBy (sv_Meta ?ex) (kc_Meta (rs_kc s))"
    by (rule IsControlledBy_NewControllerRef) simp
  have failed: "touches {ChannelServiceReady} s (mark_status env (\<lambda>now. MarkChannelServiceFailed now x y) (emit e s))" for x y e
    by (rule touches_trans [OF emit_touches [of "{}"] mark_touches [OF sets_lifecycle(6)]]) simp
  have via: "touches {ChannelServiceReady} s s2" if "touches {ChannelServiceReady} (emit e s) s2" for e s2
    by (rule touches_trans [OF emit_touches [of "{}"] that]) simp
  note eq = assms [unfolded reconcileChannelService_def Let_def MakeK8sService_External]
  show "touches {ChannelServiceReady} s s'"
    using eq by (auto split: sum.splits if_splits simp: touches_refl emit_touches failed
        dest: check_owner_spec(1) intro: via)
  show "r = Inr svc \<Longrightarrow> rs_kc s' = rs_kc s \<and> rs_statusManager s' = rs_statusManager s \<and> channel_service env (rs_kc s) svc"
    using eq owned by (auto split: sum.splits if_splits simp: channel_service_def emit_def dest: check_owner_spec(2))
qed

lemma reconcileSubscribers_kc: "rs_kc (fst (reconcileSubscribers env s)) = rs_kc s"
  by (auto simp: reconcileSubscribers_def Let_def split: prod.splits sum.splits option.splits)

section \<open>The outcome of a reconciliation\<close>

fun normal_event :: "go_error \<Rightarrow> bool" where
  "normal_event (ReconcilerEvent t _ _) \<longleftrightarrow> t = ''Normal''"
| "normal_event _ \<longleftrightarrow> False"

text \<open>
  The listers and the API client return errors of the API, never a normal event of the reconciler
  framework.
\<close>

definition honest :: "env \<Rightarrow> rstate \<Rightarrow> bool" where
  "honest env s \<longleftrightarrow>
     (\<forall>ns n e. rs_deployments s ns n = Inl e \<longrightarrow> \<not> normal_event e) \<and>
     (\<forall>ns n e. env_serviceLister env ns n = Inl e \<longrightarrow> \<not> normal_event e) \<and>
     (\<forall>ns n e. env_endpointsLister env ns n = Inl e \<longrightarrow> \<not> normal_event e) \<and>
     (\<forall>x e. env_createService env x = Inl e \<longrightarrow> \<not> normal_event e) \<and>
     (\<forall>x e. env_updateService env x = Inl e \<longrightarrow> \<not> normal_event e)"

lemma warn_not_normal [simp]:
  "\<not> normal_event (newDeploymentWarn e)" "\<not> normal_event (newDispatcherServiceWarn e)"
  "\<not> normal_event (newServiceAccountWarn e)" "\<not> normal_event (newRoleBindingWarn e)"
  by (simp_all add: newDeploymentWarn_def newDispatcherServiceWarn_def newServiceAccountWarn_def newRoleBindingWarn_def)

lemma deployments_frame [simp]:
  "rs_deployments (emit e s) = rs_deployments s"
  "rs_deployments (mark_status env f s) = rs_deployments s"
  by (simp_all add: emit_def mark_status_def)

lemma account_binding_frame:
  "rs_deployments (fst (reconcileServiceAccount env ns s)) = rs_deployments s"
  "rs_deployments (fst (reconcileRoleBinding env name ns role sa s)) = rs_deployments s"
  "snd (reconcileServiceAccount env ns s) = Inl e \<Longrightarrow> \<not> normal_event e"
  "snd (reconcileRoleBinding env name ns role sa s) = Inl e \<Longrightarrow> \<not> normal_event e"
  by (auto simp: reconcileServiceAccount_def reconcileRoleBinding_def Let_def split: sum.splits if_splits)

lemma reconcile_deployment_error:
  "snd (reconcile_deployment env ns s) = Inl e \<Longrightarrow> (\<And>ns n e. rs_deployments s ns n = Inl e \<Longrightarrow> \<not> normal_event e) \<Longrightarrow>
   \<not> normal_event e"
  by (auto simp: reconcile_deployment_def update_deployment_def Let_def FindContainer_MakeDispatcher
      split: sum.splits option.splits if_splits)

lemma reconcileDispatcher_error:
  assumes "reconcileDispatcher env ns s = (s', Inl e)" "honest env s"
  shows "\<not> normal_event e"
proof -
  obtain s1 r1 where e1: "reconcileServiceAccount env ns s = (s1, r1)" by fastforce
  note f1 = account_binding_frame(1) [of env ns s, unfolded e1] account_binding_frame(3) [of env ns s, unfolded e1]
  show ?thesis
  proof (cases r1)
    case Inl
    with assms(1) e1 f1(2) show ?thesis by (auto simp: reconcileDispatcher_def)
  next
    case (Inr sa)
    obtain s2 r2 where e2: "reconcileRoleBinding env ''kt-channel-dispatcher'' ns ''kt-channel-dispatcher'' sa s1 = (s2, r2)"
      by fastforce
    note f2 = account_binding_frame(2) [of env "''kt-channel-dispatcher''" ns "''kt-channel-dispatcher''" sa s1, unfolded e2]
      account_binding_frame(4) [of env "''kt-channel-dispatcher''" ns "''kt-channel-dispatcher''" sa s1, unfolded e2]
    obtain s3 r3 where e3: "reconcileRoleBinding env (''kt-channel-dispatcher-'' @ ns) (env_systemNamespace env)
        ''eventing-config-reader'' sa s2 = (s3, r3)" by fastforce
    note f3 = account_binding_frame(2) [of env "''kt-channel-dispatcher-'' @ ns" "env_systemNamespace env"
          "''eventing-config-reader''" sa s2, unfolded e3]
      account_binding_frame(4) [of env "''kt-channel-dispatcher-'' @ ns" "env_systemNamespace env"
          "''eventing-config-reader''" sa s2, unfolded e3]
    have dep: "rs_deployments s3 = rs_deployments s" using f1 f2 f3 by simp
    from assms(1) e1 e2 e3 Inr consider "r2 = Inl e" | "r3 = Inl e" | "reconcile_deployment env ns s3 = (s', Inl e)"
      by (auto simp: reconcileDispatcher_def split: sum.splits)
    then show ?thesis
    proof cases
      case 3
      with reconcile_deployment_error [of env ns s3 e] assms(2) show ?thesis
        unfolding dep honest_def by simp
    qed (use f2 f3 in auto)
  qed
qed

lemma reconcileDispatcherService_error:
  "reconcileDispatcherService env ns s = (s', Inl e) \<Longrightarrow> honest env s0 \<Longrightarrow> \<not> normal_event e"
  by (auto simp: reconcileDispatcherService_def Let_def honest_def split: sum.splits if_splits)

lemma reconcileChannelService_error:
  "reconcileChannelService env ns s = (s', Inl e) \<Longrightarrow> honest env s0 \<Longrightarrow> \<not> normal_event e"
  by (auto simp: reconcileChannelService_def check_owner_def MakeK8sService_External Let_def honest_def
      split: sum.splits if_splits)

text \<open>The address of a channel: the host name of its service.\<close>

definition addressed :: "env \<Rightarrow> KafkaTopicChannel \<Rightarrow> KafkaTopicChannelStatus \<Rightarrow> bool" where
  "addressed env kc st \<longleftrightarrow>
     (\<exists>svc. channel_service env kc svc \<and> st_Address st = Some (Some
        \<lparr>url_Scheme = ''http'',
         url_Host = GetServiceHostname (env_clusterDomain env) (om_Name (sv_Meta svc)) (om_Namespace (sv_Meta svc)),
         url_Path = ''''\<rparr>))"

text \<open>The last part, from the service of the channel on.\<close>

lemma reconcile_address_spec:
  assumes wf: "status_wf (rs_status s)" and r: "reconcile_address env ns s = (s', e)"
  shows "touches {ChannelServiceReady, Addressable} s s'" (is ?t)
    and "normal_event e \<Longrightarrow> honest env s0 \<Longrightarrow>
      dep_status (rs_status s') ChannelServiceReady = ConditionTrue \<and>
      dep_status (rs_status s') Addressable = ConditionTrue \<and> ready_agrees (rs_status s') \<and>
      e = newReconciledNormal (kc_Namespace (rs_kc s)) (kc_Name (rs_kc s)) \<and>
      addressed env (rs_kc s) (rs_status s')" (is "_ \<Longrightarrow> _ \<Longrightarrow> ?P")
proof -
  obtain s1 r1 where e1: "reconcileChannelService env ns s = (s1, r1)" by fastforce
  note c = reconcileChannelService_spec [OF e1]
  have goal: "?t \<and> (normal_event e \<and> honest env s0 \<longrightarrow> ?P)"
  proof (cases r1)
    case (Inl err)
    then have "s' = s1" "e = err" using r e1 by (auto simp: reconcile_address_def)
    then show ?thesis using c(1) touches_mono [of _ s s1] reconcileChannelService_error [OF e1 [unfolded Inl]] by auto
  next
    case (Inr svc)
    let ?u = "\<lparr>url_Scheme = ''http'',
         url_Host = GetServiceHostname (env_clusterDomain env) (om_Name (sv_Meta svc)) (om_Namespace (sv_Meta svc)),
         url_Path = ''''\<rparr>"
    let ?s2 = "mark_status env MarkChannelServiceTrue s1"
    let ?s3 = "mark_status env (\<lambda>now. SetAddress now (Some ?u)) ?s2"
    obtain s4 r4 where e4: "reconcileSubscribers env ?s3 = (s4, r4)" by fastforce
    have k4: "rs_kc s4 = rs_kc ?s3" using reconcileSubscribers_kc [of env ?s3] e4 by simp
    have eq: "s' = s4" "e = (case r4 of Some err \<Rightarrow> ErrorText (''error reconciling subscribers '' @ error_text err)
        | None \<Rightarrow> newReconciledNormal (kc_Namespace (rs_kc s4)) (kc_Name (rs_kc s4)))"
      using r e1 Inr e4 by (auto simp: reconcile_address_def Let_def split: option.splits)
    have wf1: "status_wf (rs_status s1)" using c(2) [OF Inr] wf by simp
    have t2: "touches {ChannelServiceReady} s1 ?s2" by (rule mark_touches [OF sets_lifecycle(7)])
    have t3: "touches {Addressable} ?s2 ?s3" by (rule mark_touches [OF sets_SetAddress])
    have wf2: "status_wf (rs_status ?s2)" using t2 wf1 by (simp add: touches_def)
    have t1: "touches {} s s1" using c(2) [OF Inr] by (simp add: touches_same_kc)
    have t4: "touches {} ?s3 s4" by (rule touches_same_kc [OF k4])
    have "touches {ChannelServiceReady, Addressable} s1 s4"
      by (rule touches_trans [OF touches_trans [OF t2 t3 subset_refl] t4]) auto
    from touches_trans [OF t1 this] have t13: "touches {ChannelServiceReady, Addressable} s s4" by simp
    have "dep_status (rs_status ?s3) ChannelServiceReady = ConditionTrue"
      using t3 wf2 mark_dep(1) [OF sets_lifecycle(7) wf1, of env] by (simp add: touches_def kc_dependents_def)
    moreover have "dep_status (rs_status ?s3) Addressable = ConditionTrue" "ready_agrees (rs_status ?s3)"
      using mark_dep [OF sets_SetAddress wf2] by auto
    moreover have "st_Address (rs_status ?s3) = Some (Some ?u)"
      by (simp add: mark_status_def SetAddress_eq)
    moreover have "kc_Meta (rs_kc s4) = kc_Meta (rs_kc s)" using t13 by (simp add: touches_def)
    ultimately show ?thesis
      using t13 c(2) [OF Inr] unfolding eq by (auto simp: k4 addressed_def split: option.splits)
  qed
  then show ?t by simp
  from goal show "normal_event e \<Longrightarrow> honest env s0 \<Longrightarrow> ?P" by blast
qed

text \<open>The endpoints and what follows.\<close>

definition has_endpoints :: "env \<Rightarrow> string \<Rightarrow> KafkaTopicChannel \<Rightarrow> bool" where
  "has_endpoints env ns kc \<longleftrightarrow> (\<exists>e. env_endpointsLister env ns (dispatcher_name kc) = Inr e \<and> e \<noteq> [])"

lemma reconcile_endpoints_spec:
  assumes wf: "status_wf (rs_status s)" and r: "reconcile_endpoints env ns s = (s', e)"
  shows "touches {EndpointsReady, ChannelServiceReady, Addressable} s s'" (is ?t)
    and "\<not> has_endpoints env ns (rs_kc s) \<Longrightarrow> not_ready s'"
    and "normal_event e \<Longrightarrow> honest env s0 \<Longrightarrow> has_endpoints env ns (rs_kc s) \<and>
      (\<forall>t \<in> {EndpointsReady, ChannelServiceReady, Addressable}. dep_status (rs_status s') t = ConditionTrue) \<and>
      ready_agrees (rs_status s') \<and> e = newReconciledNormal (kc_Namespace (rs_kc s)) (kc_Name (rs_kc s)) \<and>
      addressed env (rs_kc s) (rs_status s')" (is "_ \<Longrightarrow> _ \<Longrightarrow> ?P")
proof -
  have fail: "touches {EndpointsReady, ChannelServiceReady, Addressable} s (mark_status env (\<lambda>now. MarkEndpointsFailed now x y) s) \<and>
      not_ready (mark_status env (\<lambda>now. MarkEndpointsFailed now x y) s)" for x y
    using touches_mono [OF mark_touches [OF sets_lifecycle(8)]] mark_not_ready [OF sets_lifecycle(8) _ wf]
    by (auto simp: not_ready_def)
  have "?t \<and> (\<not> has_endpoints env ns (rs_kc s) \<longrightarrow> not_ready s') \<and> (normal_event e \<and> honest env s0 \<longrightarrow> ?P)"
  proof (cases "has_endpoints env ns (rs_kc s)")
    case False
    then show ?thesis
      using r fail by (auto simp: reconcile_endpoints_def has_endpoints_def honest_def Let_def split: sum.splits if_splits)
  next
    case True
    let ?s1 = "mark_status env MarkEndpointsTrue s"
    have r1: "reconcile_address env ns ?s1 = (s', e)"
      using r True by (auto simp: reconcile_endpoints_def has_endpoints_def Let_def)
    have t1: "touches {EndpointsReady} s ?s1" by (rule mark_touches [OF sets_lifecycle(9)])
    have wf1: "status_wf (rs_status ?s1)" using t1 wf by (simp add: touches_def)
    note a = reconcile_address_spec [OF wf1 r1]
    have t: ?t by (rule touches_trans [OF t1 a(1)]) auto
    have "dep_status (rs_status s') EndpointsReady = dep_status (rs_status ?s1) EndpointsReady"
      using a(1) wf1 by (simp add: touches_def kc_dependents_def)
    also have "\<dots> = ConditionTrue" by (rule mark_dep(1) [OF sets_lifecycle(9) wf])
    finally have ep: "dep_status (rs_status s') EndpointsReady = ConditionTrue" .
    have k1: "kc_Meta (rs_kc ?s1) = kc_Meta (rs_kc s)" "addressed env (rs_kc ?s1) = addressed env (rs_kc s)"
      by (simp_all add: mark_status_def addressed_def channel_service_def fun_eq_iff)
    have "normal_event e \<and> honest env s0 \<longrightarrow> ?P"
      using a(2) [of s0] ep True by (auto simp: k1)
    with t True show ?thesis by simp
  qed
  then show ?t "\<not> has_endpoints env ns (rs_kc s) \<Longrightarrow> not_ready s'" "normal_event e \<Longrightarrow> honest env s0 \<Longrightarrow> ?P"
    by blast+
qed

text \<open>
  The whole reconciliation of a valid channel, from conditions that are a part of the channel's
  condition set.
\<close>

lemma step_okD:
  assumes "step_ok T s (s', r) Q"
  shows "touches T s s'" "r = Inl e \<Longrightarrow> not_ready s'" "r = Inr x \<Longrightarrow> Q x s'"
  using assms by (auto simp: step_ok_def)

lemma initialized_wf:
  assumes "cond_partial kc_condSet (st_Conditions (rs_status s))"
  shows "status_wf (rs_status (mark_status env st_InitializeConditions s))"
  using InitializeConditions_spec(1) [OF kc_condSet_wf assms]
  by (simp add: status_wf_def mark_status_def st_InitializeConditions_def)

lemma ReconcileKind_cases:
  assumes part: "cond_partial kc_condSet (st_Conditions (rs_status s))"
    and valid: "Validate (SetDefaults (rs_kc s)) = None"
    and r: "ReconcileKind env s = (s', e)" and h: "honest env s"
  defines "ns \<equiv> kc_Namespace (rs_kc s)"
  shows "status_wf (rs_status s')"
    and "IsReady_status (rs_status s') \<Longrightarrow> has_endpoints env ns (rs_kc s)"
    and "normal_event e \<Longrightarrow> ready_agrees (rs_status s') \<and>
      (\<forall>t \<in> kc_dependents - {DispatcherReady}. dep_status (rs_status s') t = ConditionTrue) \<and>
      e = newReconciledNormal ns (kc_Name (rs_kc s)) \<and> addressed env (rs_kc s) (rs_status s')" (is "_ \<Longrightarrow> ?P")
proof -
  let ?s1 = "mark_status env st_InitializeConditions s"
  let ?s2 = "?s1\<lparr>rs_kc := SetDefaults (rs_kc ?s1)\<rparr>"
  let ?s3 = "mark_status env MarkConfigTrue ?s2"
  let ?s4 = "mark_status env MarkTopicTrue ?s3"
  have valid2: "Validate (SetDefaults (rs_kc ?s1)) = None"
    using valid by (simp add: Validate_def mark_status_def SetDefaults_def Let_def)
  have wf2: "status_wf (rs_status ?s2)" using initialized_wf [OF part] by simp
  have t3: "touches {ConfigReady} ?s2 ?s3" by (rule mark_touches [OF sets_lifecycle(11)])
  have wf3: "status_wf (rs_status ?s3)" using t3 wf2 by (simp add: touches_def)
  have t4: "touches {TopicReady} ?s3 ?s4" by (rule mark_touches [OF sets_lifecycle(10)])
  have wf4: "status_wf (rs_status ?s4)" using t4 wf3 by (simp add: touches_def)
  have names: "kc_Namespace (rs_kc ?s4) = ns" "kc_Name (rs_kc ?s4) = kc_Name (rs_kc s)"
    "om_UID (kc_Meta (rs_kc ?s4)) = om_UID (kc_Meta (rs_kc s))"
    by (simp_all add: mark_status_def ns_def)
  have h4: "honest env ?s4" using h by (simp add: honest_def)
  have ct: "dep_status (rs_status ?s4) ConfigReady = ConditionTrue" "dep_status (rs_status ?s4) TopicReady = ConditionTrue"
    using mark_dep(1) [OF sets_lifecycle(11) wf2, of env] mark_dep(1) [OF sets_lifecycle(10) wf3, of env] t4 wf3
    by (auto simp: touches_def kc_dependents_def)
  obtain s5 r5 where e5: "reconcileDispatcher env ns ?s4 = (s5, r5)" by fastforce
  note d5 = step_okD [OF reconcileDispatcher_ok [OF wf4, of env ns, unfolded e5]]
  have wf5: "status_wf (rs_status s5)" using d5(1) wf4 by (simp add: touches_def)
  have run: "ReconcileKind env s = (case r5 of Inl err \<Rightarrow> (s5, err) | Inr _ \<Rightarrow>
      (case reconcileDispatcherService env ns s5 of
         (s6, Inl err) \<Rightarrow> (s6, err) | (s6, Inr _) \<Rightarrow> reconcile_endpoints env ns s6))"
    using e5 unfolding ReconcileKind_def Let_def by (simp add: valid2 names(1) split: sum.split)
  have "status_wf (rs_status s') \<and> (IsReady_status (rs_status s') \<longrightarrow> has_endpoints env ns (rs_kc s)) \<and>
      (normal_event e \<longrightarrow> ?P)"
  proof (cases r5)
    case (Inl err)
    then show ?thesis
      using r run d5(2) [OF Inl] wf5 reconcileDispatcher_error [OF e5 [unfolded Inl] h4] by (simp add: not_ready_def)
  next
    case (Inr d)
    obtain s6 r6 where e6: "reconcileDispatcherService env ns s5 = (s6, r6)" by fastforce
    note d6 = step_okD [OF reconcileDispatcherService_ok [OF wf5, of env ns, unfolded e6]]
    have wf6: "status_wf (rs_status s6)" using d6(1) wf5 by (simp add: touches_def)
    show ?thesis
    proof (cases r6)
      case (Inl err)
      then show ?thesis
        using r run \<open>r5 = Inr d\<close> e6 d6(2) [OF Inl] wf6 reconcileDispatcherService_error [OF e6 [unfolded Inl] h]
        by (simp add: not_ready_def)
    next
      case (Inr svc)
      then have r': "reconcile_endpoints env ns s6 = (s', e)" using r run \<open>r5 = Inr d\<close> e6 by simp
      note p = reconcile_endpoints_spec [OF wf6 r']
      have wf': "status_wf (rs_status s')" using p(1) wf6 by (simp add: touches_def)
      have t6: "touches {DispatcherReady, ServiceReady} ?s4 s6" by (rule touches_trans [OF d5(1) d6(1)]) auto
      have m6: "kc_Meta (rs_kc s6) = kc_Meta (rs_kc ?s4)" using t6 by (simp add: touches_def)
      have he: "has_endpoints env ns (rs_kc s6) = has_endpoints env ns (rs_kc s)"
        by (simp add: has_endpoints_def dispatcher_name_def m6 names(2))
      have ad: "addressed env (rs_kc s6) st = addressed env (rs_kc s) st" for st
        by (simp add: addressed_def channel_service_def IsControlledBy_def m6 names(3) cong: option.case_cong)
      have "dep_status (rs_status s6) t = ConditionTrue" if "t \<in> {ConfigReady, TopicReady}" for t
        using t6 wf4 ct that by (auto simp: touches_def kc_dependents_def)
      then have "dep_status (rs_status s') t = ConditionTrue" if "t \<in> {ConfigReady, TopicReady, ServiceReady}" for t
        using p(1) wf6 d6(3) [OF Inr] that by (auto simp: touches_def kc_dependents_def)
      then have "normal_event e \<longrightarrow> ?P"
        using p(3) [of s] h by (auto simp: kc_dependents_def m6 names ad)
      then show ?thesis using wf' p(2) he by (auto simp: not_ready_def)
    qed
  qed
  then show "status_wf (rs_status s')" "IsReady_status (rs_status s') \<Longrightarrow> has_endpoints env ns (rs_kc s)"
    "normal_event e \<Longrightarrow> ?P" by blast+
qed

end
