(* ===== verification/Probing.thy ===== *)
theory Probing
  imports Prober
begin

text \<open>
  What the status prober guarantees to the controller, and where it stops short: main properties of
  the theory \<open>Prober\<close> on its reachable states, with a sample run of one probe.
\<close>

section \<open>A sample run\<close>

text \<open>A channel with \<open>n\<close> partitions is probed on one pod, which answers with the given body.\<close>

definition sample_target :: ProbeTarget where
  "sample_target =
     \<lparr>pt_PodIPs = {''10.0.0.1''}, pt_PodPort = ''8081'',
      pt_URL = \<lparr>url_Scheme = ''http'', url_Host = ''ch-dispatcher.ns'', url_Path = ''/ns/ch''\<rparr>\<rparr>"

definition sample_prober :: Prober where
  "sample_prober =
     NewProber \<lparr>ts_sub = sample_subscriber '''', ts_ch = sample_channel 0 [], ts_pendingCount = 0, ts_probedPods = {},
                ts_ready = False, ts_readyPartitions = {}, ts_done = False\<rparr>
               \<lparr>ps_pendingCount = 0, ps_cancelled = False\<rparr>"

definition sample_asked :: "int32 \<Rightarrow> Prober" where
  "sample_asked n =
     fst (IsReady sorted_list_of_set (\<lambda>_. Inr sample_target) (sample_channel n []) (sample_subscriber ''u'') sample_prober)"

definition sample_verified :: "int32 \<Rightarrow> (uid \<rightharpoonup> int list) \<Rightarrow> Prober" where
  "sample_verified n body = decide_item 0 (answer_item 0 (HttpResponse 200 (Some body)) (take_item 0 (sample_asked n)))"

definition sample_probed :: "int32 \<Rightarrow> (uid \<rightharpoonup> int list) \<Rightarrow> Prober" where
  "sample_probed n body = succeed_item 0 (sample_verified n body)"

lemma sample_asked_eq:
  "sample_asked n = sample_prober
     \<lparr>p_targetStates := [''u'' \<mapsto> 0],
      p_states := (p_states sample_prober)(0 :=
        \<lparr>ts_sub = sample_subscriber ''u'', ts_ch = sample_channel n [], ts_pendingCount = 1, ts_probedPods = {''10.0.0.1''},
         ts_ready = False, ts_readyPartitions = {}, ts_done = False\<rparr>),
      p_nextState := 1, p_pods := (p_pods sample_prober)(0 := \<lparr>ps_pendingCount = 1, ps_cancelled = False\<rparr>), p_nextPod := 1,
      p_podContexts := [''10.0.0.1'' \<mapsto> 0], p_ipDone := (p_ipDone sample_prober)(0 := False), p_nextCtx := 1,
      p_workQueue := [\<lparr>wi_targetStates = 0, wi_podState = 0, wi_url = pt_URL sample_target, wi_podIP = ''10.0.0.1'', wi_podPort = ''8081''\<rparr>],
      p_joiners := [(0, 0, 0)], p_watchers := [(0, 0)]\<rparr>"
  by (simp add: sample_asked_def sample_prober_def NewProber_def IsReady_def sample_target_def probeTarget_def Let_def
      probe_ip_def ip_context_def sample_subscriber_def)

lemmas sample_run_defs = sample_probed_def sample_verified_def sample_asked_eq take_item_def answer_item_def prober_Do_def
  probeVerifier_def upd_state_def upd_pod_def decide_item_def podCtx_done_def succeed_item_def onProbingSuccess_def
  checkReadiness_def state_check_def call_ready_def sample_prober_def NewProber_def sample_subscriber_def

lemma sample_asked_reachable: "prober_reachable (sample_asked n)"
proof -
  have "prober_step sample_prober (sample_asked n)" unfolding sample_asked_def
    by (rule prober_step.is_ready [OF sorted_range.go_range_axioms]) (simp add: finite_target_def sample_target_def)
  moreover have "prober_reachable sample_prober" unfolding sample_prober_def by (rule prober_reachable.start)
  ultimately show ?thesis by (blast intro: prober_reachable.step)
qed

lemma sample_verified_reachable:
  assumes "body ''u'' = Some ps"
  shows "prober_reachable (sample_verified n body)"
proof -
  let ?m1 = "take_item 0 (sample_asked n)"
  let ?m2 = "answer_item 0 (HttpResponse 200 (Some body)) ?m1"
  have "prober_step (sample_asked n) ?m1" by (rule prober_step.take_it) (simp add: sample_asked_eq)
  moreover have "prober_step ?m1 ?m2"
    by (rule prober_step.answer) (simp add: sample_asked_eq take_item_def sample_prober_def NewProber_def)
  moreover have "prober_step ?m2 (decide_item 0 ?m2)"
    by (rule prober_step.decide) (simp add: sample_run_defs assms)
  ultimately show ?thesis unfolding sample_verified_def
    using sample_asked_reachable by (blast intro: prober_reachable.step)
qed

lemma sample_probed_reachable:
  assumes "body ''u'' = Some ps"
  shows "prober_reachable (sample_probed n body)"
proof -
  have "prober_step (sample_verified n body) (sample_probed n body)" unfolding sample_probed_def
    by (rule prober_step.succeed) (simp add: sample_run_defs assms)
  with sample_verified_reachable [of body, OF assms] show ?thesis by (blast intro: prober_reachable.step)
qed

section \<open>Soundness\<close>

text \<open>
  C3: The prober reports a subscription ready only on evidence: in every reachable state, an answer
  true means that some probing of exactly this generation of the subscription has received, in
  responses with status 200, at least as many different partitions as the probed channel has.
\<close>

theorem ready_only_on_evidence:
  assumes "prober_reachable m" and "IsReady ord lister ch sub m = (m', Inr True)"
  shows "evidence m' sub"
  using IsReady_evidence [OF reachable_inv [OF assms(1)] assms(2)] .

theorem ready_only_on_evidence_witness:
  "evidence (fst (IsReady sorted_list_of_set (\<lambda>_. Inr sample_target) (sample_channel 1 []) (sample_subscriber ''u'')
      (sample_probed 1 [''u'' \<mapsto> [0]]))) (sample_subscriber ''u'')"
proof (rule ready_only_on_evidence)
  show "prober_reachable (sample_probed 1 [''u'' \<mapsto> [0]])"
    by (rule sample_probed_reachable [where body = "[''u'' \<mapsto> [0]]"]) simp
  show "IsReady sorted_list_of_set (\<lambda>_. Inr sample_target) (sample_channel 1 []) (sample_subscriber ''u'') (sample_probed 1 [''u'' \<mapsto> [0]]) =
      (fst (IsReady sorted_list_of_set (\<lambda>_. Inr sample_target) (sample_channel 1 []) (sample_subscriber ''u'')
         (sample_probed 1 [''u'' \<mapsto> [0]])), Inr True)"
    by (simp add: IsReady_def sample_run_defs isOutdatedTargetState_def sample_target_def sample_channel_def sample_spec_def)
qed

text \<open>
  Readiness is never lost: whatever step the prober, a worker or a goroutine makes, every target
  state keeps its subscription and channel, its ready partitions only grow, a ready state stays ready,
  and evidence for a subscription stays evidence.
\<close>

lemma readiness_is_stable:
  assumes "prober_reachable m" and "prober_step m m'"
  shows "p_nextState m \<le> p_nextState m' \<and>
         (\<forall>s < p_nextState m. ts_sub (p_states m' s) = ts_sub (p_states m s) \<and> ts_ch (p_states m' s) = ts_ch (p_states m s) \<and>
            ts_readyPartitions (p_states m s) \<subseteq> ts_readyPartitions (p_states m' s) \<and>
            (ts_ready (p_states m s) \<longrightarrow> ts_ready (p_states m' s))) \<and>
         (\<forall>sub. evidence m sub \<longrightarrow> evidence m' sub)"
proof -
  note inv = reachable_inv [OF assms(1)]
  from prober_step_spec [OF assms(2) inv] have "prober_inv m'" "evolves m m'" by auto
  with evidence_evolves inv show ?thesis by (auto simp: evolves_def state_le_def)
qed

text \<open>
  The callback that makes the controller look again is called only for subscriptions with evidence,
  with the channel and subscription that were probed, and at most once for every probed pod.
\<close>

lemma callbacks_sound:
  assumes "prober_reachable m"
  shows "(\<forall>c \<in> set (p_calls m). evidence m (rc_sub c) \<and> rc_sub c = ts_sub (p_states m (rc_state c)) \<and>
            rc_ch c = ts_ch (p_states m (rc_state c))) \<and>
         distinct (map rc_pod (p_calls m))"
proof -
  note inv = reachable_inv [OF assms]
  have "evidence m (rc_sub c)" if "c \<in> set (p_calls m)" for c
  proof -
    from inv that have s: "rc_state c < p_nextState m" "ts_ready (p_states m (rc_state c))"
      "rc_sub c = ts_sub (p_states m (rc_state c))"
      by (auto simp: prober_inv_def calls_inv_def)
    with inv have "state_wf (p_responses m) (rc_state c) (p_states m (rc_state c))"
      by (simp add: prober_inv_def states_inv_def)
    with s show ?thesis by (auto simp: evidence_def state_wf_def)
  qed
  with inv show ?thesis by (auto simp: prober_inv_def calls_inv_def)
qed

section \<open>Probing is started and answered\<close>

lemma probe_ips_queue:
  "\<exists>new. p_workQueue (fold (probe_ip s t) ips m) = p_workQueue m @ new \<and> map wi_podIP new = ips \<and>
     (\<forall>w \<in> set new. wi_targetStates w = s \<and> wi_url w = pt_URL t \<and> wi_podPort w = pt_PodPort t)"
proof (induction ips arbitrary: m)
  case (Cons ip ips)
  from Cons.IH [of "probe_ip s t ip m"] show ?case by (auto simp: probe_ip_fields)
qed simp

lemma probe_ips_states:
  "p_states (fold (probe_ip s t) ips m) = p_states m" "p_targetStates (fold (probe_ip s t) ips m) = p_targetStates m"
  "p_probing (fold (probe_ip s t) ips m) = p_probing m" "p_answered (fold (probe_ip s t) ips m) = p_answered m"
  "p_succeeding (fold (probe_ip s t) ips m) = p_succeeding m" "p_nextState (fold (probe_ip s t) ips m) = p_nextState m"
  by (induction ips arbitrary: m) (simp_all add: probe_ip_fields)

lemma probeTarget_effect:
  obtains new st where
    "p_workQueue (probeTarget ord ch sub t m) = p_workQueue m @ new" "map wi_podIP new = ord (pt_PodIPs t)"
    "\<forall>w \<in> set new. wi_targetStates w = p_nextState m \<and> wi_url w = pt_URL t \<and> wi_podPort w = pt_PodPort t"
    "p_states (probeTarget ord ch sub t m) = (p_states m)(p_nextState m := st)"
    "ts_sub st = sub" "ts_probedPods st = pt_PodIPs t"
    "p_targetStates (probeTarget ord ch sub t m) = (p_targetStates m)(ss_UID sub \<mapsto> p_nextState m)"
    "p_nextState (probeTarget ord ch sub t m) = Suc (p_nextState m)"
    "p_probing (probeTarget ord ch sub t m) = p_probing m" "p_answered (probeTarget ord ch sub t m) = p_answered m"
    "p_succeeding (probeTarget ord ch sub t m) = p_succeeding m"
proof -
  let ?st = "\<lparr>ts_sub = sub, ts_ch = ch, ts_pendingCount = of_nat (length (ord (pt_PodIPs t))),
    ts_probedPods = pt_PodIPs t, ts_ready = False, ts_readyPartitions = {}, ts_done = False\<rparr>"
  let ?m1 = "m\<lparr>p_states := (p_states m)(p_nextState m := ?st), p_nextState := Suc (p_nextState m)\<rparr>"
  obtain new where "p_workQueue (fold (probe_ip (p_nextState m) t) (ord (pt_PodIPs t)) ?m1) = p_workQueue ?m1 @ new"
    "map wi_podIP new = ord (pt_PodIPs t)"
    "\<forall>w \<in> set new. wi_targetStates w = p_nextState m \<and> wi_url w = pt_URL t \<and> wi_podPort w = pt_PodPort t"
    using probe_ips_queue [of "p_nextState m" t "ord (pt_PodIPs t)" ?m1] by blast
  then show ?thesis by (intro that [of new ?st]) (simp_all add: probeTarget_def Let_def probe_ips_states)
qed

text \<open>
  Asking about a subscription that is new, has a new generation, or whose pods changed before it was
  ready answers false and starts probing afresh: the old probing is cancelled, the new target state is
  up to date, exactly one probe per ready pod is queued, addressed to the channel's URL, and other
  subscriptions keep their states.
\<close>

lemma probing_starts:
  assumes "go_range ord" and "finite (pt_PodIPs t)" and "lister ch = Inr t"
    and "\<forall>s. p_targetStates m (ss_UID sub) = Some s \<longrightarrow> s < p_nextState m \<and> isOutdatedTargetState (p_states m s) sub (pt_PodIPs t)"
  shows "\<exists>m' new. IsReady ord lister ch sub m = (m', Inr False) \<and>
           p_targetStates m' = (p_targetStates m)(ss_UID sub \<mapsto> p_nextState m) \<and>
           \<not> isOutdatedTargetState (p_states m' (p_nextState m)) sub (pt_PodIPs t) \<and>
           p_workQueue m' = p_workQueue m @ new \<and> mset (map wi_podIP new) = mset_set (pt_PodIPs t) \<and>
           (\<forall>w \<in> set new. wi_targetStates w = p_nextState m \<and> wi_url w = pt_URL t \<and> wi_podPort w = pt_PodPort t) \<and>
           (\<forall>s. p_targetStates m (ss_UID sub) = Some s \<longrightarrow> ts_done (p_states m' s))"
proof -
  let ?e = "ejectStateUnsafe sub m"
  have e: "p_nextState ?e = p_nextState m" "p_workQueue ?e = p_workQueue m"
    "(p_targetStates ?e)(ss_UID sub \<mapsto> x) = (p_targetStates m)(ss_UID sub \<mapsto> x)" for x
    by (auto simp: ejectStateUnsafe_def upd_state_def split: option.splits)
  have run: "IsReady ord lister ch sub m = (probeTarget ord ch sub t ?e, Inr False)"
    using assms(3,4) by (auto simp: IsReady_def ejectStateUnsafe_def split: option.splits)
  obtain new st where n: "p_workQueue (probeTarget ord ch sub t ?e) = p_workQueue ?e @ new" "map wi_podIP new = ord (pt_PodIPs t)"
    "\<forall>w \<in> set new. wi_targetStates w = p_nextState ?e \<and> wi_url w = pt_URL t \<and> wi_podPort w = pt_PodPort t"
    "p_states (probeTarget ord ch sub t ?e) = (p_states ?e)(p_nextState ?e := st)"
    "ts_sub st = sub" "ts_probedPods st = pt_PodIPs t"
    "p_targetStates (probeTarget ord ch sub t ?e) = (p_targetStates ?e)(ss_UID sub \<mapsto> p_nextState ?e)"
    by (rule probeTarget_effect [of ord ch sub t ?e])
  have "mset (map wi_podIP new) = mset_set (pt_PodIPs t)"
    unfolding n(2) using go_range.set_ord [OF assms(1,2)] go_range.distinct_ord [OF assms(1,2)] by (metis mset_set_set)
  moreover have "ts_done (p_states (probeTarget ord ch sub t ?e) s)" if "p_targetStates m (ss_UID sub) = Some s" for s
  proof -
    have "s < p_nextState m" "ts_done (p_states ?e s)"
      using that assms(4) by (auto simp: ejectStateUnsafe_def upd_state_def)
    then show ?thesis by (simp add: n(4) e)
  qed
  ultimately show ?thesis
    unfolding run using n(1,3-7) by (auto simp: e isOutdatedTargetState_def intro!: exI [of _ new])
qed

text \<open>
  When the last outstanding probe of a pod succeeds and all partitions of the channel have been
  reported, the controller is told at once: the callback runs for exactly this subscription, its
  probing is stopped, and from then on its state is ready. With fewer or more partitions reported no
  callback runs and the probe is not repeated.
\<close>

lemma success_calls:
  assumes "i < length (p_succeeding m)" and "p_succeeding m ! i = item"
    and "ps_pendingCount (p_pods m (wi_podState item)) = 1"
    and "\<not> ts_ready (p_states m (wi_targetStates item))"
  shows "(if int (card (ts_readyPartitions (p_states m (wi_targetStates item)))) =
             sint (sp_NumPartitions (kc_Spec (ts_ch (p_states m (wi_targetStates item)))))
          then p_calls (succeed_item i m) = p_calls m @
                 [\<lparr>rc_state = wi_targetStates item, rc_pod = wi_podState item,
                   rc_ch = ts_ch (p_states m (wi_targetStates item)), rc_sub = ts_sub (p_states m (wi_targetStates item))\<rparr>] \<and>
               ts_ready (p_states (succeed_item i m) (wi_targetStates item)) \<and>
               ts_done (p_states (succeed_item i m) (wi_targetStates item))
          else p_calls (succeed_item i m) = p_calls m \<and>
               \<not> ts_ready (p_states (succeed_item i m) (wi_targetStates item))) \<and>
         mset (items m) = add_mset item (mset (items (succeed_item i m)))"
proof -
  let ?m = "m\<lparr>p_succeeding := take i (p_succeeding m) @ drop (Suc i) (p_succeeding m)\<rparr>"
  have eq: "succeed_item i m = onProbingSuccess (wi_targetStates item) (wi_podState item) ?m"
    by (simp add: succeed_item_def assms(2))
  have it: "items (onProbingSuccess s p ?m) = items ?m" for s p
    by (simp add: onProbingSuccess_def Let_def checkReadiness_def items_def upd_pod_def upd_state_def call_ready_def
        split: bool.split)
  have "mset (items m) = add_mset item (mset (items ?m))"
    using mset_remove_nth [OF assms(1)] by (simp add: items_def assms(2))
  then show ?thesis
    unfolding eq it
    by (simp add: onProbingSuccess_def Let_def checkReadiness_def state_check_def upd_pod_def upd_state_def call_ready_def assms(3,4))
qed

section \<open>A partial report is final\<close>

text \<open>
  A target state whose probes have all ended without as many partitions as the channel has. No step of
  the prober, the workers or the goroutines can make it ready.
\<close>

definition exhausted :: "Prober \<Rightarrow> nat \<Rightarrow> bool" where
  "exhausted m s \<longleftrightarrow> s < p_nextState m \<and> \<not> ts_ready (p_states m s) \<and>
     int (card (ts_readyPartitions (p_states m s))) \<noteq> sint (sp_NumPartitions (kc_Spec (ts_ch (p_states m s)))) \<and>
     s \<notin> wi_targetStates ` set (items m)"

lemma exhausted_move:
  assumes "exhausted m s" "set (items m') \<subseteq> set (items m)" "p_states m' = p_states m" "p_nextState m' = p_nextState m"
  shows "exhausted m' s"
  using assms by (auto simp: exhausted_def)

lemma exhausted_upd_state:
  assumes "exhausted m s" "keeps f \<or> s' \<noteq> s"
  shows "exhausted (upd_state s' f m) s"
  using assms by (auto simp: exhausted_def upd_state_def items_def keeps_def state_le_def)

lemma exhausted_upd_pod: "exhausted m s \<Longrightarrow> exhausted (upd_pod p f m) s"
  by (erule exhausted_move) (simp_all add: upd_pod_def items_def)

lemma exhausted_call: "exhausted m s \<Longrightarrow> exhausted (call_ready s' p m) s"
  by (erule exhausted_move) (simp_all add: call_ready_def items_def)

lemma exhausted_check: "exhausted m s \<Longrightarrow> exhausted (fst (checkReadiness s' m)) s"
  by (simp add: checkReadiness_def exhausted_upd_state)

lemma exhausted_eject: "exhausted m s \<Longrightarrow> exhausted (ejectStateUnsafe sub m) s"
  by (auto simp: exhausted_def ejectStateUnsafe_def upd_state_def items_def split: option.splits)

lemma exhausted_probeTarget:
  assumes "exhausted m s"
  shows "exhausted (probeTarget ord ch sub t m) s"
  by (rule probeTarget_effect [of ord ch sub t m]) (use assms in \<open>auto simp: exhausted_def items_def\<close>)

lemma exhausted_IsReady: "exhausted m s \<Longrightarrow> exhausted (fst (IsReady ord lister ch sub m)) s"
  using exhausted_check
  by (auto simp: IsReady_def exhausted_probeTarget exhausted_eject split: sum.splits option.splits prod.splits)
     (metis fst_conv)

lemma exhausted_Refresh: "exhausted m s \<Longrightarrow> exhausted (RefreshPodProbing ord lister visits m) s"
proof (induction visits arbitrary: m)
  case (Cons u visits)
  have c: "exhausted (fst (checkReadiness s' m)) s" for s' by (rule exhausted_check [OF Cons.prems])
  then have "exhausted m1 s" if "checkReadiness s' m = (m1, b)" for s' m1 b by (metis fst_conv that)
  with Cons show ?case
    by (auto simp: Let_def intro!: Cons.IH exhausted_probeTarget exhausted_eject
        split: option.split prod.split bool.split sum.split)
qed simp

lemma set_remove_nth: "set (take i xs @ drop (Suc i) xs) \<subseteq> set xs"
  by (auto dest: in_set_takeD in_set_dropD)

lemma exhausted_answer:
  assumes "exhausted m s" "i < length (p_probing m)"
  shows "exhausted (answer_item i resp m) s"
proof -
  let ?item = "p_probing m ! i"
  obtain m1 ok err where d: "prober_Do ?item resp m = (m1, ok, err)" by (metis prod_cases3)
  have "wi_targetStates ?item \<noteq> s" using assms by (auto simp: exhausted_def items_def)
  then have e1: "exhausted m1 s"
    using d assms(1)
    by (auto simp: prober_Do_def probeVerifier_def exhausted_upd_state
        split: probe_response.splits if_splits option.splits)
  have q: "p_probing m1 = p_probing m"
    using d by (auto simp: prober_Do_def probeVerifier_def upd_state_def
        split: probe_response.splits if_splits option.splits)
  have "?item \<in> set (p_probing m1)" using assms(2) by (simp add: q)
  with set_remove_nth [of i "p_probing m1"] show ?thesis
    by (intro exhausted_move [OF e1]) (auto simp: answer_item_def Let_def d items_def)
qed

lemma exhausted_decide:
  assumes "exhausted m s" "i < length (p_answered m)"
  shows "exhausted (decide_item i m) s"
proof -
  obtain item ok where a: "p_answered m ! i = (item, ok)" by fastforce
  have "(item, ok) \<in> set (p_answered m)" using assms(2) a by (metis nth_mem)
  then have "item \<in> set (items m)" by (force simp: items_def)
  with set_remove_nth [of i "p_answered m"] show ?thesis
    by (intro exhausted_move [OF assms(1)]) (auto simp: decide_item_def a items_def Let_def)
qed

lemma exhausted_success: "exhausted m s \<Longrightarrow> exhausted (onProbingSuccess s' p m) s"
  by (auto simp: onProbingSuccess_def Let_def checkReadiness_def
      intro!: exhausted_call exhausted_upd_state exhausted_upd_pod split: bool.split)

lemma exhausted_succeed: "exhausted m s \<Longrightarrow> exhausted (succeed_item i m) s"
proof -
  assume "exhausted m s"
  then have "exhausted (m\<lparr>p_succeeding := take i (p_succeeding m) @ drop (Suc i) (p_succeeding m)\<rparr>) s"
    using set_remove_nth [of i "p_succeeding m"] by (elim exhausted_move) (auto simp: items_def)
  then show ?thesis by (simp add: succeed_item_def Let_def exhausted_success)
qed

lemma exhausted_watcher: "exhausted m s \<Longrightarrow> exhausted (run_watcher i m) s"
proof -
  assume "exhausted m s"
  then have "exhausted (m\<lparr>p_watchers := take i (p_watchers m) @ drop (Suc i) (p_watchers m)\<rparr>) s"
    by (elim exhausted_move) (auto simp: items_def)
  then show ?thesis
    by (auto simp: run_watcher_def onProbingCancellation_def Let_def checkReadiness_def
        intro!: exhausted_call exhausted_upd_state exhausted_upd_pod split: bool.split prod.split)
qed

lemma exhausted_step: "prober_step m m' \<Longrightarrow> exhausted m s \<Longrightarrow> exhausted m' s"
proof (induction rule: prober_step.induct)
  case (cancel_pod m ip)
  then show ?case by (elim exhausted_move) (auto simp: CancelPodProbing_def items_def split: option.splits)
next
  case (take_it i m)
  then show ?case using set_remove_nth [of i "p_workQueue m"]
    by (intro exhausted_move [OF take_it.prems]) (auto simp: take_item_def items_def)
next
  case (joiner i m s' p c)
  have "exhausted (m\<lparr>p_joiners := take i (p_joiners m) @ drop (Suc i) (p_joiners m)\<rparr>) s"
    by (rule exhausted_move [OF joiner.prems]) (auto simp: items_def)
  then show ?case by (auto simp: run_joiner_def Let_def exhausted_upd_pod split: prod.split)
qed (simp_all add: exhausted_IsReady CancelProbing_def exhausted_eject exhausted_Refresh exhausted_answer
    exhausted_decide exhausted_succeed exhausted_watcher)

text \<open>The success of the last outstanding probe of a target state, with fewer or more partitions than the channel has, exhausts it.\<close>

lemma success_exhausts:
  assumes "i < length (p_succeeding m)" "wi_targetStates (p_succeeding m ! i) = s" "s < p_nextState m" "\<not> ts_ready (p_states m s)"
    and "length (filter (\<lambda>item. wi_targetStates item = s) (items m)) = 1"
    and "int (card (ts_readyPartitions (p_states m s))) \<noteq> sint (sp_NumPartitions (kc_Spec (ts_ch (p_states m s))))"
  shows "exhausted (succeed_item i m) s"
proof -
  let ?m = "m\<lparr>p_succeeding := take i (p_succeeding m) @ drop (Suc i) (p_succeeding m)\<rparr>"
  have "mset (items m) = add_mset (p_succeeding m ! i) (mset (items ?m))"
    using mset_remove_nth [OF assms(1)] by (simp add: items_def)
  then have "filter_mset (\<lambda>item. wi_targetStates item = s) (mset (items m)) =
      add_mset (p_succeeding m ! i) (filter_mset (\<lambda>item. wi_targetStates item = s) (mset (items ?m)))" using assms(2) by simp
  moreover have "size (filter_mset (\<lambda>item. wi_targetStates item = s) (mset (items m))) = 1"
    using assms(5) by (simp flip: mset_filter)
  ultimately have "filter_mset (\<lambda>item. wi_targetStates item = s) (mset (items ?m)) = {#}" by simp
  then have "s \<notin> wi_targetStates ` set (items ?m)" by (auto simp: filter_mset_eq_conv filter_empty_conv simp flip: mset_filter)
  then have "exhausted ?m s" using assms(3,4,6) by (simp add: exhausted_def)
  then show ?thesis by (simp add: succeed_item_def Let_def exhausted_success)
qed

text \<open>
  C40: A partial report is final: once the success of the last outstanding probe of a subscription is recorded while the
  number of partitions that its pods have reported is not that of the channel, the subscription is never probed again and never
  becomes ready. Whatever the prober, its workers and its goroutines do after that, no work item for this target state is ever
  queued, probed or answered, and \<open>IsReady\<close> does not return true as long as this target state is the one consulted; only a new
  generation, other pods or a cancellation replace it.
\<close>

theorem partial_report_is_final:
  assumes "prober_reachable m" and "p_targetStates m (ss_UID sub) = Some s"
    and "i < length (p_succeeding m)" and "wi_targetStates (p_succeeding m ! i) = s"
    and "length (filter (\<lambda>item. wi_targetStates item = s) (items m)) = 1"
    and "\<not> ts_ready (p_states m s)"
    and "int (card (ts_readyPartitions (p_states m s))) \<noteq> sint (sp_NumPartitions (kc_Spec (ts_ch (p_states m s))))"
    and "prober_step\<^sup>*\<^sup>* (succeed_item i m) m'"
  shows "(\<forall>item \<in> set (p_workQueue m' @ p_probing m' @ map fst (p_answered m') @ p_succeeding m'). wi_targetStates item \<noteq> s) \<and>
         (p_targetStates m' (ss_UID sub) = Some s \<longrightarrow> snd (IsReady ord lister ch sub m') \<noteq> Inr True)"
proof -
  have "s < p_nextState m" using reachable_inv [OF assms(1)] assms(2) by (auto simp: prober_inv_def states_inv_def)
  from success_exhausts [OF assms(3,4) this assms(6,5,7)] have "exhausted (succeed_item i m) s" .
  with assms(8) have "exhausted m' s" by (induction rule: rtranclp_induct) (auto dest: exhausted_step)
  then show ?thesis
    by (auto simp: IsReady_def checkReadiness_def state_check_def exhausted_def items_def split: sum.splits option.splits if_splits)
qed

theorem partial_report_is_final_witness:
  "prober_reachable (sample_verified 2 [''u'' \<mapsto> [0]]) \<and>
   0 \<notin> wi_targetStates ` set (p_workQueue (sample_probed 2 [''u'' \<mapsto> [0]])) \<and>
   snd (IsReady sorted_list_of_set (\<lambda>_. Inr sample_target) (sample_channel 2 []) (sample_subscriber ''u'')
      (sample_probed 2 [''u'' \<mapsto> [0]])) \<noteq> Inr True"
proof -
  let ?m = "sample_verified 2 [''u'' \<mapsto> [0]]"
  have r: "prober_reachable ?m" by (rule sample_verified_reachable [where body = "[''u'' \<mapsto> [0]]"]) simp
  have t: "p_targetStates ?m (ss_UID (sample_subscriber ''u'')) = Some 0" "0 < length (p_succeeding ?m)"
    "wi_targetStates (p_succeeding ?m ! 0) = 0" "\<not> ts_ready (p_states ?m 0)"
    by (simp_all add: sample_run_defs)
  have l: "length (filter (\<lambda>item. wi_targetStates item = 0) (items ?m)) = 1" by (simp add: items_def sample_run_defs)
  have p: "int (card (ts_readyPartitions (p_states ?m 0))) \<noteq> sint (sp_NumPartitions (kc_Spec (ts_ch (p_states ?m 0))))"
    by (simp add: sample_run_defs sample_channel_def sample_spec_def)
  have s: "prober_step\<^sup>*\<^sup>* (succeed_item 0 ?m) (sample_probed 2 [''u'' \<mapsto> [0]])" by (simp add: sample_probed_def)
  have u: "p_targetStates (sample_probed 2 [''u'' \<mapsto> [0]]) (ss_UID (sample_subscriber ''u'')) = Some 0"
    by (simp add: sample_run_defs sample_channel_def sample_spec_def)
  show ?thesis using partial_report_is_final [OF r t(1-3) l t(4) p s] r u by (auto simp: image_iff)
qed

section \<open>The counters\<close>

text \<open>
  C30: The counters of the probed pods never wrap around: in every reachable state the 32-bit count of
  pending work items of a pod, which several goroutines decrement without a lock, is one, zero or minus
  one, and at most one work item of the pod is in flight, whether queued, being probed or answered.
\<close>

theorem pod_counters_bounded:
  assumes "prober_reachable m" and "p < p_nextPod m"
  shows "sint (ps_pendingCount (p_pods m p)) \<in> {-1, 0, 1} \<and>
         length (filter (\<lambda>item. wi_podState item = p) (items m)) \<le> 1"
proof -
  have inv: "pods_inv m" using reachable_inv [OF assms(1)] by (simp add: prober_inv_def)
  then have "ps_pendingCount (p_pods m p) \<in> {1, 0, -1}" using assms(2) by (auto simp: pods_inv_def)
  then have "sint (ps_pendingCount (p_pods m p)) \<in> {-1, 0, 1}" by auto
  moreover have "length (filter (\<lambda>item. wi_podState item = p) (items m)) \<le> 1"
  proof -
    have d: "distinct (map wi_podState (items m))" using inv by (simp add: pods_inv_def)
    have "length (filter (\<lambda>x. x = p) (map wi_podState (items m))) \<le> 1"
    proof (cases "p \<in> set (map wi_podState (items m))")
      case True
      with d have "filter (\<lambda>x. x = p) (map wi_podState (items m)) = [p]" by (rule filter_eq_single)
      then show ?thesis by simp
    next
      case False
      then have "filter (\<lambda>x. x = p) (map wi_podState (items m)) = []" by (auto simp: filter_empty_conv)
      then show ?thesis by simp
    qed
    then show ?thesis by (simp add: filter_map comp_def)
  qed
  ultimately show ?thesis by simp
qed

theorem pod_counters_bounded_witness:
  "sint (ps_pendingCount (p_pods (sample_verified 1 [''u'' \<mapsto> [0]]) 0)) \<in> {-1, 0, 1}"
proof -
  have r: "prober_reachable (sample_verified 1 [''u'' \<mapsto> [0]])"
    by (rule sample_verified_reachable [where body = "[''u'' \<mapsto> [0]]"]) simp
  have "0 < p_nextPod (sample_verified 1 [''u'' \<mapsto> [0]])" by (simp add: sample_run_defs)
  from pod_counters_bounded [OF r this] show ?thesis by blast
qed

end
