(* ===== verification/Reconciling.thy ===== *)
theory Reconciling
  imports Controller Probing
begin

text \<open>
  What a pass of the controller guarantees: main properties of the theory \<open>Controller\<close>. A pass leaves a
  well-formed status that is Ready only with endpoints, reports only subscribers with evidence, and
  finalization stops all probing; and the places where a pass loses or overwrites something.
\<close>

section \<open>A sample environment\<close>

text \<open>All objects of the channel \<open>ns/ch\<close> exist already and nothing has to be written.\<close>

definition sample_env :: env where
  "sample_env =
     \<lparr>env_systemNamespace = ''sys'', env_dispatcherImage = ''img'', env_dispatcherServiceAccount = ''sa'',
      env_clusterDomain = ''cluster.local'', env_now = int,
      env_serviceAccountLister = (\<lambda>ns n. Inr (MakeServiceAccount ns n)),
      env_roleBindingLister = (\<lambda>ns n. Inr (MakeRoleBinding ns n (MakeServiceAccount ns ''sa'') n)),
      env_serviceLister = (\<lambda>ns n. Inl (ApiNotFound n)),
      env_endpointsLister = (\<lambda>ns n. Inr [[''10.0.0.1'']]),
      env_createServiceAccount = Inr, env_createRoleBinding = Inr, env_createDeployment = Inr,
      env_updateDeployment = (\<lambda>_. Inl (ErrorText ''refused'')), env_createService = Inr, env_updateService = Inr,
      env_createPatch = (\<lambda>before after. Inr (map sst_UID (st_Subscribers (kc_Status after)))),
      env_marshalPatch = (\<lambda>p. Inr (concat p)), env_patch = (\<lambda>_. None), env_ord = sorted_list_of_set\<rparr>"

definition sample_state :: "KafkaTopicChannel \<Rightarrow> Prober \<Rightarrow> rstate" where
  "sample_state kc m =
     \<lparr>rs_kc = kc, rs_deployments = (\<lambda>ns n. Inr (MakeDispatcher (sample_args\<lparr>da_Image := ''old''\<rparr>))),
      rs_statusManager = m, rs_effects = [], rs_marks = 0\<rparr>"


section \<open>The outcome of a pass\<close>



lemma ReconcileKind_invalid:
  assumes "Validate (SetDefaults (rs_kc s)) = Some err"
  shows "\<exists>s'. ReconcileKind env s = (s', ErrorText (fe_Error (Some err))) \<and>
           rs_effects s' = rs_effects s \<and> rs_statusManager s' = rs_statusManager s \<and> rs_deployments s' = rs_deployments s \<and>
           (status_wf (kc_Status (rs_kc s)) \<longrightarrow> kc_Status (rs_kc s') = kc_Status (rs_kc s))"
proof -
  have "Validate (SetDefaults (rs_kc (mark_status env st_InitializeConditions s))) = Some err"
    using assms by (simp add: Validate_def mark_status_def SetDefaults_def Let_def)
  then show ?thesis
    unfolding ReconcileKind_def Let_def
    by (simp add: mark_status_def st_InitializeConditions_def SetDefaults_def status_wf_def InitializeConditions_idle Let_def)
qed

text \<open>
  An invalid channel is rejected before anything is done: the error lists the violations, no object
  is written, no subscription is probed, and no condition is marked: what the status says about the
  new generation is left to the reconciler around this method.
\<close>

lemma invalid_channel_rejected:
  assumes "Validate (SetDefaults (rs_kc s)) = Some err"
  shows "\<exists>s'. ReconcileKind env s = (s', ErrorText (fe_Error (Some err))) \<and>
           rs_effects s' = rs_effects s \<and> rs_statusManager s' = rs_statusManager s \<and> rs_deployments s' = rs_deployments s \<and>
           (status_wf (kc_Status (rs_kc s)) \<longrightarrow> kc_Status (rs_kc s') = kc_Status (rs_kc s))"
  using assms by (rule ReconcileKind_invalid)

section \<open>Subscribers\<close>

text \<open>The loop over the subscribers is the client \<open>ask_all\<close> of the manager's interface.\<close>

definition ready_status :: "SubscriberSpec \<Rightarrow> SubscriberStatus" where
  "ready_status sub = \<lparr>sst_UID = ss_UID sub, sst_ObservedGeneration = ss_Generation sub, sst_Ready = ConditionTrue, sst_Message = ''''\<rparr>"

abbreviation ask_prober ::
  "env \<Rightarrow> KafkaTopicChannel \<Rightarrow> SubscriberSpec list \<Rightarrow> Prober \<Rightarrow> Prober \<times> (go_error + bool) list" where
  "ask_prober env \<equiv> prober_manager.ask_all (env_ord env) (ListProbeTargets (env_endpointsLister env))"

lemma subscriber_loop_ask:
  "subscriber_loop env ch subs m acc =
     (case ask_prober env ch subs m of
        (m', rs) \<Rightarrow> (m', acc @ map (ready_status \<circ> fst) (filter (\<lambda>(sub, r). r = Inr True) (zip subs rs))))"
proof (induction subs arbitrary: m acc)
  case Nil
  then show ?case by simp
next
  case (Cons sub subs)
  obtain m1 r where r: "IsReady (env_ord env) (ListProbeTargets (env_endpointsLister env)) ch sub m = (m1, r)" by fastforce
  obtain m2 rs where rs: "ask_prober env ch subs m1 = (m2, rs)" by fastforce
  show ?case by (cases r) (auto simp: r rs Cons.IH ready_status_def split: bool.splits)
qed

lemma subscriber_loop_backed:
  assumes "prober_inv m" "subscriber_loop env ch subs m [] = (m', sts)"
  shows "prober_inv m' \<and> (\<forall>st \<in> set sts. \<exists>sub \<in> set subs. st = ready_status sub \<and> evidence m' sub)"
proof -
  obtain m2 rs where ask: "ask_prober env ch subs m = (m2, rs)" by fastforce
  have eq: "m' = m2" "sts = map (ready_status \<circ> fst) (filter (\<lambda>(sub, r). r = Inr True) (zip subs rs))"
    using assms(2) by (auto simp: subscriber_loop_ask ask)
  note b = prober_manager.ask_all_backed [OF assms(1) ask]
  have "evidence m' sub \<and> sub \<in> set subs" if mem: "(sub, Inr True) \<in> set (zip subs rs)" for sub
  proof -
    from mem obtain i where "i < length subs" "i < length rs" "sub = subs ! i" "rs ! i = Inr True"
      by (auto simp: in_set_zip)
    with b show ?thesis by (auto simp: eq(1))
  qed
  moreover have "prober_inv m'" using prober_manager.ask_all_keeps [OF assms(1)] ask eq(1) by (metis fst_conv)
  ultimately show ?thesis by (auto simp: eq(2))
qed

text \<open>
  C15: The subscribers that the controller reports: the patch of the status is computed from a copy of
  the channel that lists only subscribers of its specification, with their generation, for each of
  which the prober has evidence; nothing else of the channel differs in the copy, and at most this one
  patch is sent.
\<close>

theorem reported_subscribers_have_evidence:
  assumes "prober_inv (rs_statusManager s)" and "reconcileSubscribers env s = (s', r)"
  shows "\<exists>sts. (\<forall>st \<in> set sts. \<exists>sub \<in> set (sp_Subscribers (kc_Spec (rs_kc s))).
                  sst_UID st = ss_UID sub \<and> sst_ObservedGeneration st = ss_Generation sub \<and> evidence (rs_statusManager s') sub) \<and>
               prober_inv (rs_statusManager s') \<and> rs_kc s' = rs_kc s \<and>
               (rs_effects s' = rs_effects s \<or>
                (\<exists>ops patch. env_createPatch env (rs_kc s)
                    ((rs_kc s)\<lparr>kc_Status := (kc_Status (rs_kc s))\<lparr>st_Subscribers := sts\<rparr>\<rparr>) = Inr ops \<and> ops \<noteq> [] \<and>
                  env_marshalPatch env ops = Inr patch \<and>
                  rs_effects s' = rs_effects s @ [PatchStatus (kc_Namespace (rs_kc s)) (kc_Name (rs_kc s)) patch]))"
proof -
  obtain m1 sts where l: "subscriber_loop env (rs_kc s) (sp_Subscribers (kc_Spec (rs_kc s))) (rs_statusManager s) [] = (m1, sts)"
    by fastforce
  have m: "rs_statusManager s' = m1"
    using assms(2) by (auto simp: reconcileSubscribers_def Let_def l emit_def split: sum.splits if_splits option.splits)
  have kc: "rs_kc s' = rs_kc s" using reconcileSubscribers_kc [of env s] assms(2) by simp
  have eff: "rs_effects s' = rs_effects s \<or>
      (\<exists>ops patch. env_createPatch env (rs_kc s) ((rs_kc s)\<lparr>kc_Status := (kc_Status (rs_kc s))\<lparr>st_Subscribers := sts\<rparr>\<rparr>) = Inr ops \<and>
        ops \<noteq> [] \<and> env_marshalPatch env ops = Inr patch \<and>
        rs_effects s' = rs_effects s @ [PatchStatus (kc_Namespace (rs_kc s)) (kc_Name (rs_kc s)) patch])"
    using assms(2) by (auto simp: reconcileSubscribers_def Let_def l emit_def split: sum.splits if_splits option.splits)
  note b = subscriber_loop_backed [OF assms(1) l]
  have "\<forall>st \<in> set sts. \<exists>sub \<in> set (sp_Subscribers (kc_Spec (rs_kc s))).
      sst_UID st = ss_UID sub \<and> sst_ObservedGeneration st = ss_Generation sub \<and> evidence m1 sub"
    using b by (fastforce simp: ready_status_def)
  with b kc eff show ?thesis unfolding m by blast
qed

theorem reported_subscribers_have_evidence_witness:
  "prober_inv (rs_statusManager (fst (reconcileSubscribers sample_env
      (sample_state (sample_channel 1 [sample_subscriber ''u'']) (sample_probed 1 [''u'' \<mapsto> [0]])))))"
proof -
  let ?s = "sample_state (sample_channel 1 [sample_subscriber ''u'']) (sample_probed 1 [''u'' \<mapsto> [0]])"
  have "prober_reachable (sample_probed 1 [''u'' \<mapsto> [0]])"
    by (rule sample_probed_reachable [where body = "[''u'' \<mapsto> [0]]"]) simp
  then have inv: "prober_inv (rs_statusManager ?s)" by (simp add: sample_state_def reachable_inv)
  have run: "reconcileSubscribers sample_env ?s = (fst (reconcileSubscribers sample_env ?s), snd (reconcileSubscribers sample_env ?s))"
    by simp
  from reported_subscribers_have_evidence [OF inv run] show ?thesis by blast
qed

section \<open>Finalization\<close>

lemma cancel_targets: "p_targetStates (CancelProbing sub m) = (p_targetStates m)(ss_UID sub := None)"
  by (auto simp: CancelProbing_def ejectStateUnsafe_def upd_state_def split: option.splits)

lemma cancel_done: "ts_done (p_states m x) \<Longrightarrow> ts_done (p_states (CancelProbing sub m) x)"
  by (auto simp: CancelProbing_def ejectStateUnsafe_def upd_state_def split: option.splits)

lemma cancel_all:
  "p_targetStates (fold CancelProbing subs m) = (\<lambda>u. if u \<in> ss_UID ` set subs then None else p_targetStates m u) \<and>
   (\<forall>x. ts_done (p_states m x) \<longrightarrow> ts_done (p_states (fold CancelProbing subs m) x)) \<and>
   (\<forall>u \<in> ss_UID ` set subs. \<forall>x. p_targetStates m u = Some x \<longrightarrow> ts_done (p_states (fold CancelProbing subs m) x))"
proof (induction subs arbitrary: m)
  case Nil
  then show ?case by simp
next
  case (Cons sub subs)
  have "ts_done (p_states (CancelProbing sub m) x)" if "p_targetStates m (ss_UID sub) = Some x" for x
    using that by (simp add: CancelProbing_def ejectStateUnsafe_def upd_state_def)
  note sub = this
  let ?m = "fold CancelProbing (sub # subs) m"
  have "ts_done (p_states ?m x)" if "u \<in> ss_UID ` set (sub # subs)" "p_targetStates m u = Some x" for u x
  proof (cases "u = ss_UID sub")
    case True
    with that sub Cons [of "CancelProbing sub m"] show ?thesis by simp
  next
    case False
    with that Cons [of "CancelProbing sub m"] show ?thesis by (auto simp: cancel_targets)
  qed
  moreover have "p_targetStates ?m = (\<lambda>u. if u \<in> ss_UID ` set (sub # subs) then None else p_targetStates m u)"
    using Cons [of "CancelProbing sub m"] by (auto simp: cancel_targets fun_eq_iff)
  moreover have "ts_done (p_states ?m x)" if "ts_done (p_states m x)" for x
    using Cons [of "CancelProbing sub m"] cancel_done [OF that, of sub] by simp
  ultimately show ?case by blast
qed

text \<open>
  Finalization always lets the finalizer go (it reports a normal event), stops the probing of every
  subscriber of the channel, leaves the probing of all other subscriptions alone, and writes nothing to
  the cluster.
\<close>

lemma finalize_stops_probing:
  "\<exists>s'. FinalizeKind s = (s', newReconciledNormal (kc_Namespace (rs_kc s)) (kc_Name (rs_kc s))) \<and>
     (\<forall>u. p_targetStates (rs_statusManager s') u =
        (if u \<in> ss_UID ` set (sp_Subscribers (kc_Spec (rs_kc s))) then None else p_targetStates (rs_statusManager s) u)) \<and>
     (\<forall>u x. u \<in> ss_UID ` set (sp_Subscribers (kc_Spec (rs_kc s))) \<longrightarrow> p_targetStates (rs_statusManager s) u = Some x \<longrightarrow>
        ts_done (p_states (rs_statusManager s') x)) \<and>
     rs_effects s' = rs_effects s \<and> rs_kc s' = rs_kc s"
  using cancel_all [of "sp_Subscribers (kc_Spec (rs_kc s))" "rs_statusManager s"]
  by (auto simp: FinalizeKind_def Let_def)

section \<open>The deployment\<close>

lemma find_container_from_names:
  "map ct_Name cs = map ct_Name cs' \<Longrightarrow> find_container_from k cs name = find_container_from k cs' name"
proof (induction cs arbitrary: cs' k)
  case (Cons c cs)
  then obtain c' cs'' where "cs' = c' # cs''" "ct_Name c' = ct_Name c" "map ct_Name cs = map ct_Name cs''" by auto
  with Cons.IH [of cs''] show ?case by simp
qed simp

lemma FindContainer_index:
  assumes "FindContainer d name = Some i"
  shows "i < length (dp_Containers d)" "ct_Name (dp_Containers d ! i) = name"
  using find_container_from_spec [OF assms [unfolded FindContainer_def]] by simp_all

lemma expected_image:
  "FindContainer (MakeDispatcher (dispatcher_args env ns kc)) DispatcherContainerName = Some 0"
  "ct_Image (dp_Containers (MakeDispatcher (dispatcher_args env ns kc)) ! 0) = env_dispatcherImage env"
  by (rule FindContainer_MakeDispatcher) (simp add: MakeDispatcher_def dispatcher_args_def)

text \<open>
  A deployment with the right image and at least one replica is left alone, whatever the rest of it
  and the channel say: nothing is written, so a later change of the channel's topic, bootstrap servers
  or credentials does not reach a dispatcher that is already deployed.
\<close>

lemma settled_deployment_kept:
  assumes "rs_deployments s ns (dispatcher_name (rs_kc s)) = Inr d"
    and "FindContainer d DispatcherContainerName = Some i"
    and "ct_Image (dp_Containers d ! i) = env_dispatcherImage env" and "dp_Replicas d \<noteq> 0"
  shows "reconcile_deployment env ns s = (propagate_deployment env d s, Inr d) \<and>
         rs_effects (fst (reconcile_deployment env ns s)) = rs_effects s"
proof -
  have "store_deployment ns (dispatcher_name (rs_kc s)) d s = s"
    using assms(1) by (simp add: store_deployment_def fun_upd_idem)
  then have "reconcile_deployment env ns s = (propagate_deployment env d s, Inr d)"
    using assms by (simp add: reconcile_deployment_def Let_def expected_image)
  then show ?thesis by (simp add: propagate_deployment_def mark_status_def)
qed

lemma update_refused:
  assumes "\<And>x. env_updateDeployment env x = Inl err"
  obtains s1 where "update_deployment env d2 (store_deployment ns name d2 s) = (s1, Inl (newDeploymentWarn err))"
    "rs_effects s1 = rs_effects s @ [UpdateDeployment d2]" "rs_deployments s1 ns name = Inr d2"
    "dispatcher_name (rs_kc s1) = dispatcher_name (rs_kc s)"
  by (rule that [of "fst (update_deployment env d2 (store_deployment ns name d2 s))"])
     (simp_all add: update_deployment_def Let_def assms emit_def mark_status_def store_deployment_def dispatcher_name_def)

text \<open>
  A failed update of the deployment is forgotten: the new image and replica count were already
  written into the object of the lister's cache, so the next pass finds nothing to update and succeeds,
  although the cluster still runs the old deployment.
\<close>

lemma failed_update_forgotten:
  assumes "rs_deployments s ns (dispatcher_name (rs_kc s)) = Inr d"
    and "FindContainer d DispatcherContainerName = Some i"
    and "ct_Image (dp_Containers d ! i) \<noteq> env_dispatcherImage env \<or> dp_Replicas d = 0"
    and "\<And>x. env_updateDeployment env x = Inl err"
  shows "\<exists>s1 s2 d1. reconcile_deployment env ns s = (s1, Inl (newDeploymentWarn err)) \<and>
           rs_effects s1 = rs_effects s @ [UpdateDeployment d1] \<and>
           reconcile_deployment env ns s1 = (s2, Inr d1) \<and> rs_effects s2 = rs_effects s1"
proof -
  let ?name = "dispatcher_name (rs_kc s)" and ?c = "dp_Containers d ! i"
  let ?d1 = "if ct_Image ?c \<noteq> env_dispatcherImage env
             then d\<lparr>dp_Containers := (dp_Containers d)[i := ?c\<lparr>ct_Image := env_dispatcherImage env\<rparr>]\<rparr> else d"
  let ?d2 = "if dp_Replicas d = 0 then ?d1\<lparr>dp_Replicas := 1\<rparr> else ?d1"
  note i = FindContainer_index [OF assms(2)]
  have names: "map ct_Name (dp_Containers ?d2) = map ct_Name (dp_Containers d)"
    using i(1) by (auto simp: map_update intro!: list_update_same_conv [THEN iffD2])
  have found: "FindContainer ?d2 DispatcherContainerName = Some i"
    using assms(2) find_container_from_names [OF names] by (simp add: FindContainer_def)
  have settled: "ct_Image (dp_Containers ?d2 ! i) = env_dispatcherImage env" "dp_Replicas ?d2 \<noteq> 0"
    using i(1) by simp_all
  obtain s1 where upd: "update_deployment env ?d2 (store_deployment ns ?name ?d2 s) = (s1, Inl (newDeploymentWarn err))"
    "rs_effects s1 = rs_effects s @ [UpdateDeployment ?d2]" "rs_deployments s1 ns ?name = Inr ?d2"
    "dispatcher_name (rs_kc s1) = ?name"
    by (rule update_refused [OF assms(4)])
  have run: "reconcile_deployment env ns s = update_deployment env ?d2 (store_deployment ns ?name ?d2 s)"
    using assms(1-3) by (auto simp: reconcile_deployment_def Let_def expected_image)
  from settled_deployment_kept [OF upd(3) [folded upd(4)] found settled] run upd(1,2) show ?thesis by (metis fst_conv)
qed

section \<open>The service of the channel\<close>

text \<open>
  A service that merely has the name of the channel's service is overwritten before its owner is
  checked: with another specification it is updated to the channel's, and only then the pass fails
  because the channel does not own it.
\<close>

lemma foreign_service_overwritten:
  assumes "env_serviceLister env (kc_Namespace (rs_kc s)) (MakeChannelServiceName (kc_Name (rs_kc s))) = Inr svc"
    and "\<not> IsControlledBy (sv_Meta svc) (kc_Meta (rs_kc s))"
    and "ssp_Type (sv_Spec svc) \<noteq> ''ExternalName''"
    and "\<And>x. env_updateService env x = Inr x"
  shows "\<exists>s' err svc'. reconcileChannelService env ns s = (s', Inl err) \<and>
           rs_effects s' = rs_effects s @ [UpdateService svc'] \<and> sv_Meta svc' = sv_Meta svc \<and>
           sv_Spec svc' = \<lparr>ssp_Type = ''ExternalName'',
             ssp_ExternalName = GetServiceHostname (env_clusterDomain env) (dispatcher_name (rs_kc s)) ns,
             ssp_Selector = Map.empty, ssp_Ports = []\<rparr>"
proof -
  have "sv_Spec svc \<noteq> \<lparr>ssp_Type = ''ExternalName'', ssp_ExternalName = x, ssp_Selector = y, ssp_Ports = z\<rparr>" for x y z
    using assms(3) by auto
  then show ?thesis
    using assms(1,2,4)
    by (auto simp: reconcileChannelService_def Let_def MakeK8sService_External check_owner_def emit_def mark_status_def)
qed

end
