(* ===== verification/GenReconciler.thy ===== *)
theory GenReconciler
  imports Lifecycle Validation
begin

text \<open>
  The generated reconciler around the business logic
  (\<open>pkg/client/injection/reconciler/messaging/v1alpha1/kafkatopicchannel\<close>: \<open>reconciler.go\<close>, \<open>state.go\<close>)
  with the parts of \<open>knative.dev/pkg/reconciler\<close> it calls: it takes a key from the work queue, reads the
  channel, decides which method of the business logic to call, keeps the finalizer, and writes the
  status back. The business logic works on a state \<open>'w\<close> of its own and may implement the optional
  interfaces. The lister and the client are arguments; the client's answers may depend on all calls
  made before.
\<close>

section \<open>State\<close>

datatype reconcile_method = DoReconcileKind | DoFinalizeKind | DoObserveKind | DoObserveFinalizeKind | DoUnknown

text \<open>
  What a pass does, in order: calls of a method of the business logic with the resource it gets, and the
  calls of the API. A finalizer patch carries the finalizers and the resource version.
\<close>

datatype gen_call =
    Called reconcile_method KafkaTopicChannel
  | GetLive string string
  | UpdateStatus KafkaTopicChannel
  | PatchFinalizers string string "string list" string
  | Recorded string string string

record 'w gstate =
  g_world :: 'w
  g_log :: "gen_call list"

type_synonym 'w doReconcile = "KafkaTopicChannel \<Rightarrow> 'w \<Rightarrow> 'w \<times> KafkaTopicChannel \<times> go_error option"

text \<open>The business logic: \<open>Interface\<close>, and \<open>Finalizer\<close>, \<open>ReadOnlyInterface\<close>, \<open>ReadOnlyFinalizer\<close>, \<open>OnDeletionInterface\<close> where implemented.\<close>

record 'w business =
  bz_ReconcileKind :: "'w doReconcile"
  bz_FinalizeKind :: "'w doReconcile option"
  bz_ObserveKind :: "'w doReconcile option"
  bz_ObserveFinalizeKind :: "'w doReconcile option"
  bz_ObserveDeletion :: "(NamespacedName \<Rightarrow> 'w \<Rightarrow> 'w \<times> go_error option) option"

record 'w reconcilerImpl =
  ri_IsLeaderFor :: "NamespacedName \<Rightarrow> bool"
  ri_get :: "gen_call list \<Rightarrow> string \<Rightarrow> string \<Rightarrow> go_error + KafkaTopicChannel"
  ri_updateStatus :: "gen_call list \<Rightarrow> KafkaTopicChannel \<Rightarrow> go_error option"
  ri_patch :: "gen_call list \<Rightarrow> string \<Rightarrow> string \<Rightarrow> string list \<Rightarrow> string \<Rightarrow> go_error + KafkaTopicChannel"
  ri_marshalPatch :: "string list \<Rightarrow> string \<Rightarrow> go_error option"
  ri_Lister :: "string \<Rightarrow> string \<Rightarrow> go_error + KafkaTopicChannel"
  ri_reconciler :: "'w business"
  ri_finalizerName :: string
  ri_skipStatusUpdates :: bool
  ri_preTime :: time
  ri_postTime :: time

definition g_emit :: "gen_call \<Rightarrow> 'w gstate \<Rightarrow> 'w gstate" where
  "g_emit c g = g\<lparr>g_log := g_log g @ [c]\<rparr>"

text \<open>The verb \<open>%q\<close> on a text without special characters.\<close>

definition quoted :: "string \<Rightarrow> string" where
  "quoted x = [CHR 0x22] @ x @ [CHR 0x22]"

section \<open>The key and the method\<close>

definition SplitMetaNamespaceKey :: "string \<Rightarrow> go_error + string \<times> string" where
  "SplitMetaNamespaceKey key =
     (case go_split CHR ''/'' key of
        [name] \<Rightarrow> Inr ('''', name)
      | [namespace, name] \<Rightarrow> Inr (namespace, name)
      | _ \<Rightarrow> Inl (ErrorText (''unexpected key format: '' @ quoted key)))"

record state =
  s_key :: string
  s_namespace :: string
  s_name :: string
  s_isROI :: bool
  s_isROF :: bool
  s_isLeader :: bool

definition newState :: "string \<Rightarrow> 'w reconcilerImpl \<Rightarrow> go_error + state" where
  "newState key r =
     (case SplitMetaNamespaceKey key of
        Inl _ \<Rightarrow> Inl (ErrorText (''invalid resource key: '' @ key))
      | Inr (namespace, name) \<Rightarrow>
          Inr \<lparr>s_key = key, s_namespace = namespace, s_name = name,
               s_isROI = (bz_ObserveKind (ri_reconciler r) \<noteq> None),
               s_isROF = (bz_ObserveFinalizeKind (ri_reconciler r) \<noteq> None),
               s_isLeader = ri_IsLeaderFor r \<lparr>nn_Namespace = namespace, nn_Name = name\<rparr>\<rparr>)"

definition isNotLeaderNorObserver :: "state \<Rightarrow> bool" where
  "isNotLeaderNorObserver s \<longleftrightarrow> \<not> s_isLeader s \<and> \<not> s_isROI s \<and> \<not> s_isROF s"

definition reconcileMethodFor ::
  "'w reconcilerImpl \<Rightarrow> state \<Rightarrow> KafkaTopicChannel \<Rightarrow> reconcile_method \<times> 'w doReconcile option" where
  "reconcileMethodFor r s ob =
     (let b = ri_reconciler r in
      if om_DeletionTimestamp (kc_Meta ob) = None then
        (if s_isLeader s then (DoReconcileKind, Some (bz_ReconcileKind b))
         else if s_isROI s then (DoObserveKind, bz_ObserveKind b)
         else (DoUnknown, None))
      else if s_isLeader s \<and> bz_FinalizeKind b \<noteq> None then (DoFinalizeKind, bz_FinalizeKind b)
      else if \<not> s_isLeader s \<and> s_isROF s then (DoObserveFinalizeKind, bz_ObserveFinalizeKind b)
      else (DoUnknown, None))"

section \<open>Before and after the business logic\<close>

definition failedGenerationBump :: string where
  "failedGenerationBump = ''NewObservedGenFailure''"

definition PreProcessReconcile :: "time \<Rightarrow> KafkaTopicChannel \<Rightarrow> KafkaTopicChannel" where
  "PreProcessReconcile now resource =
     (let r1 = SetDefaults resource;
          r2 = r1\<lparr>kc_Status := st_InitializeConditions now (kc_Status r1)\<rparr>
      in if st_ObservedGeneration (kc_Status r2) \<noteq> om_Generation (kc_Meta r2)
         then r2\<lparr>kc_Status := markUnknown now ConditionReady failedGenerationBump ''unsuccessfully observed a new generation'' (kc_Status r2)\<rparr>
         else r2)"

definition groom_condition :: "time \<Rightarrow> Condition list \<Rightarrow> Condition \<Rightarrow> Condition" where
  "groom_condition now old cond =
     (case GetCondition (c_Type cond) old of
        Some oldCond \<Rightarrow>
          (let c1 = cond\<lparr>c_LastTransitionTime := c_LastTransitionTime oldCond\<rparr> in
           if c1 = oldCond then c1 else cond\<lparr>c_LastTransitionTime := now\<rparr>)
      | None \<Rightarrow> cond\<lparr>c_LastTransitionTime := now\<rparr>)"

definition groomConditionsTransitionTime :: "time \<Rightarrow> KafkaTopicChannel \<Rightarrow> KafkaTopicChannel \<Rightarrow> KafkaTopicChannel" where
  "groomConditionsTransitionTime now resource oldResource =
     resource\<lparr>kc_Status := (kc_Status resource)\<lparr>st_Conditions :=
        map (groom_condition now (st_Conditions (kc_Status oldResource))) (st_Conditions (kc_Status resource))\<rparr>\<rparr>"

definition PostProcessReconcile :: "time \<Rightarrow> KafkaTopicChannel \<Rightarrow> KafkaTopicChannel \<Rightarrow> KafkaTopicChannel" where
  "PostProcessReconcile now resource oldResource =
     groomConditionsTransitionTime now
       (resource\<lparr>kc_Status := (kc_Status resource)\<lparr>st_ObservedGeneration := om_Generation (kc_Meta resource)\<rparr>\<rparr>) oldResource"

section \<open>Finalizers\<close>

definition updateFinalizersFiltered ::
  "'w reconcilerImpl \<Rightarrow> KafkaTopicChannel \<Rightarrow> 'w gstate \<Rightarrow> 'w gstate \<times> (go_error + KafkaTopicChannel)" where
  "updateFinalizersFiltered r resource g =
     (let ns = kc_Namespace resource; name = kc_Name resource in
      case ri_Lister r ns name of
        Inl err \<Rightarrow> (g, Inl err)
      | Inr existing \<Rightarrow>
          (let existingFinalizers = om_Finalizers (kc_Meta existing);
               has = ri_finalizerName r \<in> set existingFinalizers;
               wanted = ri_finalizerName r \<in> set (om_Finalizers (kc_Meta resource))
           in if wanted = has then (g, Inr resource)
              else
                (let finalizers = (if wanted then existingFinalizers @ [ri_finalizerName r]
                                   else sorted_list_of_set (set existingFinalizers - {ri_finalizerName r}));
                     rv = om_ResourceVersion (kc_Meta existing)
                 in case ri_marshalPatch r finalizers rv of
                      Some err \<Rightarrow> (g, Inl err)
                    | None \<Rightarrow>
                        (let g1 = g_emit (PatchFinalizers ns name finalizers rv) g in
                         case ri_patch r (g_log g) ns name finalizers rv of
                           Inl err \<Rightarrow>
                             (g_emit (Recorded ''Warning'' ''FinalizerUpdateFailed''
                                (''Failed to update finalizers for '' @ quoted name @ '': '' @ error_text err)) g1, Inl err)
                         | Inr updated \<Rightarrow>
                             (g_emit (Recorded ''Normal'' ''FinalizerUpdate'' (''Updated '' @ quoted name @ '' finalizers'')) g1, Inr updated)))))"

definition with_finalizers :: "string list \<Rightarrow> KafkaTopicChannel \<Rightarrow> KafkaTopicChannel" where
  "with_finalizers fs kc = kc\<lparr>kc_Meta := (kc_Meta kc)\<lparr>om_Finalizers := fs\<rparr>\<rparr>"

definition setFinalizerIfFinalizer ::
  "'w reconcilerImpl \<Rightarrow> KafkaTopicChannel \<Rightarrow> 'w gstate \<Rightarrow> 'w gstate \<times> (go_error + KafkaTopicChannel)" where
  "setFinalizerIfFinalizer r resource g =
     (if bz_FinalizeKind (ri_reconciler r) = None then (g, Inr resource)
      else
        (let finalizers = set (om_Finalizers (kc_Meta resource));
             finalizers1 = (if om_DeletionTimestamp (kc_Meta resource) = None
                            then insert (ri_finalizerName r) finalizers else finalizers)
         in updateFinalizersFiltered r (with_finalizers (sorted_list_of_set finalizers1) resource) g))"

text \<open>\<open>EventAs\<close>: the event at the end of a chain of wrapped errors.\<close>

fun EventAs :: "go_error \<Rightarrow> (string \<times> string \<times> string) option" where
  "EventAs (ReconcilerEvent t reason message) = Some (t, reason, message)"
| "EventAs (Wrap _ e) = EventAs e"
| "EventAs _ = None"

definition clearFinalizer ::
  "'w reconcilerImpl \<Rightarrow> KafkaTopicChannel \<Rightarrow> go_error option \<Rightarrow> 'w gstate \<Rightarrow> 'w gstate \<times> (go_error + KafkaTopicChannel)" where
  "clearFinalizer r resource reconcileEvent g =
     (if bz_FinalizeKind (ri_reconciler r) = None then (g, Inr resource)
      else if om_DeletionTimestamp (kc_Meta resource) = None then (g, Inr resource)
      else
        (let finalizers = set (om_Finalizers (kc_Meta resource));
             finalizers1 =
               (case reconcileEvent of
                  None \<Rightarrow> finalizers - {ri_finalizerName r}
                | Some e \<Rightarrow>
                    (case EventAs e of
                       Some (t, _, _) \<Rightarrow> if t = ''Normal'' then finalizers - {ri_finalizerName r} else finalizers
                     | None \<Rightarrow> finalizers))
         in updateFinalizersFiltered r (with_finalizers (sorted_list_of_set finalizers1) resource) g))"

section \<open>The status\<close>

text \<open>\<open>equality.Semantic.DeepEqual\<close> on statuses: the transition times are volatile and do not count.\<close>

definition erase_times :: "KafkaTopicChannelStatus \<Rightarrow> KafkaTopicChannelStatus" where
  "erase_times st = st\<lparr>st_Conditions := map (\<lambda>c. c\<lparr>c_LastTransitionTime := 0\<rparr>) (st_Conditions st)\<rparr>"

definition Semantic_DeepEqual :: "KafkaTopicChannelStatus \<Rightarrow> KafkaTopicChannelStatus \<Rightarrow> bool" where
  "Semantic_DeepEqual a b \<longleftrightarrow> erase_times a = erase_times b"

text \<open>One attempt of \<open>updateStatus\<close>.\<close>

definition update_attempt ::
  "'w reconcilerImpl \<Rightarrow> KafkaTopicChannel \<Rightarrow> KafkaTopicChannel \<Rightarrow> nat \<Rightarrow> 'w gstate \<Rightarrow> 'w gstate \<times> go_error option" where
  "update_attempt r existing desired attempts g =
     (let (g1, live) = (if attempts > 0
                        then (g_emit (GetLive (kc_Namespace desired) (kc_Name desired)) g,
                              ri_get r (g_log g) (kc_Namespace desired) (kc_Name desired))
                        else (g, Inr existing))
      in case live of
           Inl err \<Rightarrow> (g1, Some err)
         | Inr cur \<Rightarrow>
             if Semantic_DeepEqual (kc_Status cur) (kc_Status desired) then (g1, None)
             else
               (let cur1 = cur\<lparr>kc_Status := kc_Status desired\<rparr> in
                (g_emit (UpdateStatus cur1) g1, ri_updateStatus r (g_log g1) cur1)))"

text \<open>\<open>RetryUpdateConflicts\<close>: \<open>steps\<close> attempts are left (\<open>retry.DefaultRetry\<close> has five); only a conflict is retried.\<close>

fun RetryUpdateConflicts ::
  "(nat \<Rightarrow> 'g \<Rightarrow> 'g \<times> go_error option) \<Rightarrow> nat \<Rightarrow> nat \<Rightarrow> 'g \<Rightarrow> 'g \<times> go_error option" where
  "RetryUpdateConflicts updater 0 attempts g = (g, None)"
| "RetryUpdateConflicts updater (Suc steps) attempts g =
     (case updater attempts g of
        (g1, None) \<Rightarrow> (g1, None)
      | (g1, Some err) \<Rightarrow>
          if IsConflict err \<and> steps > 0 then RetryUpdateConflicts updater steps (Suc attempts) g1
          else (g1, Some err))"

definition updateStatus ::
  "'w reconcilerImpl \<Rightarrow> KafkaTopicChannel \<Rightarrow> KafkaTopicChannel \<Rightarrow> 'w gstate \<Rightarrow> 'w gstate \<times> go_error option" where
  "updateStatus r existing desired g = RetryUpdateConflicts (update_attempt r existing desired) 5 0 g"

section \<open>A pass\<close>

definition call_method ::
  "reconcile_method \<Rightarrow> 'w doReconcile \<Rightarrow> KafkaTopicChannel \<Rightarrow> 'w gstate \<Rightarrow> 'w gstate \<times> KafkaTopicChannel \<times> go_error option" where
  "call_method name f resource g =
     (case f resource (g_world g) of
        (w, resource1, event) \<Rightarrow> (g\<lparr>g_world := w, g_log := g_log g @ [Called name resource]\<rparr>, resource1, event))"

text \<open>The switch over the method: the resource afterwards and the event, or an error of the finalizers.\<close>

definition run_method ::
  "'w reconcilerImpl \<Rightarrow> state \<Rightarrow> KafkaTopicChannel \<Rightarrow> 'w gstate \<Rightarrow>
   'w gstate \<times> (go_error + KafkaTopicChannel \<times> go_error option)" where
  "run_method r s original g =
     (case reconcileMethodFor r s original of
        (name, None) \<Rightarrow> (g, Inr (original, None))
      | (name, Some f) \<Rightarrow>
          if name = DoReconcileKind then
            (case setFinalizerIfFinalizer r original g of
               (g1, Inl err) \<Rightarrow> (g1, Inl (Wrap ''failed to set finalizers: '' err))
             | (g1, Inr resource) \<Rightarrow>
                 (let resource1 = (if ri_skipStatusUpdates r then resource else PreProcessReconcile (ri_preTime r) resource);
                      (g2, resource2, event) = call_method name f resource1 g1;
                      resource3 = (if ri_skipStatusUpdates r then resource2
                                   else PostProcessReconcile (ri_postTime r) resource2 original)
                  in (g2, Inr (resource3, event))))
          else
            (let (g1, resource1, event) = call_method name f original g in
             if name = DoFinalizeKind then
               (case clearFinalizer r resource1 event g1 of
                  (g2, Inl err) \<Rightarrow> (g2, Inl (Wrap ''failed to clear finalizers: '' err))
                | (g2, Inr resource2) \<Rightarrow> (g2, Inr (resource2, event)))
             else (g1, Inr (resource1, event))))"

definition sync_status ::
  "'w reconcilerImpl \<Rightarrow> state \<Rightarrow> KafkaTopicChannel \<Rightarrow> KafkaTopicChannel \<Rightarrow> 'w gstate \<Rightarrow> 'w gstate \<times> go_error option" where
  "sync_status r s original resource g =
     (if ri_skipStatusUpdates r then (g, None)
      else if Semantic_DeepEqual (kc_Status original) (kc_Status resource) then (g, None)
      else if \<not> s_isLeader s then (g, None)
      else
        (case updateStatus r original resource g of
           (g1, Some err) \<Rightarrow>
             (g_emit (Recorded ''Warning'' ''UpdateFailed''
                (''Failed to update status for '' @ quoted (kc_Name resource) @ '': '' @ error_text err)) g1, Some err)
         | (g1, None) \<Rightarrow> (g1, None)))"

definition report_event :: "go_error option \<Rightarrow> 'w gstate \<Rightarrow> 'w gstate \<times> go_error option" where
  "report_event reconcileEvent g =
     (case reconcileEvent of
        None \<Rightarrow> (g, None)
      | Some e \<Rightarrow>
          (case EventAs e of
             Some (t, reason, message) \<Rightarrow>
               (g_emit (Recorded t reason message) g, (case e of ReconcilerEvent _ _ _ \<Rightarrow> None | _ \<Rightarrow> Some e))
           | None \<Rightarrow> (g_emit (Recorded ''Warning'' ''InternalError'' (error_text e)) g, Some e)))"

definition Reconcile :: "'w reconcilerImpl \<Rightarrow> string \<Rightarrow> 'w gstate \<Rightarrow> 'w gstate \<times> go_error option" where
  "Reconcile r key g =
     (case newState key r of
        Inl _ \<Rightarrow> (g, None)
      | Inr s \<Rightarrow>
          if isNotLeaderNorObserver s then (g, Some (ErrorText (''skipped key: '' @ quoted key)))
          else
            (case ri_Lister r (s_namespace s) (s_name s) of
               Inl err \<Rightarrow>
                 if IsNotFound err then
                   (case bz_ObserveDeletion (ri_reconciler r) of
                      Some del \<Rightarrow>
                        (case del \<lparr>nn_Namespace = s_namespace s, nn_Name = s_name s\<rparr> (g_world g) of
                           (w, e) \<Rightarrow> (g\<lparr>g_world := w\<rparr>, e))
                    | None \<Rightarrow> (g, None))
                 else (g, Some err)
             | Inr original \<Rightarrow>
                 (case run_method r s original g of
                    (g1, Inl err) \<Rightarrow> (g1, Some err)
                  | (g1, Inr (resource, event)) \<Rightarrow>
                      (case sync_status r s original resource g1 of
                         (g2, Some err) \<Rightarrow> (g2, Some err)
                       | (g2, None) \<Rightarrow> report_event event g2))))"

section \<open>Construction and leadership\<close>

definition defaultFinalizerName :: string where
  "defaultFinalizerName = ''kafkatopicchannels.messaging.optum.dev''"

definition defaultControllerAgentName :: string where
  "defaultControllerAgentName = ''kafkatopicchannel-controller''"

record Options =
  op_FinalizerName :: string
  op_AgentName :: string
  op_SkipStatusUpdates :: bool

text \<open>The options that bear on a pass.\<close>

definition apply_options :: "Options \<Rightarrow> 'w reconcilerImpl \<Rightarrow> 'w reconcilerImpl" where
  "apply_options opts rec =
     (let rec1 = (if op_FinalizerName opts \<noteq> '''' then rec\<lparr>ri_finalizerName := op_FinalizerName opts\<rparr> else rec)
      in if op_SkipStatusUpdates opts then rec1\<lparr>ri_skipStatusUpdates := True\<rparr> else rec1)"

text \<open>\<open>NewReconciler\<close>: more than one options struct is fatal. The lister, the client and leadership are those of \<open>base\<close>.\<close>

definition NewReconciler :: "'w reconcilerImpl \<Rightarrow> 'w business \<Rightarrow> Options list \<Rightarrow> 'w reconcilerImpl option" where
  "NewReconciler base r options =
     (if length options > 1 then None
      else
        Some (fold apply_options options
              (base\<lparr>ri_reconciler := r, ri_finalizerName := defaultFinalizerName, ri_skipStatusUpdates := False\<rparr>)))"

text \<open>
  \<open>NewImpl\<close>, which the program's controllers call: the reconciler, the name of its queue (the type of the
  business logic, with dots for slashes) and the name of the agent that records its events.
\<close>

definition NewImpl ::
  "'w reconcilerImpl \<Rightarrow> string \<Rightarrow> string \<Rightarrow> 'w business \<Rightarrow> Options list \<Rightarrow> ('w reconcilerImpl \<times> string \<times> string) option" where
  "NewImpl base pkgPath typeName r options =
     (if length options > 1 then None
      else
        (let rec = base\<lparr>ri_reconciler := r, ri_finalizerName := defaultFinalizerName, ri_skipStatusUpdates := False\<rparr>;
             ctrTypeName = map (\<lambda>c. if c = CHR ''/'' then CHR ''.'' else c) (pkgPath @ ''.'' @ typeName);
             (rec1, agentName) =
               fold (\<lambda>opts (rec, agent). (apply_options opts rec, if op_AgentName opts \<noteq> '''' then op_AgentName opts else agent))
                 options (rec, defaultControllerAgentName)
         in Some (rec1, ctrTypeName, agentName)))"

text \<open>The buckets a replica leads, and what is enqueued when it is promoted for one.\<close>

type_synonym buckets = "(string \<times> (NamespacedName \<Rightarrow> bool)) list"

definition IsLeaderFor :: "buckets \<Rightarrow> NamespacedName \<Rightarrow> bool" where
  "IsLeaderFor bs key \<longleftrightarrow> list_ex (\<lambda>(n, has). has key) bs"

definition PromoteFunc :: "go_error + KafkaTopicChannel list \<Rightarrow> string \<Rightarrow> (string \<times> NamespacedName) list \<times> go_error option" where
  "PromoteFunc listed bkt =
     (case listed of
        Inl err \<Rightarrow> ([], Some err)
      | Inr elts \<Rightarrow> (map (\<lambda>elt. (bkt, \<lparr>nn_Namespace = kc_Namespace elt, nn_Name = kc_Name elt\<rparr>)) elts, None))"

definition Promote ::
  "string \<Rightarrow> (NamespacedName \<Rightarrow> bool) \<Rightarrow> go_error + KafkaTopicChannel list \<Rightarrow> buckets \<Rightarrow>
   buckets \<times> (string \<times> NamespacedName) list \<times> go_error option" where
  "Promote name b listed bs = ((name, b) # filter (\<lambda>(n, _). n \<noteq> name) bs, PromoteFunc listed name)"

definition Demote :: "string \<Rightarrow> buckets \<Rightarrow> buckets" where
  "Demote name bs = filter (\<lambda>(n, _). n \<noteq> name) bs"

section \<open>A sample reconciler\<close>

text \<open>A replica that leads or not, with a business logic that changes nothing, and an API server that accepts everything.\<close>

definition sample_business :: "unit business" where
  "sample_business =
     \<lparr>bz_ReconcileKind = (\<lambda>kc w. (w, kc, None)), bz_FinalizeKind = Some (\<lambda>kc w. (w, kc, None)),
      bz_ObserveKind = None, bz_ObserveFinalizeKind = None, bz_ObserveDeletion = None\<rparr>"

definition sample_impl :: "bool \<Rightarrow> KafkaTopicChannel \<Rightarrow> unit reconcilerImpl" where
  "sample_impl leader kc =
     \<lparr>ri_IsLeaderFor = (\<lambda>_. leader), ri_get = (\<lambda>_ _ _. Inr kc), ri_updateStatus = (\<lambda>_ _. None),
      ri_patch = (\<lambda>_ _ _ fs _. Inr (with_finalizers fs kc)), ri_marshalPatch = (\<lambda>_ _. None),
      ri_Lister = (\<lambda>_ _. Inr kc), ri_reconciler = sample_business, ri_finalizerName = defaultFinalizerName,
      ri_skipStatusUpdates = False, ri_preTime = 1, ri_postTime = 1\<rparr>"

definition sample_gstate :: "unit gstate" where
  "sample_gstate = \<lparr>g_world = (), g_log = []\<rparr>"

definition sample_deleted :: "string list \<Rightarrow> KafkaTopicChannel" where
  "sample_deleted fs =
     (let kc = with_finalizers fs (sample_channel 1 []) in kc\<lparr>kc_Meta := (kc_Meta kc)\<lparr>om_DeletionTimestamp := Some 7\<rparr>\<rparr>)"

definition sample_observed :: KafkaTopicChannel where
  "sample_observed = (let kc = sample_channel 1 [] in kc\<lparr>kc_Status := (kc_Status kc)\<lparr>st_ObservedGeneration := 1\<rparr>\<rparr>)"

lemma sample_key: "SplitMetaNamespaceKey ''ns/ch'' = Inr (''ns'', ''ch'')"
  by (simp add: SplitMetaNamespaceKey_def)

lemmas sample_impl_defs = sample_impl_def sample_business_def sample_gstate_def

section \<open>What the parts of a pass log\<close>

text \<open>\<open>logs P g g'\<close>: the log only grew, by calls that satisfy \<open>P\<close>.\<close>

definition logs :: "(gen_call \<Rightarrow> bool) \<Rightarrow> 'w gstate \<Rightarrow> 'w gstate \<Rightarrow> bool" where
  "logs P g g' \<longleftrightarrow> (\<exists>new. g_log g' = g_log g @ new \<and> list_all P new)"

lemma logs_refl [simp]: "g_log g' = g_log g \<Longrightarrow> logs P g g'"
  by (simp add: logs_def)

lemma logs_trans: "logs P g g1 \<Longrightarrow> logs P g1 g2 \<Longrightarrow> logs P g g2"
  by (auto simp: logs_def)

lemma logs_mono: "logs P g g' \<Longrightarrow> (\<And>c. P c \<Longrightarrow> Q c) \<Longrightarrow> logs Q g g'"
  by (auto simp: logs_def list_all_iff)

lemma logs_emit: "P c \<Longrightarrow> logs P g (g_emit c g)"
  by (simp add: logs_def g_emit_def)

lemma g_emit_simps [simp]: "g_world (g_emit c g) = g_world g" "g_log (g_emit c g) = g_log g @ [c]"
  by (simp_all add: g_emit_def)

fun is_record :: "gen_call \<Rightarrow> bool" where
  "is_record (Recorded _ _ _) = True"
| "is_record _ = False"

fun is_status_call :: "KafkaTopicChannelStatus \<Rightarrow> gen_call \<Rightarrow> bool" where
  "is_status_call st (GetLive _ _) = True"
| "is_status_call st (UpdateStatus kc) = (kc_Status kc = st)"
| "is_status_call st (Recorded _ _ _) = True"
| "is_status_call st _ = False"

lemma report_event_logs: "logs is_record g (fst (report_event e g))"
  by (auto simp: report_event_def intro!: logs_emit split: option.splits)

lemma update_attempt_logs: "logs (is_status_call (kc_Status desired)) g (fst (update_attempt r existing desired n g))"
proof -
  let ?P = "is_status_call (kc_Status desired)"
  obtain g1 live where gl: "(if n > 0 then (g_emit (GetLive (kc_Namespace desired) (kc_Name desired)) g,
      ri_get r (g_log g) (kc_Namespace desired) (kc_Name desired)) else (g, Inr existing)) = (g1, live)" by fastforce
  then have l1: "logs ?P g g1" by (auto intro!: logs_emit split: if_splits)
  have "logs ?P g1 (fst (update_attempt r existing desired n g))"
    unfolding update_attempt_def gl by (auto simp: Let_def intro!: logs_emit split: sum.splits)
  with l1 show ?thesis by (rule logs_trans)
qed

lemma retry_logs:
  assumes "\<And>n g. logs P g (fst (updater n g))"
  shows "logs P g (fst (RetryUpdateConflicts updater steps attempts g))"
proof (induction steps arbitrary: attempts g)
  case (Suc steps)
  obtain g1 e where u: "updater attempts g = (g1, e)" by fastforce
  with assms [of g attempts] have l: "logs P g g1" by simp
  with Suc.IH [of g1 "Suc attempts"] show ?case by (auto simp: u split: option.splits intro: logs_trans)
qed simp

lemma sync_status_logs: "logs (is_status_call (kc_Status resource)) g (fst (sync_status r s original resource g))"
proof -
  obtain g1 e where u: "updateStatus r original resource g = (g1, e)" by fastforce
  have "logs (is_status_call (kc_Status resource)) g g1"
    using retry_logs [where updater = "update_attempt r original resource", OF update_attempt_logs, of g 5 0] u
    by (simp add: updateStatus_def)
  then show ?thesis
    by (auto simp: sync_status_def u intro!: logs_trans [of _ _ g1] logs_emit split: option.splits)
qed

lemma updateFinalizers_cases:
  assumes "updateFinalizersFiltered r resource g = (g', res)"
    and "ri_Lister r (kc_Namespace resource) (kc_Name resource) = Inr existing"
  obtains
    (same) "g' = g" "res = Inr resource"
      "ri_finalizerName r \<in> set (om_Finalizers (kc_Meta resource)) \<longleftrightarrow> ri_finalizerName r \<in> set (om_Finalizers (kc_Meta existing))"
  | (marshal) err fs rv where "g' = g" "res = Inl err" "ri_marshalPatch r fs rv = Some err"
  | (patched) fs rec where
      "g_log g' = g_log g @ [PatchFinalizers (kc_Namespace resource) (kc_Name resource) fs (om_ResourceVersion (kc_Meta existing)), rec]"
      "g_world g' = g_world g" "is_record rec"
      "res = ri_patch r (g_log g) (kc_Namespace resource) (kc_Name resource) fs (om_ResourceVersion (kc_Meta existing))"
      "ri_finalizerName r \<in> set (om_Finalizers (kc_Meta resource)) \<longleftrightarrow> ri_finalizerName r \<notin> set (om_Finalizers (kc_Meta existing))"
      "set fs = (if ri_finalizerName r \<in> set (om_Finalizers (kc_Meta resource))
                 then insert (ri_finalizerName r) (set (om_Finalizers (kc_Meta existing)))
                 else set (om_Finalizers (kc_Meta existing)) - {ri_finalizerName r})"
proof -
  let ?n = "ri_finalizerName r" and ?ex = "om_Finalizers (kc_Meta existing)"
  let ?wanted = "?n \<in> set (om_Finalizers (kc_Meta resource))"
  let ?fs = "if ?wanted then ?ex @ [?n] else sorted_list_of_set (set ?ex - {?n})"
  show thesis
  proof (cases "?wanted = (?n \<in> set ?ex)")
    case True
    then show ?thesis using assms same by (auto simp: updateFinalizersFiltered_def Let_def)
  next
    case False
    show ?thesis
    proof (cases "ri_marshalPatch r ?fs (om_ResourceVersion (kc_Meta existing))")
      case (Some err)
      then show ?thesis using assms False marshal [OF _ _ Some] by (simp add: updateFinalizersFiltered_def Let_def)
    next
      case None
      let ?ns = "kc_Namespace resource" and ?name = "kc_Name resource" and ?rv = "om_ResourceVersion (kc_Meta existing)"
      let ?g1 = "g_emit (PatchFinalizers ?ns ?name ?fs ?rv) g"
      have "\<exists>t reason msg. g' = g_emit (Recorded t reason msg) ?g1 \<and> res = ri_patch r (g_log g) ?ns ?name ?fs ?rv"
        using assms False None
        by (cases "ri_patch r (g_log g) ?ns ?name ?fs ?rv") (auto simp: updateFinalizersFiltered_def Let_def intro!: exI)
      then obtain t reason msg where "g' = g_emit (Recorded t reason msg) ?g1" "res = ri_patch r (g_log g) ?ns ?name ?fs ?rv" by blast
      then show ?thesis using patched [of ?fs "Recorded t reason msg"] False by auto
    qed
  qed
qed

lemma updateFinalizers_marshalled:
  assumes "updateFinalizersFiltered r resource g = (g', res)"
    and "ri_Lister r (kc_Namespace resource) (kc_Name resource) = Inr existing"
    and "\<And>fs rv. ri_marshalPatch r fs rv = None"
  obtains
    (same) "g' = g"
      "ri_finalizerName r \<in> set (om_Finalizers (kc_Meta resource)) \<longleftrightarrow> ri_finalizerName r \<in> set (om_Finalizers (kc_Meta existing))"
  | (patched) fs rec where
      "g_log g' = g_log g @ [PatchFinalizers (kc_Namespace resource) (kc_Name resource) fs (om_ResourceVersion (kc_Meta existing)), rec]"
      "is_record rec"
      "ri_finalizerName r \<in> set (om_Finalizers (kc_Meta resource)) \<longleftrightarrow> ri_finalizerName r \<notin> set (om_Finalizers (kc_Meta existing))"
      "set fs = (if ri_finalizerName r \<in> set (om_Finalizers (kc_Meta resource))
                 then insert (ri_finalizerName r) (set (om_Finalizers (kc_Meta existing)))
                 else set (om_Finalizers (kc_Meta existing)) - {ri_finalizerName r})"
  using assms(1,2)
proof (cases rule: updateFinalizers_cases)
  case (marshal err fs rv)
  then show ?thesis using assms(3) by simp
qed (use that in blast)+

section \<open>Leadership\<close>

text \<open>What a replica that does not lead may do: observe, and record an event.\<close>

fun observer_call :: "gen_call \<Rightarrow> bool" where
  "observer_call (Called m _) = (m = DoObserveKind \<or> m = DoObserveFinalizeKind)"
| "observer_call (Recorded _ _ _) = True"
| "observer_call _ = False"

fun is_called :: "gen_call \<Rightarrow> bool" where
  "is_called (Called _ _) = True"
| "is_called _ = False"

lemma record_observer: "is_record c \<Longrightarrow> observer_call c"
  by (cases c) simp_all

lemma not_called_call: "is_status_call st c \<Longrightarrow> \<not> is_called c" "is_record c \<Longrightarrow> \<not> is_called c"
  by (cases c; simp)+

lemma newState_Inr:
  "SplitMetaNamespaceKey key = Inr (ns, name) \<Longrightarrow>
   \<exists>s. newState key r = Inr s \<and> s_namespace s = ns \<and> s_name s = name \<and>
       s_isLeader s = ri_IsLeaderFor r \<lparr>nn_Namespace = ns, nn_Name = name\<rparr> \<and>
       s_isROI s = (bz_ObserveKind (ri_reconciler r) \<noteq> None) \<and> s_isROF s = (bz_ObserveFinalizeKind (ri_reconciler r) \<noteq> None)"
  by (simp add: newState_def)

lemma call_method_logs: "fst (call_method m f kc g) = g\<lparr>g_world := fst (f kc (g_world g)), g_log := g_log g @ [Called m kc]\<rparr>"
  by (simp add: call_method_def split: prod.split)

lemma run_method_observes:
  assumes "\<not> s_isLeader s"
  shows "logs observer_call g (fst (run_method r s original g))"
proof (cases "reconcileMethodFor r s original")
  case (Pair name f)
  show ?thesis
  proof (cases f)
    case None
    with Pair show ?thesis by (simp add: run_method_def)
  next
    case (Some h)
    have n: "name = DoObserveKind \<or> name = DoObserveFinalizeKind"
      using Pair Some assms by (auto simp: reconcileMethodFor_def Let_def split: if_splits)
    obtain g1 res e where c: "call_method name h original g = (g1, res, e)" by (metis prod_cases3)
    have "g_log g1 = g_log g @ [Called name original]" using call_method_logs [of name h original g] c by simp
    then show ?thesis using n by (auto simp: run_method_def Pair Some c logs_def)
  qed
qed

text \<open>The part of a pass that follows the read of the channel.\<close>

lemma Reconcile_found:
  assumes "newState key r = Inr s" "\<not> isNotLeaderNorObserver s" "ri_Lister r (s_namespace s) (s_name s) = Inr original"
    and "run_method r s original g = (g1, res)"
  shows "Reconcile r key g =
           (case res of
              Inl err \<Rightarrow> (g1, Some err)
            | Inr (resource, event) \<Rightarrow>
                (case sync_status r s original resource g1 of
                   (g2, Some err) \<Rightarrow> (g2, Some err)
                 | (g2, None) \<Rightarrow> report_event event g2))"
  using assms by (auto simp: Reconcile_def split: sum.splits)

text \<open>
  C16: A replica that does not lead a key never writes: whatever the business logic, the lister and the API
  server do, a pass over the key calls at most the observing methods and records events; it neither
  patches finalizers nor updates a status nor runs a method that reconciles or finalizes. If the business
  logic does not observe at all, the key is skipped and nothing changes.
\<close>

theorem non_leader_never_writes:
  assumes "SplitMetaNamespaceKey key = Inr (ns, name)"
    and "\<not> ri_IsLeaderFor r \<lparr>nn_Namespace = ns, nn_Name = name\<rparr>"
  shows "(\<exists>new. g_log (fst (Reconcile r key g)) = g_log g @ new \<and> list_all observer_call new) \<and>
         (bz_ObserveKind (ri_reconciler r) = None \<and> bz_ObserveFinalizeKind (ri_reconciler r) = None \<longrightarrow>
            Reconcile r key g = (g, Some (ErrorText (''skipped key: '' @ quoted key))))"
proof -
  from newState_Inr [OF assms(1), of r] assms(2) obtain s where s: "newState key r = Inr s" "\<not> s_isLeader s"
    "s_isROI s = (bz_ObserveKind (ri_reconciler r) \<noteq> None)" "s_isROF s = (bz_ObserveFinalizeKind (ri_reconciler r) \<noteq> None)" by auto
  have "logs observer_call g (fst (Reconcile r key g))"
  proof (cases "isNotLeaderNorObserver s \<or> (\<exists>err. ri_Lister r (s_namespace s) (s_name s) = Inl err)")
    case True
    then show ?thesis using s(1) by (auto simp: Reconcile_def split: option.splits prod.splits)
  next
    case False
    then obtain original where o: "ri_Lister r (s_namespace s) (s_name s) = Inr original" by (metis sum.exhaust)
    obtain g1 res where run: "run_method r s original g = (g1, res)" by fastforce
    have l: "logs observer_call g g1" using run_method_observes [OF s(2), of g r original] run by simp
    have sync: "sync_status r s original resource g' = (g', None)" for resource g'
      using s(2) by (simp add: sync_status_def)
    have "logs observer_call g1 (fst (report_event e g1))" for e
      using report_event_logs record_observer by (rule logs_mono)
    with l show ?thesis using False
      by (auto simp: Reconcile_found [OF s(1) _ o run] sync intro: logs_trans split: sum.split)
  qed
  moreover have "Reconcile r key g = (g, Some (ErrorText (''skipped key: '' @ quoted key)))"
    if "bz_ObserveKind (ri_reconciler r) = None" "bz_ObserveFinalizeKind (ri_reconciler r) = None"
    using that s by (simp add: Reconcile_def isNotLeaderNorObserver_def)
  ultimately show ?thesis by (simp add: logs_def)
qed

theorem non_leader_never_writes_witness:
  "Reconcile (sample_impl False (sample_channel 1 [])) ''ns/ch'' sample_gstate =
     (sample_gstate, Some (ErrorText (''skipped key: '' @ quoted ''ns/ch'')))"
  using non_leader_never_writes [OF sample_key, of "sample_impl False (sample_channel 1 [])" sample_gstate]
  by (simp add: sample_impl_defs)

section \<open>The finalizer\<close>

text \<open>What follows the switch over the method calls no method of the business logic and patches no finalizer.\<close>

fun after_call :: "gen_call \<Rightarrow> bool" where
  "after_call (Called _ _) = False"
| "after_call (PatchFinalizers _ _ _ _) = False"
| "after_call _ = True"

lemma after_callI: "is_status_call st c \<Longrightarrow> after_call c" "is_record c \<Longrightarrow> after_call c"
  by (cases c; simp)+

lemma Reconcile_after:
  assumes "newState key r = Inr s" "\<not> isNotLeaderNorObserver s" "ri_Lister r (s_namespace s) (s_name s) = Inr original"
    and "run_method r s original g = (g1, Inr (resource, event))"
  shows "logs after_call g1 (fst (Reconcile r key g))"
proof -
  obtain g2 e where sy: "sync_status r s original resource g1 = (g2, e)" by fastforce
  have "logs after_call g1 (fst (sync_status r s original resource g1))"
    by (rule logs_mono [OF sync_status_logs after_callI(1)])
  then have l: "logs after_call g1 g2" by (simp add: sy)
  have "logs after_call g2 (fst (report_event event g2))"
    by (rule logs_mono [OF report_event_logs after_callI(2)])
  with l show ?thesis
    by (auto simp: Reconcile_found [OF assms] sy intro: logs_trans split: option.split)
qed

text \<open>What a leader's pass over a stored channel starts from.\<close>

lemma leader_state:
  assumes "SplitMetaNamespaceKey key = Inr (ns, name)" "ri_IsLeaderFor r \<lparr>nn_Namespace = ns, nn_Name = name\<rparr>"
    and "ri_Lister r ns name = Inr original"
  obtains s where "newState key r = Inr s" "s_isLeader s" "\<not> isNotLeaderNorObserver s"
    "ri_Lister r (s_namespace s) (s_name s) = Inr original"
  using newState_Inr [OF assms(1), of r] assms(2,3) by (auto simp: isNotLeaderNorObserver_def)

text \<open>
  C7: The finalizer guards every reconciliation: when the business logic finalizes, the leader reconciles
  a channel only after the finalizer is on it. Either the channel carries it already, or the pass first
  patches it in, keeping the other finalizers and the resource version, and the API server has accepted
  the patch; if that fails, no method of the business logic is called and the pass returns the error.
\<close>

theorem finalizer_guards_reconcile:
  assumes "SplitMetaNamespaceKey key = Inr (ns, name)" and "ri_IsLeaderFor r \<lparr>nn_Namespace = ns, nn_Name = name\<rparr>"
    and "ri_Lister r ns name = Inr original" and "kc_Namespace original = ns" and "kc_Name original = name"
    and "om_DeletionTimestamp (kc_Meta original) = None" and "bz_FinalizeKind (ri_reconciler r) \<noteq> None"
  shows "\<exists>pre. (\<exists>err. g_log (fst (Reconcile r key g)) = g_log g @ pre \<and> list_all (\<lambda>c. \<not> is_called c) pre \<and>
                     snd (Reconcile r key g) = Some (Wrap ''failed to set finalizers: '' err)) \<or>
               (\<exists>resource post.
                  g_log (fst (Reconcile r key g)) = g_log g @ pre @ [Called DoReconcileKind resource] @ post \<and>
                  list_all after_call post \<and>
                  (if ri_finalizerName r \<in> set (om_Finalizers (kc_Meta original)) then pre = []
                   else \<exists>fs rec updated.
                          pre = [PatchFinalizers ns name fs (om_ResourceVersion (kc_Meta original)), rec] \<and> is_record rec \<and>
                          set fs = insert (ri_finalizerName r) (set (om_Finalizers (kc_Meta original))) \<and>
                          ri_patch r (g_log g) ns name fs (om_ResourceVersion (kc_Meta original)) = Inr updated))"
proof -
  let ?n = "ri_finalizerName r" and ?fs = "set (om_Finalizers (kc_Meta original))"
  from leader_state [OF assms(1-3)] obtain s where s: "newState key r = Inr s" "s_isLeader s"
    and lead: "\<not> isNotLeaderNorObserver s" and lst: "ri_Lister r (s_namespace s) (s_name s) = Inr original" .
  have meth: "reconcileMethodFor r s original = (DoReconcileKind, Some (bz_ReconcileKind (ri_reconciler r)))"
    using assms(6) s(2) by (simp add: reconcileMethodFor_def Let_def)
  let ?res = "with_finalizers (sorted_list_of_set (insert ?n ?fs)) original"
  have res: "kc_Namespace ?res = ns" "kc_Name ?res = name" "set (om_Finalizers (kc_Meta ?res)) = insert ?n ?fs"
    using assms(4,5) by (simp_all add: with_finalizers_def set_insort_key insert_absorb)
  obtain g1 sf where sf: "updateFinalizersFiltered r ?res g = (g1, sf)" by fastforce
  have set: "setFinalizerIfFinalizer r original g = (g1, sf)"
    using sf assms(6,7) by (auto simp: setFinalizerIfFinalizer_def Let_def)
  have "\<exists>pre. g_log g1 = g_log g @ pre \<and> list_all (\<lambda>c. \<not> is_called c) pre \<and>
          (\<forall>kc. sf = Inr kc \<longrightarrow> (if ?n \<in> ?fs then pre = []
             else \<exists>fs rec updated. pre = [PatchFinalizers ns name fs (om_ResourceVersion (kc_Meta original)), rec] \<and> is_record rec \<and>
                    set fs = insert ?n ?fs \<and> ri_patch r (g_log g) ns name fs (om_ResourceVersion (kc_Meta original)) = Inr updated))"
    (is "\<exists>pre. ?P pre")
    using sf by (rule updateFinalizers_cases [where existing = original])
      (use res assms(3) not_called_call(2) in auto)
  then obtain pre where pre: "?P pre" ..
  show ?thesis
  proof (cases sf)
    case (Inl err)
    have "run_method r s original g = (g1, Inl (Wrap ''failed to set finalizers: '' err))"
      by (simp add: run_method_def meth set Inl)
    from Reconcile_found [OF s(1) lead lst this] pre show ?thesis by auto
  next
    case (Inr resource)
    have "\<exists>called g2 out. run_method r s original g = (g2, Inr out) \<and> g_log g2 = g_log g1 @ [Called DoReconcileKind called]"
      by (simp add: run_method_def meth set Inr Let_def call_method_def split: prod.splits)
    then obtain called g2 out where run: "run_method r s original g = (g2, Inr out)" "g_log g2 = g_log g1 @ [Called DoReconcileKind called]"
      by blast
    with Reconcile_after [OF s(1) lead lst, of g g2 "fst out" "snd out"] obtain post where
      post: "g_log (fst (Reconcile r key g)) = g_log g2 @ post" "list_all after_call post" by (auto simp: logs_def)
    show ?thesis
      by (rule exI [of _ pre], rule disjI2, rule exI [of _ called], rule exI [of _ post])
        (use post run(2) pre Inr in \<open>auto split: if_split_asm\<close>)
  qed
qed

theorem finalizer_guards_reconcile_witness:
  "\<exists>rec resource fs. set fs = {defaultFinalizerName} \<and>
     g_log (fst (Reconcile ((sample_impl True (sample_channel 1 []))\<lparr>ri_skipStatusUpdates := True\<rparr>) ''ns/ch'' sample_gstate)) =
       [PatchFinalizers ''ns'' ''ch'' fs '''', rec, Called DoReconcileKind resource]"
proof -
  let ?r = "(sample_impl True (sample_channel 1 []))\<lparr>ri_skipStatusUpdates := True\<rparr>"
  have none: "snd (Reconcile ?r ''ns/ch'' sample_gstate) = None"
    by (simp add: Reconcile_def newState_def sample_key isNotLeaderNorObserver_def run_method_def reconcileMethodFor_def
        setFinalizerIfFinalizer_def updateFinalizersFiltered_def call_method_def sync_status_def report_event_def
        sample_impl_defs sample_defs with_finalizers_def Let_def)
  have log: "length (g_log (fst (Reconcile ?r ''ns/ch'' sample_gstate))) = 3"
    by (simp add: Reconcile_def newState_def sample_key isNotLeaderNorObserver_def run_method_def reconcileMethodFor_def
        setFinalizerIfFinalizer_def updateFinalizersFiltered_def call_method_def sync_status_def report_event_def
        sample_impl_defs sample_defs with_finalizers_def Let_def)
  have "\<exists>pre. (\<exists>resource post. g_log (fst (Reconcile ?r ''ns/ch'' sample_gstate)) = pre @ [Called DoReconcileKind resource] @ post \<and>
      (\<exists>fs rec. pre = [PatchFinalizers ''ns'' ''ch'' fs '''', rec] \<and> set fs = {defaultFinalizerName}))"
    using finalizer_guards_reconcile [OF sample_key, of ?r "sample_channel 1 []" sample_gstate] none
    by (auto simp: sample_impl_defs sample_defs)
  with log show ?thesis by fastforce
qed

definition clean_event :: "go_error option \<Rightarrow> bool" where
  "clean_event e \<longleftrightarrow> (case e of None \<Rightarrow> True | Some err \<Rightarrow> (\<exists>reason msg. EventAs err = Some (''Normal'', reason, msg)))"

lemma clearFinalizer_eq:
  assumes "bz_FinalizeKind (ri_reconciler r) \<noteq> None" "om_DeletionTimestamp (kc_Meta kc) \<noteq> None"
  shows "\<exists>fs. clearFinalizer r kc event g = updateFinalizersFiltered r (with_finalizers fs kc) g \<and>
           set fs = set (om_Finalizers (kc_Meta kc)) - (if clean_event event then {ri_finalizerName r} else {})"
  using assms by (auto simp: clearFinalizer_def clean_event_def Let_def split: option.splits)

text \<open>What a finalization leaves in the log: the patch, if there is one, and the record of its outcome.\<close>

definition releases :: "'w reconcilerImpl \<Rightarrow> KafkaTopicChannel \<Rightarrow> go_error option \<Rightarrow> gen_call list \<Rightarrow> bool" where
  "releases r original event patch \<longleftrightarrow>
     (if ri_finalizerName r \<in> set (om_Finalizers (kc_Meta original)) \<and> clean_event event
      then \<exists>fs. patch = [PatchFinalizers (kc_Namespace original) (kc_Name original) fs (om_ResourceVersion (kc_Meta original))] \<and>
                set fs = set (om_Finalizers (kc_Meta original)) - {ri_finalizerName r}
      else patch = [])"

lemma clearFinalizer_log:
  assumes "bz_FinalizeKind (ri_reconciler r) \<noteq> None" "om_DeletionTimestamp (kc_Meta original) \<noteq> None"
    and "ri_Lister r (kc_Namespace original) (kc_Name original) = Inr original" "kc_Meta resource = kc_Meta original"
    and "\<And>fs rv. ri_marshalPatch r fs rv = None" "clearFinalizer r resource event g = (g2, res)"
  obtains patch post where "g_log g2 = g_log g @ patch @ post" "list_all after_call post" "releases r original event patch"
proof -
  let ?n = "ri_finalizerName r" and ?fs = "set (om_Finalizers (kc_Meta original))"
  from clearFinalizer_eq [of r resource event g] assms(1,2,4,6) obtain fs where
    upd: "updateFinalizersFiltered r (with_finalizers fs resource) g = (g2, res)"
    and fs: "set fs = ?fs - (if clean_event event then {?n} else {})" by auto
  have ns: "kc_Namespace (with_finalizers fs resource) = kc_Namespace original"
    "kc_Name (with_finalizers fs resource) = kc_Name original"
    "om_Finalizers (kc_Meta (with_finalizers fs resource)) = fs"
    using assms(4) by (simp_all add: with_finalizers_def)
  show ?thesis
  proof (rule updateFinalizers_marshalled [OF upd])
    show "ri_Lister r (kc_Namespace (with_finalizers fs resource)) (kc_Name (with_finalizers fs resource)) = Inr original"
      using ns assms(3) by simp
    show "ri_marshalPatch r fs' rv = None" for fs' rv by (rule assms(5))
  next
    assume "g2 = g" and "?n \<in> set (om_Finalizers (kc_Meta (with_finalizers fs resource))) \<longleftrightarrow> ?n \<in> ?fs"
    then show ?thesis using ns(3) fs by (intro that [of "[]" "[]"]) (auto simp: releases_def)
  next
    fix fs' rec
    assume log: "g_log g2 = g_log g @ [PatchFinalizers (kc_Namespace (with_finalizers fs resource))
        (kc_Name (with_finalizers fs resource)) fs' (om_ResourceVersion (kc_Meta original)), rec]"
      and rec: "is_record rec"
      and iff: "?n \<in> set (om_Finalizers (kc_Meta (with_finalizers fs resource))) \<longleftrightarrow> ?n \<notin> ?fs"
      and fs': "set fs' = (if ?n \<in> set (om_Finalizers (kc_Meta (with_finalizers fs resource))) then insert ?n ?fs else ?fs - {?n})"
    from iff have c: "?n \<in> ?fs" "clean_event event" "?n \<notin> set fs" using ns(3) fs by (auto split: if_splits)
    show ?thesis
      by (rule that [of "[PatchFinalizers (kc_Namespace original) (kc_Name original) fs' (om_ResourceVersion (kc_Meta original))]" "[rec]"])
        (use log rec fs' c ns after_callI(2) in \<open>simp_all add: releases_def\<close>)
  qed
qed

text \<open>
  C21: The finalizer is released only by a clean finalization, and then only it: for a channel that is being
  deleted the leader first calls \<open>FinalizeKind\<close>; it then patches the finalizers exactly if the channel has
  the finalizer and the call returned nothing or a normal event, and the patch removes this finalizer and
  no other. A failing finalization keeps the channel.
\<close>

theorem finalizer_released:
  assumes "SplitMetaNamespaceKey key = Inr (ns, name)" and "ri_IsLeaderFor r \<lparr>nn_Namespace = ns, nn_Name = name\<rparr>"
    and "ri_Lister r ns name = Inr original" and "kc_Namespace original = ns" and "kc_Name original = name"
    and "om_DeletionTimestamp (kc_Meta original) \<noteq> None" and "bz_FinalizeKind (ri_reconciler r) = Some f"
    and "f original (g_world g) = (w, resource, event)" and "kc_Meta resource = kc_Meta original"
    and "\<And>fs rv. ri_marshalPatch r fs rv = None"
  shows "\<exists>patch post. g_log (fst (Reconcile r key g)) = g_log g @ [Called DoFinalizeKind original] @ patch @ post \<and>
           list_all after_call post \<and>
           (if ri_finalizerName r \<in> set (om_Finalizers (kc_Meta original)) \<and> clean_event event
            then \<exists>fs. patch = [PatchFinalizers ns name fs (om_ResourceVersion (kc_Meta original))] \<and>
                      set fs = set (om_Finalizers (kc_Meta original)) - {ri_finalizerName r}
            else patch = [])"
proof -
  from leader_state [OF assms(1-3)] obtain s where s: "newState key r = Inr s" "s_isLeader s"
    and lead: "\<not> isNotLeaderNorObserver s" and lst: "ri_Lister r (s_namespace s) (s_name s) = Inr original" .
  have meth: "reconcileMethodFor r s original = (DoFinalizeKind, Some f)"
    using assms(6,7) s(2) by (simp add: reconcileMethodFor_def Let_def)
  let ?g1 = "g\<lparr>g_world := w, g_log := g_log g @ [Called DoFinalizeKind original]\<rparr>"
  have call: "call_method DoFinalizeKind f original g = (?g1, resource, event)"
    by (simp add: call_method_def assms(8))
  obtain g2 res where upd: "clearFinalizer r resource event ?g1 = (g2, res)" by fastforce
  obtain patch post where p: "g_log g2 = g_log ?g1 @ patch @ post" "list_all after_call post" "releases r original event patch"
    using clearFinalizer_log [OF _ assms(6) _ assms(9,10) upd] assms(3-5,7) by auto
  have "logs after_call g2 (fst (Reconcile r key g))"
  proof (cases res)
    case (Inl err)
    have "run_method r s original g = (g2, Inl (Wrap ''failed to clear finalizers: '' err))"
      by (simp add: run_method_def meth call upd Inl)
    from Reconcile_found [OF s(1) lead lst this] show ?thesis by simp
  next
    case (Inr kc)
    have "run_method r s original g = (g2, Inr (kc, event))"
      by (simp add: run_method_def meth call upd Inr)
    from Reconcile_after [OF s(1) lead lst this] show ?thesis .
  qed
  then obtain tail where "g_log (fst (Reconcile r key g)) = g_log g2 @ tail" "list_all after_call tail"
    by (auto simp: logs_def)
  with p show ?thesis by (intro exI [of _ patch] exI [of _ "post @ tail"]) (use assms(4,5) in \<open>auto simp: releases_def\<close>)
qed

theorem finalizer_released_witness:
  "\<exists>fs tail. set fs = {''other''} \<and>
     g_log (fst (Reconcile (sample_impl True (sample_deleted [''other'', defaultFinalizerName])) ''ns/ch'' sample_gstate)) =
       [Called DoFinalizeKind (sample_deleted [''other'', defaultFinalizerName]), PatchFinalizers ''ns'' ''ch'' fs ''''] @ tail"
proof -
  let ?kc = "sample_deleted [''other'', defaultFinalizerName]"
  let ?r = "sample_impl True ?kc"
  have f: "om_Finalizers (kc_Meta ?kc) = [''other'', defaultFinalizerName]" "om_ResourceVersion (kc_Meta ?kc) = ''''"
    "kc_Namespace ?kc = ''ns''" "kc_Name ?kc = ''ch''" "om_DeletionTimestamp (kc_Meta ?kc) \<noteq> None"
    by (simp_all add: sample_deleted_def with_finalizers_def sample_defs)
  have n: "ri_finalizerName ?r = defaultFinalizerName" "g_log sample_gstate = []"
    "set [''other'', defaultFinalizerName] - {defaultFinalizerName} = {''other''}" "clean_event None"
    by (auto simp: sample_impl_defs clean_event_def defaultFinalizerName_def)
  have "\<exists>patch post. g_log (fst (Reconcile ?r ''ns/ch'' sample_gstate)) = g_log sample_gstate @ [Called DoFinalizeKind ?kc] @ patch @ post \<and>
      list_all after_call post \<and>
      (if ri_finalizerName ?r \<in> set (om_Finalizers (kc_Meta ?kc)) \<and> clean_event None
       then \<exists>fs. patch = [PatchFinalizers ''ns'' ''ch'' fs (om_ResourceVersion (kc_Meta ?kc))] \<and>
                 set fs = set (om_Finalizers (kc_Meta ?kc)) - {ri_finalizerName ?r}
       else patch = [])"
    by (rule finalizer_released [OF sample_key, where f = "\<lambda>kc w. (w, kc, None)"]) (simp_all add: f sample_impl_def sample_business_def)
  then obtain patch post fs where "g_log (fst (Reconcile ?r ''ns/ch'' sample_gstate)) = [Called DoFinalizeKind ?kc] @ patch @ post"
      "patch = [PatchFinalizers ''ns'' ''ch'' fs '''']" "set fs = {''other''}"
    unfolding f(1,2) n(1,2,3) using n(4) by auto
  then show ?thesis by (intro exI [of _ fs] exI [of _ post]) simp
qed

section \<open>The status update\<close>

text \<open>The state before the attempt with the given number, when all earlier attempts were made.\<close>

primrec before_attempt :: "(nat \<Rightarrow> 'g \<Rightarrow> 'g \<times> go_error option) \<Rightarrow> 'g \<Rightarrow> nat \<Rightarrow> 'g" where
  "before_attempt updater g 0 = g"
| "before_attempt updater g (Suc n) = fst (updater n (before_attempt updater g n))"

definition conflict :: "go_error option \<Rightarrow> bool" where
  "conflict e \<longleftrightarrow> (\<exists>err. e = Some err \<and> IsConflict err)"

lemma retry_from:
  assumes "before_attempt updater g k = h"
  shows "\<exists>j. k \<le> j \<and> j < k + Suc steps \<and>
     RetryUpdateConflicts updater (Suc steps) k h = updater j (before_attempt updater g j) \<and>
     (\<forall>i. k \<le> i \<and> i < j \<longrightarrow> conflict (snd (updater i (before_attempt updater g i)))) \<and>
     (j = k + steps \<or> \<not> conflict (snd (updater j (before_attempt updater g j))))"
  using assms
proof (induction steps arbitrary: k h)
  case 0
  then show ?case by (intro exI [of _ k]) (auto split: prod.split option.split)
next
  case (Suc steps)
  obtain h1 e where u: "updater k h = (h1, e)" by fastforce
  show ?case
  proof (cases "conflict e")
    case True
    then have "RetryUpdateConflicts updater (Suc (Suc steps)) k h = RetryUpdateConflicts updater (Suc steps) (Suc k) h1"
      using u by (auto simp: conflict_def)
    moreover have "before_attempt updater g (Suc k) = h1" using Suc.prems u by simp
    ultimately obtain j where j: "Suc k \<le> j" "j < Suc k + Suc steps"
      "RetryUpdateConflicts updater (Suc (Suc steps)) k h = updater j (before_attempt updater g j)"
      "\<forall>i. Suc k \<le> i \<and> i < j \<longrightarrow> conflict (snd (updater i (before_attempt updater g i)))"
      "j = Suc k + steps \<or> \<not> conflict (snd (updater j (before_attempt updater g j)))"
      using Suc.IH [of "Suc k" h1] by auto
    have "conflict (snd (updater i (before_attempt updater g i)))" if "k \<le> i" "i < j" for i
      using that j(4) True u Suc.prems by (cases "i = k") auto
    with j show ?thesis by (intro exI [of _ j]) auto
  next
    case False
    then show ?thesis using u Suc.prems by (intro exI [of _ k]) (auto simp: conflict_def split: option.split)
  qed
qed

text \<open>
  C22: The status update ends after at most five attempts: there is a last attempt, the update returns
  exactly what that attempt returns, every attempt before it was refused as a conflict, and it is the
  last because it was not refused so or because the attempts are used up. The log grows by reads of the
  channel and by writes that carry the wanted status.
\<close>

theorem status_update_attempts:
  "\<exists>k<5. updateStatus r existing desired g =
           update_attempt r existing desired k (before_attempt (update_attempt r existing desired) g k) \<and>
         (\<forall>i<k. conflict (snd (update_attempt r existing desired i (before_attempt (update_attempt r existing desired) g i)))) \<and>
         (k = 4 \<or> \<not> conflict (snd (updateStatus r existing desired g))) \<and>
         (\<exists>new. g_log (fst (updateStatus r existing desired g)) = g_log g @ new \<and>
                list_all (is_status_call (kc_Status desired)) new)"
proof -
  let ?u = "update_attempt r existing desired"
  have "updateStatus r existing desired g = RetryUpdateConflicts ?u (Suc 4) 0 g"
    by (simp add: updateStatus_def eval_nat_numeral)
  moreover have "logs (is_status_call (kc_Status desired)) g (fst (updateStatus r existing desired g))"
    unfolding updateStatus_def by (rule retry_logs) (rule update_attempt_logs)
  ultimately show ?thesis
    using retry_from [of ?u g 0 g 4] by (auto simp: logs_def)
qed

theorem status_update_attempts_witness:
  "\<exists>k<5. updateStatus (sample_impl True (sample_channel 1 [])) (sample_channel 1 []) (sample_deleted []) sample_gstate =
           update_attempt (sample_impl True (sample_channel 1 [])) (sample_channel 1 []) (sample_deleted []) k
             (before_attempt (update_attempt (sample_impl True (sample_channel 1 [])) (sample_channel 1 []) (sample_deleted [])) sample_gstate k)"
  using status_update_attempts [of "sample_impl True (sample_channel 1 [])" "sample_channel 1 []" "sample_deleted []" sample_gstate]
  by blast

text \<open>
  A status update that reports success took effect: in its last attempt the channel (as the lister had
  it in the first attempt, as the API server returned it in a later one) had the wanted status already,
  up to transition times, or the API server accepted the channel with exactly the wanted status.
\<close>

lemma status_update_success:
  assumes "updateStatus r existing desired g = (g', None)"
  shows "\<exists>log cur. (cur = existing \<or> (\<exists>log'. ri_get r log' (kc_Namespace desired) (kc_Name desired) = Inr cur)) \<and>
           (Semantic_DeepEqual (kc_Status cur) (kc_Status desired) \<or>
            (ri_updateStatus r log (cur\<lparr>kc_Status := kc_Status desired\<rparr>) = None \<and>
             g_log g' = log @ [UpdateStatus (cur\<lparr>kc_Status := kc_Status desired\<rparr>)]))"
proof -
  have "updateStatus r existing desired g = RetryUpdateConflicts (update_attempt r existing desired) (Suc 4) 0 g"
    by (simp add: updateStatus_def eval_nat_numeral)
  with retry_from [of "update_attempt r existing desired" g 0 g 4] assms
  obtain k h where "update_attempt r existing desired k h = (g', None)" by auto
  then show ?thesis
    by (cases "k = 0") (auto simp: update_attempt_def Let_def split: if_splits sum.splits; blast)+
qed

end
