(* ===== verification/Lister.thy ===== *)
theory Lister
  imports GenReconciler
begin

text \<open>
  The informer's copy of the channels and the generated lister on it (\<open>pkg/client/listers\<close>, over
  \<open>k8s.io/client-go/tools/cache\<close>): the objects by their key, an index of the keys by namespace that is
  kept up to date with every change, and the lookups of the lister.
\<close>

section \<open>The store\<close>

record indexer =
  ix_items :: "string \<rightharpoonup> KafkaTopicChannel"
  ix_index :: "string \<rightharpoonup> string set"

definition new_indexer :: indexer where
  "new_indexer = \<lparr>ix_items = Map.empty, ix_index = Map.empty\<rparr>"

definition MetaNamespaceKeyFunc :: "KafkaTopicChannel \<Rightarrow> string" where
  "MetaNamespaceKeyFunc kc =
     (if length (kc_Namespace kc) > 0 then kc_Namespace kc @ ''/'' @ kc_Name kc else kc_Name kc)"

definition MetaNamespaceIndexFunc :: "KafkaTopicChannel \<Rightarrow> string list" where
  "MetaNamespaceIndexFunc kc = [kc_Namespace kc]"

definition delete_value :: "string \<Rightarrow> string \<Rightarrow> (string \<rightharpoonup> string set) \<Rightarrow> (string \<rightharpoonup> string set)" where
  "delete_value key indexValue index =
     (case index indexValue of
        None \<Rightarrow> index
      | Some s \<Rightarrow> (if s - {key} = {} then index(indexValue := None) else index(indexValue \<mapsto> s - {key})))"

definition insert_value :: "string \<Rightarrow> string \<Rightarrow> (string \<rightharpoonup> string set) \<Rightarrow> (string \<rightharpoonup> string set)" where
  "insert_value key indexValue index =
     (let s = (case index indexValue of None \<Rightarrow> {} | Some s \<Rightarrow> s) in index(indexValue \<mapsto> insert key s))"

definition deleteFromIndices :: "KafkaTopicChannel \<Rightarrow> string \<Rightarrow> (string \<rightharpoonup> string set) \<Rightarrow> (string \<rightharpoonup> string set)" where
  "deleteFromIndices obj key index = fold (delete_value key) (MetaNamespaceIndexFunc obj) index"

definition updateIndices ::
  "KafkaTopicChannel option \<Rightarrow> KafkaTopicChannel \<Rightarrow> string \<Rightarrow> (string \<rightharpoonup> string set) \<Rightarrow> (string \<rightharpoonup> string set)" where
  "updateIndices oldObj newObj key index =
     (let index1 = (case oldObj of None \<Rightarrow> index | Some old \<Rightarrow> deleteFromIndices old key index)
      in fold (insert_value key) (MetaNamespaceIndexFunc newObj) index1)"

text \<open>\<open>Add\<close> and \<open>Update\<close> do the same; \<open>Delete\<close> and \<open>Replace\<close>. The order of a range over a map is the argument \<open>ord\<close>.\<close>

definition store_Add :: "KafkaTopicChannel \<Rightarrow> indexer \<Rightarrow> indexer" where
  "store_Add obj ix =
     (let key = MetaNamespaceKeyFunc obj in
      \<lparr>ix_items = (ix_items ix)(key \<mapsto> obj), ix_index = updateIndices (ix_items ix key) obj key (ix_index ix)\<rparr>)"

definition store_Delete :: "KafkaTopicChannel \<Rightarrow> indexer \<Rightarrow> indexer" where
  "store_Delete obj ix =
     (let key = MetaNamespaceKeyFunc obj in
      case ix_items ix key of
        None \<Rightarrow> ix
      | Some old \<Rightarrow> \<lparr>ix_items = (ix_items ix)(key := None), ix_index = deleteFromIndices old key (ix_index ix)\<rparr>)"

definition store_Replace :: "(string set \<Rightarrow> string list) \<Rightarrow> KafkaTopicChannel list \<Rightarrow> indexer \<Rightarrow> indexer" where
  "store_Replace ord objs ix =
     (let items = fold (\<lambda>obj m. m(MetaNamespaceKeyFunc obj \<mapsto> obj)) objs Map.empty
      in \<lparr>ix_items = items,
          ix_index = fold (\<lambda>key index. updateIndices None (the (items key)) key index) (ord (dom items)) Map.empty\<rparr>)"

definition store_List :: "(string set \<Rightarrow> string list) \<Rightarrow> indexer \<Rightarrow> KafkaTopicChannel list" where
  "store_List ord ix = map (\<lambda>key. the (ix_items ix key)) (ord (dom (ix_items ix)))"

text \<open>The informers of the channels always have the index by namespace, so the lister's fallback to a full scan without it is left out.\<close>

definition store_Index :: "(string set \<Rightarrow> string list) \<Rightarrow> string \<Rightarrow> indexer \<Rightarrow> KafkaTopicChannel list" where
  "store_Index ord namespace ix =
     (let storeKeySet = (case ix_index ix namespace of None \<Rightarrow> {} | Some s \<Rightarrow> s)
      in map (\<lambda>key. the (ix_items ix key)) (ord storeKeySet))"

section \<open>The lister\<close>

record selector =
  sel_Empty :: bool
  sel_Matches :: "(string \<rightharpoonup> string) \<Rightarrow> bool"

definition select :: "selector \<Rightarrow> KafkaTopicChannel list \<Rightarrow> KafkaTopicChannel list" where
  "select selector ms = (if sel_Empty selector then ms else filter (\<lambda>m. sel_Matches selector (om_Labels (kc_Meta m))) ms)"

definition lister_List :: "(string set \<Rightarrow> string list) \<Rightarrow> selector \<Rightarrow> indexer \<Rightarrow> KafkaTopicChannel list" where
  "lister_List ord selector ix = select selector (store_List ord ix)"

definition namespace_List :: "(string set \<Rightarrow> string list) \<Rightarrow> string \<Rightarrow> selector \<Rightarrow> indexer \<Rightarrow> KafkaTopicChannel list" where
  "namespace_List ord namespace selector ix =
     (if namespace = '''' then select selector (store_List ord ix) else select selector (store_Index ord namespace ix))"

definition namespace_Get :: "string \<Rightarrow> string \<Rightarrow> indexer \<Rightarrow> go_error + KafkaTopicChannel" where
  "namespace_Get namespace name ix =
     (case ix_items ix (namespace @ ''/'' @ name) of
        None \<Rightarrow> Inl (ApiNotFound name)
      | Some obj \<Rightarrow> Inr obj)"

section \<open>The invariant\<close>

text \<open>What the API server admits as the name of a channel: a namespace, and no slash anywhere.\<close>

definition named :: "KafkaTopicChannel \<Rightarrow> bool" where
  "named kc \<longleftrightarrow> kc_Namespace kc \<noteq> '''' \<and> CHR ''/'' \<notin> set (kc_Namespace kc) \<and> CHR ''/'' \<notin> set (kc_Name kc)"

definition keys_in :: "string \<Rightarrow> (string \<rightharpoonup> KafkaTopicChannel) \<Rightarrow> string set" where
  "keys_in ns items = {key. \<exists>kc. items key = Some kc \<and> kc_Namespace kc = ns}"

definition indexes :: "(string \<rightharpoonup> KafkaTopicChannel) \<Rightarrow> (string \<rightharpoonup> string set) \<Rightarrow> bool" where
  "indexes items index \<longleftrightarrow> (\<forall>ns. index ns = (if keys_in ns items = {} then None else Some (keys_in ns items)))"

definition ix_inv :: "indexer \<Rightarrow> bool" where
  "ix_inv ix \<longleftrightarrow> finite (dom (ix_items ix)) \<and> indexes (ix_items ix) (ix_index ix) \<and>
     (\<forall>key kc. ix_items ix key = Some kc \<longrightarrow> named kc \<and> key = MetaNamespaceKeyFunc kc)"

inductive ix_reachable :: "indexer \<Rightarrow> bool" where
  start: "ix_reachable new_indexer"
| add: "ix_reachable ix \<Longrightarrow> named kc \<Longrightarrow> ix_reachable (store_Add kc ix)"
| delete: "ix_reachable ix \<Longrightarrow> named kc \<Longrightarrow> ix_reachable (store_Delete kc ix)"
| replace: "ix_reachable ix \<Longrightarrow> go_range ord \<Longrightarrow> \<forall>kc \<in> set kcs. named kc \<Longrightarrow> ix_reachable (store_Replace ord kcs ix)"

lemma index_value: "indexes items index \<Longrightarrow> (case index ns of None \<Rightarrow> {} | Some s \<Rightarrow> s) = keys_in ns items"
  by (simp add: indexes_def)

lemma keys_in_delete: "keys_in ns (items(key := None)) = keys_in ns items - {key}"
  by (auto simp: keys_in_def)

lemma keys_in_insert:
  "items key = None \<Longrightarrow> keys_in ns (items(key \<mapsto> obj)) = (if kc_Namespace obj = ns then insert key (keys_in ns items) else keys_in ns items)"
  by (auto simp: keys_in_def)

lemma indexes_delete:
  assumes "indexes items index" "items key = Some old"
  shows "indexes (items(key := None)) (deleteFromIndices old key index)"
proof -
  let ?ns = "kc_Namespace old"
  have "key \<in> keys_in ?ns items" using assms(2) by (simp add: keys_in_def)
  then have idx: "index ?ns = Some (keys_in ?ns items)" using assms(1) by (auto simp: indexes_def)
  have other: "keys_in ns items - {key} = keys_in ns items" if "ns \<noteq> ?ns" for ns
    using that assms(2) by (auto simp: keys_in_def)
  have "deleteFromIndices old key index ns =
      (if keys_in ns items - {key} = {} then None else Some (keys_in ns items - {key}))" for ns
  proof (cases "ns = ?ns")
    case True
    then show ?thesis by (simp add: deleteFromIndices_def MetaNamespaceIndexFunc_def delete_value_def idx)
  next
    case False
    then have "deleteFromIndices old key index ns = index ns"
      by (simp add: deleteFromIndices_def MetaNamespaceIndexFunc_def delete_value_def idx)
    then show ?thesis using assms(1) other [OF False] by (simp add: indexes_def)
  qed
  then show ?thesis unfolding indexes_def keys_in_delete by blast
qed

lemma indexes_insert:
  assumes "indexes items index" "items key = None"
  shows "indexes (items(key \<mapsto> obj)) (fold (insert_value key) (MetaNamespaceIndexFunc obj) index)"
  using assms by (simp add: indexes_def MetaNamespaceIndexFunc_def insert_value_def Let_def keys_in_insert)

lemma indexes_update:
  assumes "indexes items index"
  shows "indexes (items(key \<mapsto> obj)) (updateIndices (items key) obj key index)"
proof (cases "items key")
  case None
  with indexes_insert [OF assms] show ?thesis by (simp add: updateIndices_def)
next
  case (Some old)
  from indexes_insert [OF indexes_delete [OF assms Some], of key obj] Some show ?thesis
    by (simp add: updateIndices_def)
qed

lemma ix_inv_new: "ix_inv new_indexer"
  by (simp add: ix_inv_def new_indexer_def indexes_def keys_in_def)

lemma ix_inv_Add: "ix_inv ix \<Longrightarrow> named kc \<Longrightarrow> ix_inv (store_Add kc ix)"
  using indexes_update by (auto simp: ix_inv_def store_Add_def Let_def)

lemma ix_inv_Delete: "ix_inv ix \<Longrightarrow> ix_inv (store_Delete kc ix)"
  using indexes_delete
  by (auto simp: ix_inv_def store_Delete_def Let_def split: option.split if_splits)

definition well_keyed :: "(string \<rightharpoonup> KafkaTopicChannel) \<Rightarrow> bool" where
  "well_keyed items \<longleftrightarrow> finite (dom items) \<and> (\<forall>key kc. items key = Some kc \<longrightarrow> named kc \<and> key = MetaNamespaceKeyFunc kc)"

lemma replace_items:
  "well_keyed m \<Longrightarrow> \<forall>kc \<in> set kcs. named kc \<Longrightarrow> well_keyed (fold (\<lambda>obj m. m(MetaNamespaceKeyFunc obj \<mapsto> obj)) kcs m)"
proof (induction kcs arbitrary: m)
  case (Cons kc kcs)
  from Cons.prems have "well_keyed (m(MetaNamespaceKeyFunc kc \<mapsto> kc))" by (simp add: well_keyed_def)
  moreover from Cons.prems have "\<forall>kc \<in> set kcs. named kc" by simp
  ultimately show ?case using Cons.IH by (simp only: fold_Cons o_apply)
qed simp

lemma rebuild_index:
  assumes "distinct keys" "set keys \<subseteq> dom items"
  shows "indexes (items |` set keys) (fold (\<lambda>key index. updateIndices None (the (items key)) key index) keys Map.empty)"
  using assms
proof (induction keys rule: rev_induct)
  case Nil
  then show ?case by (simp add: indexes_def keys_in_def)
next
  case (snoc key keys)
  then obtain kc where kc: "items key = Some kc" by auto
  let ?r = "items |` set keys" and ?f = "fold (\<lambda>key index. updateIndices None (the (items key)) key index) keys Map.empty"
  have "?r key = None" using snoc.prems by simp
  moreover have "indexes ?r ?f" using snoc by simp
  ultimately have "indexes (?r(key \<mapsto> kc)) (fold (insert_value key) (MetaNamespaceIndexFunc kc) ?f)"
    by (rule indexes_insert [rotated])
  moreover have "items |` set (keys @ [key]) = ?r(key \<mapsto> kc)" using kc by (auto simp: restrict_map_def fun_eq_iff)
  ultimately show ?case using kc by (simp only: fold_append fold_Cons fold_Nil o_apply id_apply updateIndices_def Let_def option.simps option.sel)
qed

lemma ix_inv_Replace:
  assumes "go_range ord" "\<forall>kc \<in> set kcs. named kc"
  shows "ix_inv (store_Replace ord kcs ix)"
proof -
  let ?items = "fold (\<lambda>obj m. m(MetaNamespaceKeyFunc obj \<mapsto> obj)) kcs Map.empty"
  have r: "well_keyed ?items" using assms(2) by (rule replace_items [rotated]) (simp add: well_keyed_def)
  have o: "set (ord (dom ?items)) = dom ?items" "distinct (ord (dom ?items))"
    using r go_range.set_ord [OF assms(1)] go_range.distinct_ord [OF assms(1)] by (auto simp: well_keyed_def)
  have "?items |` dom ?items = ?items" by (auto simp: restrict_map_def fun_eq_iff domIff)
  with rebuild_index [OF o(2), of ?items] o(1)
  have "indexes ?items (fold (\<lambda>key index. updateIndices None (the (?items key)) key index) (ord (dom ?items)) Map.empty)" by simp
  with r show ?thesis by (simp add: ix_inv_def store_Replace_def Let_def well_keyed_def)
qed

lemma ix_reachable_inv: "ix_reachable ix \<Longrightarrow> ix_inv ix"
  by (induction rule: ix_reachable.induct) (simp_all add: ix_inv_new ix_inv_Add ix_inv_Delete ix_inv_Replace)

section \<open>The contract of a lister\<close>

text \<open>
  What the generated reconciler relies on: a channel that is found under a name has that name, and a
  failure to find it is a \<open>NotFound\<close>.
\<close>

locale channel_lister =
  fixes get :: "string \<Rightarrow> string \<Rightarrow> 's \<Rightarrow> go_error + KafkaTopicChannel" and inv :: "'s \<Rightarrow> bool"
  assumes get_named: "inv s \<Longrightarrow> CHR ''/'' \<notin> set ns \<Longrightarrow> get ns name s = Inr kc \<Longrightarrow> named kc \<and> kc_Namespace kc = ns \<and> kc_Name kc = name"
    and get_error: "get ns name s = Inl err \<Longrightarrow> IsNotFound err"
begin

lemma get_key:
  assumes "inv s" "SplitMetaNamespaceKey key = Inr (ns, name)" "get ns name s = Inr kc"
  shows "key = MetaNamespaceKeyFunc kc \<and> kc_Namespace kc = ns \<and> kc_Name kc = name"
proof -
  have split: "go_split CHR ''/'' key = [name] \<and> ns = '''' \<or> go_split CHR ''/'' key = [ns, name]"
    using assms(2) by (auto simp: SplitMetaNamespaceKey_def split: list.splits)
  then have "CHR ''/'' \<notin> set ns" using go_split_elem_no_sep [of ns "CHR ''/''" key] by auto
  from get_named [OF assms(1) this assms(3)] have kc: "named kc" "kc_Namespace kc = ns" "kc_Name kc = name" by auto
  with split have "go_split CHR ''/'' key = [ns, name]" by (auto simp: named_def)
  then have "key = ns @ ''/'' @ name" using go_join_split [of "CHR ''/''" key] by simp
  with kc show ?thesis by (simp add: MetaNamespaceKeyFunc_def named_def)
qed

text \<open>A pass over a key that names nothing the lister knows does nothing unless deletions are observed.\<close>

lemma reconcile_unknown:
  assumes "ri_Lister r = (\<lambda>ns name. get ns name s)" "SplitMetaNamespaceKey key = Inr (ns, name)" "get ns name s = Inl err"
    and "ri_IsLeaderFor r \<lparr>nn_Namespace = ns, nn_Name = name\<rparr>" "bz_ObserveDeletion (ri_reconciler r) = None"
  shows "Reconcile r key g = (g, None)"
proof -
  obtain st where st: "newState key r = Inr st" "s_isLeader st" "s_namespace st = ns" "s_name st = name"
    using newState_Inr [OF assms(2), of r] assms(4) by auto
  then show ?thesis using assms(1,3,5) get_error [OF assms(3)] by (simp add: Reconcile_def isNotLeaderNorObserver_def)
qed

end

lemma key_unique:
  assumes "named kc" "CHR ''/'' \<notin> set ns" "ns @ ''/'' @ name = MetaNamespaceKeyFunc kc"
  shows "kc_Namespace kc = ns \<and> kc_Name kc = name"
proof -
  have "go_split CHR ''/'' (ns @ CHR ''/'' # name) = go_split CHR ''/'' (kc_Namespace kc @ CHR ''/'' # kc_Name kc)"
    using assms by (simp add: MetaNamespaceKeyFunc_def named_def)
  then have "ns # go_split CHR ''/'' name = [kc_Namespace kc, kc_Name kc]"
    using assms by (simp add: go_split_append go_split_no_sep named_def)
  then show ?thesis using go_join_split [of "CHR ''/''" name] by auto
qed

interpretation kc_lister: channel_lister namespace_Get ix_inv
  using key_unique by unfold_locales (auto simp: namespace_Get_def ix_inv_def split: option.splits)

section \<open>Main properties\<close>

lemma item_key: "ix_inv ix \<Longrightarrow> ix_items ix key = Some kc \<Longrightarrow> key = MetaNamespaceKeyFunc kc"
  by (simp add: ix_inv_def)

lemma items_inj: "ix_inv ix \<Longrightarrow> inj_on (\<lambda>key. the (ix_items ix key)) (dom (ix_items ix))"
proof (rule inj_onI)
  fix a b
  assume "ix_inv ix" "a \<in> dom (ix_items ix)" "b \<in> dom (ix_items ix)" "the (ix_items ix a) = the (ix_items ix b)"
  then obtain kc where "ix_items ix a = Some kc" "ix_items ix b = Some kc" by auto
  with \<open>ix_inv ix\<close> show "a = b" using item_key [of ix a kc] item_key [of ix b kc] by simp
qed

lemma store_List_set:
  assumes "ix_inv ix" "go_range ord"
  shows "set (store_List ord ix) = ran (ix_items ix)" "distinct (store_List ord ix)"
proof -
  have o: "set (ord (dom (ix_items ix))) = dom (ix_items ix)" "distinct (ord (dom (ix_items ix)))"
    using assms by (auto simp: ix_inv_def go_range.set_ord go_range.distinct_ord)
  show "set (store_List ord ix) = ran (ix_items ix)" by (force simp: store_List_def o ran_def image_iff)
  show "distinct (store_List ord ix)" using o items_inj [OF assms(1)] by (simp add: store_List_def distinct_map)
qed

lemma store_Index_set:
  assumes "ix_inv ix" "go_range ord"
  shows "set (store_Index ord ns ix) = {kc \<in> ran (ix_items ix). kc_Namespace kc = ns}" "distinct (store_Index ord ns ix)"
proof -
  let ?k = "keys_in ns (ix_items ix)"
  have k: "?k \<subseteq> dom (ix_items ix)" by (auto simp: keys_in_def)
  then have fin: "finite ?k" using assms(1) finite_subset by (auto simp: ix_inv_def)
  have eq: "store_Index ord ns ix = map (\<lambda>key. the (ix_items ix key)) (ord ?k)"
    using index_value [of "ix_items ix" "ix_index ix" ns] assms(1) by (simp only: store_Index_def ix_inv_def Let_def)
  show "set (store_Index ord ns ix) = {kc \<in> ran (ix_items ix). kc_Namespace kc = ns}"
  proof -
    have "set (store_Index ord ns ix) = (\<lambda>key. the (ix_items ix key)) ` ?k"
      by (simp add: eq go_range.set_ord [OF assms(2) fin])
    also have "\<dots> = {kc \<in> ran (ix_items ix). kc_Namespace kc = ns}" by (force simp: keys_in_def ran_def)
    finally show ?thesis .
  qed
  have "inj_on (\<lambda>key. the (ix_items ix key)) ?k" using items_inj [OF assms(1)] k by (rule inj_on_subset)
  with fin show "distinct (store_Index ord ns ix)"
    by (simp add: eq distinct_map go_range.set_ord [OF assms(2)] go_range.distinct_ord [OF assms(2)])
qed

text \<open>
  C28: Listing the channels of a namespace through the index agrees with searching all channels: after any
  additions, updates, deletions and replacements, with whatever order a range over a map takes, the
  lister returns exactly the channels of the store in that namespace (all channels, for the empty
  namespace) whose labels the selector matches, each once.
\<close>

theorem list_by_namespace:
  assumes "ix_reachable ix" and "go_range ord" and "\<And>ls. sel_Empty sel \<Longrightarrow> sel_Matches sel ls"
  shows "set (namespace_List ord ns sel ix) =
           {kc \<in> set (store_List ord ix). (ns = '''' \<or> kc_Namespace kc = ns) \<and> sel_Matches sel (om_Labels (kc_Meta kc))} \<and>
         distinct (namespace_List ord ns sel ix)"
proof -
  note inv = ix_reachable_inv [OF assms(1)]
  have sel: "set (select sel ms) = {kc \<in> set ms. sel_Matches sel (om_Labels (kc_Meta kc))}" "distinct ms \<Longrightarrow> distinct (select sel ms)" for ms
    using assms(3) by (auto simp: select_def)
  show ?thesis
    using store_List_set [OF inv assms(2)] store_Index_set [OF inv assms(2), of ns] sel
    by (auto simp: namespace_List_def)
qed

text \<open>
  C29: Keys and channels determine each other: the key under which a channel is enqueued splits into its
  namespace and name, the lister finds it under them exactly while it is in the store, what it finds
  under any key has this key, and changes of one channel leave the others alone.
\<close>

theorem lister_round_trip:
  assumes "ix_reachable ix" and "named kc"
  shows "SplitMetaNamespaceKey (MetaNamespaceKeyFunc kc) = Inr (kc_Namespace kc, kc_Name kc) \<and>
         namespace_Get (kc_Namespace kc) (kc_Name kc) (store_Add kc ix) = Inr kc \<and>
         namespace_Get (kc_Namespace kc) (kc_Name kc) (store_Delete kc ix) = Inl (ApiNotFound (kc_Name kc)) \<and>
         (\<forall>ns name. CHR ''/'' \<notin> set ns \<and> (ns, name) \<noteq> (kc_Namespace kc, kc_Name kc) \<longrightarrow>
            namespace_Get ns name (store_Add kc ix) = namespace_Get ns name ix \<and>
            namespace_Get ns name (store_Delete kc ix) = namespace_Get ns name ix) \<and>
         (\<forall>key ns name found. SplitMetaNamespaceKey key = Inr (ns, name) \<and> namespace_Get ns name ix = Inr found \<longrightarrow>
            MetaNamespaceKeyFunc found = key \<and> kc_Namespace found = ns \<and> kc_Name found = name)"
proof -
  have key: "MetaNamespaceKeyFunc kc = kc_Namespace kc @ ''/'' @ kc_Name kc"
    using assms(2) by (simp add: MetaNamespaceKeyFunc_def named_def)
  have split: "SplitMetaNamespaceKey (MetaNamespaceKeyFunc kc) = Inr (kc_Namespace kc, kc_Name kc)"
    using assms(2) by (simp add: key SplitMetaNamespaceKey_def go_split_append go_split_no_sep named_def)
  have other: "ns @ ''/'' @ name \<noteq> MetaNamespaceKeyFunc kc" if "CHR ''/'' \<notin> set ns" "(ns, name) \<noteq> (kc_Namespace kc, kc_Name kc)" for ns name
    using key_unique [OF assms(2) that(1), of name] that(2) by auto
  have "namespace_Get ns name (store_Add kc ix) = namespace_Get ns name ix \<and>
      namespace_Get ns name (store_Delete kc ix) = namespace_Get ns name ix"
    if "CHR ''/'' \<notin> set ns" "(ns, name) \<noteq> (kc_Namespace kc, kc_Name kc)" for ns name
    using other [OF that] by (simp add: namespace_Get_def store_Add_def store_Delete_def Let_def split: option.split)
  moreover have "namespace_Get (kc_Namespace kc) (kc_Name kc) (store_Add kc ix) = Inr kc"
    by (simp add: namespace_Get_def store_Add_def key Let_def)
  moreover have "namespace_Get (kc_Namespace kc) (kc_Name kc) (store_Delete kc ix) = Inl (ApiNotFound (kc_Name kc))"
    by (simp add: namespace_Get_def store_Delete_def key Let_def split: option.split)
  moreover have "MetaNamespaceKeyFunc found = key' \<and> kc_Namespace found = ns \<and> kc_Name found = name"
    if "SplitMetaNamespaceKey key' = Inr (ns, name)" "namespace_Get ns name ix = Inr found" for key' ns name found
    using kc_lister.get_key [OF ix_reachable_inv [OF assms(1)] that] by simp
  ultimately show ?thesis using split by blast
qed

lemma sample_named: "named (sample_channel n subs)"
  by (simp add: named_def sample_defs)

definition sample_indexer :: indexer where
  "sample_indexer = store_Add (sample_channel 1 []) new_indexer"

lemma sample_indexer_reachable: "ix_reachable sample_indexer"
  unfolding sample_indexer_def by (intro ix_reachable.intros sample_named)

theorem list_by_namespace_witness:
  "set (namespace_List sorted_list_of_set ''ns'' \<lparr>sel_Empty = True, sel_Matches = (\<lambda>_. True)\<rparr> sample_indexer) = {sample_channel 1 []}"
proof -
  have "ran (ix_items sample_indexer) = {sample_channel 1 []}"
    by (simp add: sample_indexer_def store_Add_def new_indexer_def Let_def)
  then have "set (store_List sorted_list_of_set sample_indexer) = {sample_channel 1 []}"
    using store_List_set(1) [OF ix_reachable_inv [OF sample_indexer_reachable] sorted_range.go_range_axioms] by simp
  with list_by_namespace [OF sample_indexer_reachable sorted_range.go_range_axioms,
      of "\<lparr>sel_Empty = True, sel_Matches = (\<lambda>_. True)\<rparr>" "''ns''"]
  show ?thesis by (auto simp: sample_defs)
qed

theorem lister_round_trip_witness:
  "namespace_Get ''ns'' ''ch'' (store_Add (sample_channel 1 []) sample_indexer) = Inr (sample_channel 1 []) \<and>
   namespace_Get ''ns'' ''ch'' (store_Delete (sample_channel 1 []) sample_indexer) = Inl (ApiNotFound ''ch'')"
  using lister_round_trip [OF sample_indexer_reachable sample_named, of 1 "[]"] by (simp add: sample_defs)

end
