(* ===== verification/WorkQueue.thy ===== *)
theory WorkQueue
  imports Prelude
begin

text \<open>
  The work queue of a controller. \<open>Type\<close> is the queue of \<open>client-go\<close> (\<open>queue.go\<close>), \<open>twoLane\<close> the queue of
  \<open>knative.dev/pkg/controller\<close> (\<open>two_lane_queue.go\<close>) that merges a fast and a slow lane into a third queue,
  and \<open>Impl\<close> the controller that its workers run in (\<open>controller.go\<close>). The goroutines are the steps of
  \<open>queue_step\<close>; a step is what happens between two acquisitions of a lock or two operations on a channel. The
  theory is about the running controller: no step shuts a queue down.
\<close>

section \<open>The queue of client-go\<close>

record 'k Type =
  q_queue :: "'k list"
  q_dirty :: "'k set"
  q_processing :: "'k set"
  q_shuttingDown :: bool

definition newQueue :: "'k Type" where
  "newQueue = \<lparr>q_queue = [], q_dirty = {}, q_processing = {}, q_shuttingDown = False\<rparr>"

definition q_Add :: "'k \<Rightarrow> 'k Type \<Rightarrow> 'k Type" where
  "q_Add item q =
     (if q_shuttingDown q then q
      else if item \<in> q_dirty q then q
      else
        (let q1 = q\<lparr>q_dirty := insert item (q_dirty q)\<rparr> in
         if item \<in> q_processing q1 then q1
         else q1\<lparr>q_queue := q_queue q1 @ [item]\<rparr>))"

datatype 'k got = Item 'k | Shutdown | Blocks

definition q_Get :: "'k Type \<Rightarrow> 'k Type \<times> 'k got" where
  "q_Get q =
     (case q_queue q of
        [] \<Rightarrow> (q, if q_shuttingDown q then Shutdown else Blocks)
      | item # rest \<Rightarrow>
          (q\<lparr>q_queue := rest, q_processing := insert item (q_processing q), q_dirty := q_dirty q - {item}\<rparr>, Item item))"

definition q_Done :: "'k \<Rightarrow> 'k Type \<Rightarrow> 'k Type" where
  "q_Done item q =
     (let q1 = q\<lparr>q_processing := q_processing q - {item}\<rparr> in
      if item \<in> q_dirty q1 then q1\<lparr>q_queue := q_queue q1 @ [item]\<rparr> else q1)"

definition q_ShutDown :: "'k Type \<Rightarrow> 'k Type" where
  "q_ShutDown q = q\<lparr>q_shuttingDown := True\<rparr>"

section \<open>The queue with two lanes\<close>

text \<open>
  A lane is a queue with the goroutine \<open>process\<close>, which takes an item, marks it done, and then sends it.
  \<open>tl_moving\<close> is the item that \<open>runConsumer\<close> has received and not yet added to the consumer queue; \<open>tl_waiting\<close>
  are the items that the fast lane holds back after \<open>AddRateLimited\<close>.
\<close>

datatype 'k hand = Idle | Got 'k | Sending 'k

record 'k lane =
  ln_queue :: "'k Type"
  ln_hand :: "'k hand"

record 'k twoLane =
  tl_fast :: "'k lane"
  tl_slow :: "'k lane"
  tl_consumer :: "'k Type"
  tl_moving :: "'k option"
  tl_waiting :: "'k set"

definition newTwoLaneWorkQueue :: "'k twoLane" where
  "newTwoLaneWorkQueue =
     \<lparr>tl_fast = \<lparr>ln_queue = newQueue, ln_hand = Idle\<rparr>, tl_slow = \<lparr>ln_queue = newQueue, ln_hand = Idle\<rparr>,
      tl_consumer = newQueue, tl_moving = None, tl_waiting = {}\<rparr>"

definition lane_Add :: "'k \<Rightarrow> 'k lane \<Rightarrow> 'k lane" where
  "lane_Add item l = l\<lparr>ln_queue := q_Add item (ln_queue l)\<rparr>"

text \<open>One step of \<open>process\<close>: \<open>None\<close> while it waits for an item or for the receiver.\<close>

definition process_step :: "'k lane \<Rightarrow> 'k lane option" where
  "process_step l =
     (case ln_hand l of
        Idle \<Rightarrow> (case q_Get (ln_queue l) of (q, Item item) \<Rightarrow> Some \<lparr>ln_queue = q, ln_hand = Got item\<rparr> | _ \<Rightarrow> None)
      | Got item \<Rightarrow> Some \<lparr>ln_queue = q_Done item (ln_queue l), ln_hand = Sending item\<rparr>
      | Sending _ \<Rightarrow> None)"

text \<open>The receive from a lane's channel.\<close>

definition receive :: "'k lane \<Rightarrow> ('k \<times> 'k lane) option" where
  "receive l = (case ln_hand l of Sending item \<Rightarrow> Some (item, l\<lparr>ln_hand := Idle\<rparr>) | _ \<Rightarrow> None)"

definition AddRateLimited :: "'k \<Rightarrow> 'k twoLane \<Rightarrow> 'k twoLane" where
  "AddRateLimited item q =
     (if q_shuttingDown (ln_queue (tl_fast q)) then q else q\<lparr>tl_waiting := insert item (tl_waiting q)\<rparr>)"

section \<open>The controller\<close>

text \<open>A worker is a key with the flag that its reconciliation is over and only \<open>Done\<close> is left to be called.\<close>

record 'k Impl =
  im_workQueue :: "'k twoLane"
  im_workers :: "('k \<times> bool) list"
  im_threadiness :: nat

definition new_Impl :: "nat \<Rightarrow> 'k Impl" where
  "new_Impl threadiness = \<lparr>im_workQueue = newTwoLaneWorkQueue, im_workers = [], im_threadiness = threadiness\<rparr>"

definition upd_queue :: "('k twoLane \<Rightarrow> 'k twoLane) \<Rightarrow> 'k Impl \<Rightarrow> 'k Impl" where
  "upd_queue f c = c\<lparr>im_workQueue := f (im_workQueue c)\<rparr>"

definition EnqueueKey :: "'k \<Rightarrow> 'k Impl \<Rightarrow> 'k Impl" where
  "EnqueueKey key = upd_queue (\<lambda>q. q\<lparr>tl_fast := lane_Add key (tl_fast q)\<rparr>)"

definition EnqueueSlowKey :: "'k \<Rightarrow> 'k Impl \<Rightarrow> 'k Impl" where
  "EnqueueSlowKey key = upd_queue (\<lambda>q. q\<lparr>tl_slow := lane_Add key (tl_slow q)\<rparr>)"

definition FilteredGlobalResync :: "('o \<Rightarrow> bool) \<Rightarrow> ('o \<Rightarrow> 'k) \<Rightarrow> 'o list \<Rightarrow> 'k Impl \<Rightarrow> 'k Impl" where
  "FilteredGlobalResync f key_of objs c =
     (if q_shuttingDown (ln_queue (tl_fast (im_workQueue c))) then c
      else fold (\<lambda>obj c. if f obj then EnqueueSlowKey (key_of obj) c else c) objs c)"

definition GlobalResync :: "('o \<Rightarrow> 'k) \<Rightarrow> 'o list \<Rightarrow> 'k Impl \<Rightarrow> 'k Impl" where
  "GlobalResync = FilteredGlobalResync (\<lambda>_. True)"

definition handleErr :: "(go_error \<Rightarrow> bool) \<Rightarrow> (go_error \<Rightarrow> bool) \<Rightarrow> go_error \<Rightarrow> 'k \<Rightarrow> 'k Impl \<Rightarrow> 'k Impl" where
  "handleErr isSkipKey isPermanentError err key c =
     (if isSkipKey err then c
      else if \<not> isPermanentError err \<and> \<not> q_shuttingDown (ln_queue (tl_fast (im_workQueue c)))
      then upd_queue (AddRateLimited key) c
      else c)"

text \<open>\<open>processNextWorkItem\<close> in three phases: a free worker takes a key, has it reconciled, and calls \<open>Done\<close>.\<close>

definition worker_get :: "'k Impl \<Rightarrow> ('k \<times> 'k Impl) option" where
  "worker_get c =
     (if length (im_workers c) < im_threadiness c then
        (case q_Get (tl_consumer (im_workQueue c)) of
           (q, Item key) \<Rightarrow>
             Some (key, (upd_queue (\<lambda>t. t\<lparr>tl_consumer := q\<rparr>) c)\<lparr>im_workers := (key, False) # im_workers c\<rparr>)
         | _ \<Rightarrow> None)
      else None)"

definition worker_reconciled :: "(go_error \<Rightarrow> bool) \<Rightarrow> (go_error \<Rightarrow> bool) \<Rightarrow> go_error option \<Rightarrow> 'k \<Rightarrow> 'k Impl \<Rightarrow> 'k Impl" where
  "worker_reconciled isSkipKey isPermanentError res key c =
     (let c1 = (case res of Some err \<Rightarrow> handleErr isSkipKey isPermanentError err key c | None \<Rightarrow> c)
      in c1\<lparr>im_workers := map (\<lambda>w. if fst w = key then (key, True) else w) (im_workers c1)\<rparr>)"

definition worker_done :: "'k \<Rightarrow> 'k Impl \<Rightarrow> 'k Impl" where
  "worker_done key c =
     (upd_queue (\<lambda>t. t\<lparr>tl_consumer := q_Done key (tl_consumer t)\<rparr>) c)\<lparr>im_workers := filter (\<lambda>w. fst w \<noteq> key) (im_workers c)\<rparr>"

text \<open>The goroutines; the label is the key that a worker takes in this step.\<close>

inductive queue_step :: "'k option \<Rightarrow> 'k Impl \<Rightarrow> 'k Impl \<Rightarrow> bool" where
  fast_process: "process_step (tl_fast (im_workQueue c)) = Some l \<Longrightarrow>
    queue_step None c (upd_queue (\<lambda>q. q\<lparr>tl_fast := l\<rparr>) c)"
| slow_process: "process_step (tl_slow (im_workQueue c)) = Some l \<Longrightarrow>
    queue_step None c (upd_queue (\<lambda>q. q\<lparr>tl_slow := l\<rparr>) c)"
| fast_receive: "receive (tl_fast (im_workQueue c)) = Some (item, l) \<Longrightarrow> tl_moving (im_workQueue c) = None \<Longrightarrow>
    queue_step None c (upd_queue (\<lambda>q. q\<lparr>tl_fast := l, tl_moving := Some item\<rparr>) c)"
| slow_receive: "receive (tl_slow (im_workQueue c)) = Some (item, l) \<Longrightarrow> tl_moving (im_workQueue c) = None \<Longrightarrow>
    queue_step None c (upd_queue (\<lambda>q. q\<lparr>tl_slow := l, tl_moving := Some item\<rparr>) c)"
| consume: "tl_moving (im_workQueue c) = Some item \<Longrightarrow>
    queue_step None c (upd_queue (\<lambda>q. q\<lparr>tl_consumer := q_Add item (tl_consumer q), tl_moving := None\<rparr>) c)"
| ready: "item \<in> tl_waiting (im_workQueue c) \<Longrightarrow>
    queue_step None c (upd_queue (\<lambda>q. q\<lparr>tl_fast := lane_Add item (tl_fast q), tl_waiting := tl_waiting q - {item}\<rparr>) c)"
| take: "worker_get c = Some (key, c') \<Longrightarrow> queue_step (Some key) c c'"
| reconciled: "(key, False) \<in> set (im_workers c) \<Longrightarrow>
    queue_step None c (worker_reconciled isSkipKey isPermanentError res key c)"
| finish: "(key, True) \<in> set (im_workers c) \<Longrightarrow> queue_step None c (worker_done key c)"

text \<open>\<open>runs_without k\<close>: a run of the goroutines and of calls that enqueue keys, in which no worker takes \<open>k\<close>.\<close>

inductive runs_without :: "'k \<Rightarrow> 'k Impl \<Rightarrow> 'k Impl \<Rightarrow> bool" for k where
  nothing: "runs_without k c c"
| step: "runs_without k c c' \<Longrightarrow> queue_step l c' c'' \<Longrightarrow> l \<noteq> Some k \<Longrightarrow> runs_without k c c''"
| enqueue: "runs_without k c c' \<Longrightarrow> runs_without k c (EnqueueKey j c')"
| enqueue_slow: "runs_without k c c' \<Longrightarrow> runs_without k c (EnqueueSlowKey j c')"

inductive impl_reachable :: "nat \<Rightarrow> 'k Impl \<Rightarrow> bool" for n where
  new: "impl_reachable n (new_Impl n)"
| step: "impl_reachable n c \<Longrightarrow> queue_step l c c' \<Longrightarrow> impl_reachable n c'"
| enqueue: "impl_reachable n c \<Longrightarrow> impl_reachable n (EnqueueKey k c)"
| enqueue_slow: "impl_reachable n c \<Longrightarrow> impl_reachable n (EnqueueSlowKey k c)"

section \<open>Invariants\<close>

text \<open>The queue holds, once each, the items that need processing and are not being processed.\<close>

definition q_inv :: "'k Type \<Rightarrow> bool" where
  "q_inv q \<longleftrightarrow> \<not> q_shuttingDown q \<and> distinct (q_queue q) \<and> set (q_queue q) = q_dirty q - q_processing q"

definition lane_inv :: "'k lane \<Rightarrow> bool" where
  "lane_inv l \<longleftrightarrow> q_inv (ln_queue l) \<and>
     q_processing (ln_queue l) = (case ln_hand l of Got item \<Rightarrow> {item} | _ \<Rightarrow> {})"

definition im_inv :: "nat \<Rightarrow> 'k Impl \<Rightarrow> bool" where
  "im_inv n c \<longleftrightarrow> im_threadiness c = n \<and> lane_inv (tl_fast (im_workQueue c)) \<and> lane_inv (tl_slow (im_workQueue c)) \<and>
     q_inv (tl_consumer (im_workQueue c)) \<and> distinct (map fst (im_workers c)) \<and> length (im_workers c) \<le> n \<and>
     set (map fst (im_workers c)) = q_processing (tl_consumer (im_workQueue c))"

text \<open>The key waits for a worker somewhere in the queues.\<close>

definition in_lane :: "'k \<Rightarrow> 'k lane \<Rightarrow> bool" where
  "in_lane k l \<longleftrightarrow> k \<in> q_dirty (ln_queue l) \<or> ln_hand l = Got k \<or> ln_hand l = Sending k"

definition queued :: "'k \<Rightarrow> 'k Impl \<Rightarrow> bool" where
  "queued k c \<longleftrightarrow> in_lane k (tl_fast (im_workQueue c)) \<or> in_lane k (tl_slow (im_workQueue c)) \<or>
     tl_moving (im_workQueue c) = Some k \<or> k \<in> q_dirty (tl_consumer (im_workQueue c)) \<or> k \<in> tl_waiting (im_workQueue c)"

lemma q_Add_inv: "q_inv q \<Longrightarrow> q_inv (q_Add k q)"
  by (auto simp: q_inv_def q_Add_def Let_def)

lemma q_Add_sets [simp]:
  "q_processing (q_Add k q) = q_processing q"
  "q_inv q \<Longrightarrow> q_dirty (q_Add k q) = insert k (q_dirty q)"
  by (simp_all add: q_inv_def q_Add_def Let_def insert_absorb)

lemma q_Get_Item:
  assumes "q_inv q" "q_Get q = (q', Item k)"
  shows "q_inv q'" "q_processing q' = insert k (q_processing q)" "q_dirty q' = q_dirty q - {k}"
    "k \<in> q_dirty q" "k \<notin> q_processing q" "q_queue q = k # q_queue q'"
proof -
  obtain rest where q: "q_queue q = k # rest"
      "q' = q\<lparr>q_queue := rest, q_processing := insert k (q_processing q), q_dirty := q_dirty q - {k}\<rparr>"
    using assms(2) by (auto simp: q_Get_def split: list.splits if_splits)
  have i: "k \<in> q_dirty q - q_processing q" "k \<notin> set rest" "set rest \<subseteq> q_dirty q - q_processing q"
    "q_dirty q - q_processing q \<subseteq> insert k (set rest)" "distinct rest" "\<not> q_shuttingDown q"
    using assms(1) q(1) unfolding q_inv_def by auto
  then show "q_inv q'" unfolding q_inv_def q(2) by auto
  show "q_processing q' = insert k (q_processing q)" "q_dirty q' = q_dirty q - {k}"
    "k \<in> q_dirty q" "k \<notin> q_processing q" "q_queue q = k # q_queue q'" using i q by auto
qed

lemma q_Get_Cons: "q_queue q = k # rest \<Longrightarrow> \<exists>q'. q_Get q = (q', Item k) \<and> q_queue q' = rest"
  by (simp add: q_Get_def)

lemma q_Done_inv: "q_inv q \<Longrightarrow> k \<in> q_processing q \<Longrightarrow> q_inv (q_Done k q)"
  by (auto simp: q_inv_def q_Done_def Let_def)

lemma q_Done_sets [simp]: "q_processing (q_Done k q) = q_processing q - {k}" "q_dirty (q_Done k q) = q_dirty q"
  by (auto simp: q_Done_def Let_def)

lemma q_Done_queue: "\<exists>xs. q_queue (q_Done k q) = q_queue q @ xs"
  by (auto simp: q_Done_def Let_def)

lemma lane_Add_spec:
  assumes "lane_inv l"
  shows "lane_inv (lane_Add k l)" "in_lane j (lane_Add k l) \<longleftrightarrow> j = k \<or> in_lane j l" "ln_hand (lane_Add k l) = ln_hand l"
  using assms q_Add_inv [of "ln_queue l" k] by (auto simp: lane_inv_def lane_Add_def in_lane_def)

lemma process_step_spec:
  assumes "lane_inv l" "process_step l = Some l'"
  shows "lane_inv l' \<and> (in_lane j l' \<longleftrightarrow> in_lane j l)"
proof (cases "ln_hand l")
  case Idle
  with assms(2) obtain q item where g: "q_Get (ln_queue l) = (q, Item item)" "l' = \<lparr>ln_queue = q, ln_hand = Got item\<rparr>"
    by (auto simp: process_step_def split: prod.splits got.splits)
  have "q_inv (ln_queue l)" using assms(1) by (simp add: lane_inv_def)
  from q_Get_Item [OF this g(1)] assms(1) Idle show ?thesis by (auto simp: g(2) lane_inv_def in_lane_def)
next
  case (Got item)
  with assms q_Done_inv [of "ln_queue l" item] show ?thesis by (auto simp: process_step_def lane_inv_def in_lane_def)
qed (use assms in \<open>simp add: process_step_def\<close>)

lemma receive_spec:
  assumes "lane_inv l" "receive l = Some (k, l')"
  shows "lane_inv l' \<and> (in_lane j l \<longrightarrow> j = k \<or> in_lane j l')"
  using assms by (auto simp: receive_def lane_inv_def in_lane_def split: hand.splits)

lemma upd_queue_simps [simp]:
  "im_workQueue (upd_queue f c) = f (im_workQueue c)" "im_workers (upd_queue f c) = im_workers c"
  "im_threadiness (upd_queue f c) = im_threadiness c"
  by (simp_all add: upd_queue_def)

lemma map_fst_flag [simp]: "map fst (map (\<lambda>w. if fst w = key then (key, True) else w) ws) = map fst ws"
  by (induction ws) auto

lemma worker_reconciled_simps [simp]:
  "im_threadiness (worker_reconciled p q res key c) = im_threadiness c"
  "map fst (im_workers (worker_reconciled p q res key c)) = map fst (im_workers c)"
  "tl_fast (im_workQueue (worker_reconciled p q res key c)) = tl_fast (im_workQueue c)"
  "tl_slow (im_workQueue (worker_reconciled p q res key c)) = tl_slow (im_workQueue c)"
  "tl_consumer (im_workQueue (worker_reconciled p q res key c)) = tl_consumer (im_workQueue c)"
  "tl_moving (im_workQueue (worker_reconciled p q res key c)) = tl_moving (im_workQueue c)"
  "length (im_workers (worker_reconciled p q res key c)) = length (im_workers c)"
  by (auto simp: worker_reconciled_def handleErr_def AddRateLimited_def Let_def upd_queue_def split: option.split)

lemma worker_reconciled_waiting: "tl_waiting (im_workQueue c) \<subseteq> tl_waiting (im_workQueue (worker_reconciled p q res key c))"
  by (auto simp: worker_reconciled_def handleErr_def AddRateLimited_def Let_def upd_queue_def split: option.split)

lemma worker_get_spec:
  assumes "im_inv n c" "worker_get c = Some (key, c')"
  shows "im_inv n c'" "j \<noteq> key \<Longrightarrow> queued j c' \<longleftrightarrow> queued j c"
    "q_queue (tl_consumer (im_workQueue c)) = key # q_queue (tl_consumer (im_workQueue c'))"
proof -
  let ?q = "tl_consumer (im_workQueue c)"
  obtain q where q: "q_Get ?q = (q, Item key)" "length (im_workers c) < im_threadiness c"
    "c' = (upd_queue (\<lambda>t. t\<lparr>tl_consumer := q\<rparr>) c)\<lparr>im_workers := (key, False) # im_workers c\<rparr>"
    using assms(2) by (auto simp: worker_get_def split: if_splits prod.splits got.splits)
  have "q_inv ?q" using assms(1) by (simp add: im_inv_def)
  note g = q_Get_Item [OF this q(1)]
  have "key \<notin> fst ` set (im_workers c)" using assms(1) g(5) by (simp add: im_inv_def)
  then show "im_inv n c'" using assms(1) g(1,2) q(2) by (simp add: im_inv_def q(3))
  show "j \<noteq> key \<Longrightarrow> queued j c' \<longleftrightarrow> queued j c" using g(3) by (simp add: queued_def q(3))
  show "q_queue ?q = key # q_queue (tl_consumer (im_workQueue c'))" using g(6) by (simp add: q(3))
qed

lemma worker_done_spec:
  assumes "im_inv n c" "(key, b) \<in> set (im_workers c)"
  shows "im_inv n (worker_done key c)" "queued j (worker_done key c) \<longleftrightarrow> queued j c"
proof -
  have key: "key \<in> q_processing (tl_consumer (im_workQueue c))" using assms by (force simp: im_inv_def)
  have d: "distinct (map fst (filter (\<lambda>w. fst w \<noteq> key) (im_workers c)))"
    using assms(1) by (auto simp: im_inv_def distinct_map intro: inj_on_subset)
  have l: "length (filter (\<lambda>w. fst w \<noteq> key) (im_workers c)) \<le> n"
    using assms(1) le_trans [OF length_filter_le] by (auto simp: im_inv_def)
  have p: "fst ` {w \<in> set (im_workers c). fst w \<noteq> key} = q_processing (tl_consumer (im_workQueue c)) - {key}"
    using assms(1) by (auto simp: im_inv_def)
  show "im_inv n (worker_done key c)"
    using assms(1) key d l p q_Done_inv [of "tl_consumer (im_workQueue c)" key] by (simp add: worker_done_def im_inv_def)
  show "queued j (worker_done key c) \<longleftrightarrow> queued j c" by (simp add: worker_done_def queued_def)
qed

text \<open>Every step keeps the invariant and, unless a worker takes it, every queued key.\<close>

lemma queue_step_spec:
  assumes "queue_step l c c'" "im_inv n c"
  shows "im_inv n c' \<and> (queued k c \<longrightarrow> l \<noteq> Some k \<longrightarrow> queued k c')"
  using assms
proof (induction rule: queue_step.induct)
  case (fast_process c l)
  with process_step_spec [of "tl_fast (im_workQueue c)" l k] show ?case by (auto simp: im_inv_def queued_def)
next
  case (slow_process c l)
  with process_step_spec [of "tl_slow (im_workQueue c)" l k] show ?case by (auto simp: im_inv_def queued_def)
next
  case (fast_receive c item l)
  with receive_spec [of "tl_fast (im_workQueue c)" item l k] show ?case by (auto simp: im_inv_def queued_def)
next
  case (slow_receive c item l)
  with receive_spec [of "tl_slow (im_workQueue c)" item l k] show ?case by (auto simp: im_inv_def queued_def)
next
  case (consume c item)
  then show ?case by (auto simp: im_inv_def queued_def q_Add_inv)
next
  case (ready item c)
  then show ?case by (auto simp: im_inv_def queued_def lane_Add_spec)
next
  case (take c key c')
  then show ?case using worker_get_spec(1) [of n c key c'] worker_get_spec(2) [of n c key c' k] by auto
next
  case (reconciled key c p q res)
  then show ?case using worker_reconciled_waiting [of c p q res key] by (auto simp: im_inv_def queued_def)
next
  case (finish key c)
  from finish(2,1) show ?case using worker_done_spec(1) [of n c key True] worker_done_spec(2) [of n c key True k] by simp
qed

section \<open>Enqueuing\<close>

text \<open>
  What the event handlers of a controller rely on: enqueuing a key keeps the invariant, the key is queued
  afterwards, and no other key is lost. Hence any number of keys can be enqueued one after another.
\<close>

locale key_sink =
  fixes inv :: "'c \<Rightarrow> bool" and waits :: "'k \<Rightarrow> 'c \<Rightarrow> bool" and enqueue :: "'k \<Rightarrow> 'c \<Rightarrow> 'c"
  assumes enqueue_inv: "inv c \<Longrightarrow> inv (enqueue k c)"
    and enqueue_waits: "inv c \<Longrightarrow> waits j (enqueue k c) \<longleftrightarrow> j = k \<or> waits j c"
begin

lemma enqueue_all_inv: "inv c \<Longrightarrow> inv (fold enqueue ks c)"
  by (induction ks arbitrary: c) (auto simp: enqueue_inv)

lemma enqueue_all_waits: "inv c \<Longrightarrow> waits j (fold enqueue ks c) \<longleftrightarrow> j \<in> set ks \<or> waits j c"
  by (induction ks arbitrary: c) (auto simp: enqueue_inv enqueue_waits)

end

interpretation fast_sink: key_sink "im_inv n" queued EnqueueKey for n
  by unfold_locales (auto simp: EnqueueKey_def im_inv_def queued_def lane_Add_spec)

interpretation slow_sink: key_sink "im_inv n" queued EnqueueSlowKey for n
  by unfold_locales (auto simp: EnqueueSlowKey_def im_inv_def queued_def lane_Add_spec)

lemma GlobalResync_eq: "im_inv n c \<Longrightarrow> GlobalResync key_of objs c = fold EnqueueSlowKey (map key_of objs) c"
  by (simp add: GlobalResync_def FilteredGlobalResync_def im_inv_def lane_inv_def q_inv_def fold_map comp_def)

lemma new_Impl_inv: "im_inv n (new_Impl n)"
  by (simp add: im_inv_def new_Impl_def newTwoLaneWorkQueue_def newQueue_def lane_inv_def q_inv_def)

lemma impl_reachable_inv: "impl_reachable n c \<Longrightarrow> im_inv n c"
  by (induction rule: impl_reachable.induct)
    (auto simp: new_Impl_inv fast_sink.enqueue_inv slow_sink.enqueue_inv dest: queue_step_spec)

lemma runs_without_keeps:
  assumes "runs_without k c c'" "im_inv n c" "queued k c"
  shows "im_inv n c' \<and> queued k c'"
  using assms
proof induction
  case (step c c' l c'')
  then show ?case using queue_step_spec [OF step(2), of n k] by simp
next
  case (enqueue c c' j)
  then show ?case using fast_sink.enqueue_inv [of n c'] fast_sink.enqueue_waits [of n c'] by simp
next
  case (enqueue_slow c c' j)
  then show ?case using slow_sink.enqueue_inv [of n c'] slow_sink.enqueue_waits [of n c'] by simp
qed simp_all

section \<open>A queued key can be taken\<close>

text \<open>The goroutines alone, without further keys, can go on until a worker takes the key.\<close>

inductive can_take :: "'k \<Rightarrow> 'k Impl \<Rightarrow> bool" for k where
  takes: "queue_step (Some k) c c' \<Longrightarrow> can_take k c"
| later: "queue_step l c c' \<Longrightarrow> can_take k c' \<Longrightarrow> can_take k c"

text \<open>A worker can be made free without losing the order of the consumer queue.\<close>

lemma retire:
  assumes "im_inv n c" "(key, b) \<in> set (im_workers c)" "can_take k (worker_done key c)"
  shows "can_take k c"
proof (cases b)
  case True
  with assms(2) have "(key, True) \<in> set (im_workers c)" by simp
  from queue_step.finish [OF this] show ?thesis using assms(3) by (rule can_take.later)
next
  case False
  let ?c = "worker_reconciled (\<lambda>_. False) (\<lambda>_. False) None key c"
  have 1: "queue_step None c ?c" using assms(2) False by (auto intro: queue_step.reconciled)
  have "im_workers ?c = map (\<lambda>w. if fst w = key then (key, True) else w) (im_workers c)" "im_workQueue ?c = im_workQueue c"
    by (simp_all add: worker_reconciled_def)
  moreover have "filter (\<lambda>w. fst w \<noteq> key) (map (\<lambda>w. if fst w = key then (key, True) else w) ws) = filter (\<lambda>w. fst w \<noteq> key) ws" for ws
    by (induction ws) auto
  ultimately have "worker_done key ?c = worker_done key c" "(key, True) \<in> set (im_workers ?c)"
    using assms(2) by (simp_all add: worker_done_def upd_queue_def worker_reconciled_def) force
  then have "can_take k ?c" using can_take.later [OF queue_step.finish] assms(3) by metis
  with 1 show ?thesis by (rule can_take.later)
qed

lemma free_worker:
  assumes "im_inv n c" "0 < n"
    and "\<And>c' xs. im_inv n c' \<Longrightarrow> length (im_workers c') < n \<Longrightarrow>
      q_queue (tl_consumer (im_workQueue c')) = q_queue (tl_consumer (im_workQueue c)) @ xs \<Longrightarrow> can_take k c'"
  shows "can_take k c"
proof (cases "length (im_workers c) < n")
  case True
  then show ?thesis using assms(3) [of c "[]"] assms(1) by simp
next
  case False
  with assms(2) obtain key b ws where w: "im_workers c = (key, b) # ws" by (cases "im_workers c") auto
  have "length (im_workers (worker_done key c)) < length (im_workers c)"
    using w by (simp add: worker_done_def le_imp_less_Suc)
  moreover have "length (im_workers c) \<le> n" using assms(1) by (simp add: im_inv_def)
  moreover obtain xs where "q_queue (tl_consumer (im_workQueue (worker_done key c))) = q_queue (tl_consumer (im_workQueue c)) @ xs"
    using q_Done_queue by (fastforce simp: worker_done_def)
  ultimately have "can_take k (worker_done key c)" using assms(3) worker_done_spec(1) [OF assms(1)] w by fastforce
  then show ?thesis using retire [OF assms(1)] w by auto
qed

lemma consumer_queue_take:
  "im_inv n c \<Longrightarrow> 0 < n \<Longrightarrow> q_queue (tl_consumer (im_workQueue c)) = pre @ k # post \<Longrightarrow> can_take k c"
proof (induction pre arbitrary: c post)
  case Nil
  show ?case
  proof (rule free_worker [OF Nil(1,2)])
    fix c' xs
    assume c': "im_inv n c'" "length (im_workers c') < n"
      "q_queue (tl_consumer (im_workQueue c')) = q_queue (tl_consumer (im_workQueue c)) @ xs"
    then obtain c'' where "worker_get c' = Some (k, c'')"
      using q_Get_Cons [of "tl_consumer (im_workQueue c')"] Nil(3) by (fastforce simp: worker_get_def im_inv_def)
    then show "can_take k c'" by (intro can_take.takes queue_step.take)
  qed
next
  case (Cons j pre)
  show ?case
  proof (rule free_worker [OF Cons(2,3)])
    fix c' xs
    assume c': "im_inv n c'" "length (im_workers c') < n"
      "q_queue (tl_consumer (im_workQueue c')) = q_queue (tl_consumer (im_workQueue c)) @ xs"
    then obtain c'' where g: "worker_get c' = Some (j, c'')"
      using q_Get_Cons [of "tl_consumer (im_workQueue c')"] Cons(4) by (fastforce simp: worker_get_def im_inv_def)
    note s = worker_get_spec [OF c'(1) g]
    have "can_take k c''" by (rule Cons.IH [OF s(1) Cons(3), of "post @ xs"]) (use s(3) c'(3) Cons(4) in auto)
    with queue_step.take [OF g] show "can_take k c'" by (rule can_take.later)
  qed
qed

lemma consumer_take:
  assumes "im_inv n c" "0 < n" "k \<in> q_dirty (tl_consumer (im_workQueue c))"
  shows "can_take k c"
proof (cases "k \<in> q_processing (tl_consumer (im_workQueue c))")
  case True
  then obtain b where w: "(k, b) \<in> set (im_workers c)" using assms(1) by (auto simp: im_inv_def) (metis imageE prod.collapse)
  note d = worker_done_spec(1) [OF assms(1) w]
  have "k \<in> set (q_queue (tl_consumer (im_workQueue (worker_done k c))))"
    using d assms(3) by (simp add: im_inv_def q_inv_def) (simp add: worker_done_def)
  then show ?thesis using consumer_queue_take [OF d assms(2)] retire [OF assms(1) w] by (metis split_list)
next
  case False
  then have "k \<in> set (q_queue (tl_consumer (im_workQueue c)))" using assms(1,3) by (simp add: im_inv_def q_inv_def)
  then show ?thesis using consumer_queue_take [OF assms(1,2)] by (metis split_list)
qed

text \<open>Both lanes at once.\<close>

definition the_lane :: "bool \<Rightarrow> 'k twoLane \<Rightarrow> 'k lane" where
  "the_lane fast q = (if fast then tl_fast q else tl_slow q)"

definition set_lane :: "bool \<Rightarrow> 'k lane \<Rightarrow> 'k twoLane \<Rightarrow> 'k twoLane" where
  "set_lane fast l q = (if fast then q\<lparr>tl_fast := l\<rparr> else q\<lparr>tl_slow := l\<rparr>)"

lemma the_lane_simps [simp]:
  "the_lane b (set_lane b l q) = l" "tl_moving (set_lane b l q) = tl_moving q"
  "the_lane b (q\<lparr>tl_moving := m\<rparr>) = the_lane b q" "the_lane b (q\<lparr>tl_consumer := t\<rparr>) = the_lane b q"
  by (simp_all add: the_lane_def set_lane_def)

lemma lane_process: "process_step (the_lane b (im_workQueue c)) = Some l \<Longrightarrow> queue_step None c (upd_queue (set_lane b l) c)"
  by (cases b) (auto simp: the_lane_def set_lane_def [abs_def] intro: queue_step.fast_process queue_step.slow_process)

lemma lane_receive:
  "receive (the_lane b (im_workQueue c)) = Some (item, l) \<Longrightarrow> tl_moving (im_workQueue c) = None \<Longrightarrow>
   queue_step None c (upd_queue (\<lambda>q. (set_lane b l q)\<lparr>tl_moving := Some item\<rparr>) c)"
  by (cases b) (auto simp: the_lane_def set_lane_def intro: queue_step.fast_receive queue_step.slow_receive)

lemma im_inv_lane: "im_inv n c \<Longrightarrow> lane_inv (the_lane b (im_workQueue c))"
  by (simp add: im_inv_def the_lane_def)

lemma moving_take:
  assumes "im_inv n c" "0 < n" "tl_moving (im_workQueue c) = Some k"
  shows "can_take k c"
proof -
  let ?c = "upd_queue (\<lambda>q. q\<lparr>tl_consumer := q_Add k (tl_consumer q), tl_moving := None\<rparr>) c"
  have step: "queue_step None c ?c" using assms(3) by (rule queue_step.consume)
  have i: "im_inv n ?c" using queue_step_spec [OF step assms(1)] by simp
  have "can_take k ?c" by (rule consumer_take [OF i assms(2)]) (use assms(1) in \<open>simp add: im_inv_def\<close>)
  with step show ?thesis by (rule can_take.later)
qed

text \<open>The consumer goroutine can be brought to its receive, and a lane to its next \<open>Get\<close>.\<close>

lemma free_consumer:
  assumes "im_inv n c"
    and "\<And>c'. im_inv n c' \<Longrightarrow> tl_moving (im_workQueue c') = None \<Longrightarrow>
      the_lane b (im_workQueue c') = the_lane b (im_workQueue c) \<Longrightarrow> can_take k c'"
  shows "can_take k c"
proof (cases "tl_moving (im_workQueue c)")
  case None
  then show ?thesis using assms by simp
next
  case (Some item)
  from queue_step.consume [OF this] have step: "queue_step None c
      (upd_queue (\<lambda>q. q\<lparr>tl_consumer := q_Add item (tl_consumer q), tl_moving := None\<rparr>) c)" (is "queue_step _ _ ?c") .
  have "can_take k ?c" using queue_step_spec [OF step assms(1)] by (intro assms(2)) simp_all
  with step show ?thesis by (rule can_take.later)
qed

lemma sent:
  assumes "im_inv n c" "ln_hand (the_lane b (im_workQueue c)) = Sending item"
    and "\<And>c'. im_inv n c' \<Longrightarrow> tl_moving (im_workQueue c') = Some item \<Longrightarrow>
      the_lane b (im_workQueue c') = (the_lane b (im_workQueue c))\<lparr>ln_hand := Idle\<rparr> \<Longrightarrow> can_take k c'"
  shows "can_take k c"
proof (rule free_consumer [OF assms(1)])
  fix c1
  assume c1: "im_inv n c1" "tl_moving (im_workQueue c1) = None" "the_lane b (im_workQueue c1) = the_lane b (im_workQueue c)"
  let ?l = "(the_lane b (im_workQueue c1))\<lparr>ln_hand := Idle\<rparr>"
  have "receive (the_lane b (im_workQueue c1)) = Some (item, ?l)" using assms(2) by (simp add: receive_def c1(3))
  from lane_receive [OF this c1(2)] have step: "queue_step None c1 (upd_queue (\<lambda>q. (set_lane b ?l q)\<lparr>tl_moving := Some item\<rparr>) c1)"
    (is "queue_step _ _ ?c") .
  have "can_take k ?c" using queue_step_spec [OF step c1(1)] by (intro assms(3)) (simp_all add: c1(3))
  with step show "can_take k c1" by (rule can_take.later)
qed

lemma got:
  assumes "im_inv n c" "ln_hand (the_lane b (im_workQueue c)) = Got item"
    and "\<And>c'. im_inv n c' \<Longrightarrow> the_lane b (im_workQueue c') =
      \<lparr>ln_queue = q_Done item (ln_queue (the_lane b (im_workQueue c))), ln_hand = Sending item\<rparr> \<Longrightarrow> can_take k c'"
  shows "can_take k c"
proof -
  let ?l = "\<lparr>ln_queue = q_Done item (ln_queue (the_lane b (im_workQueue c))), ln_hand = Sending item\<rparr>"
  have step: "queue_step None c (upd_queue (set_lane b ?l) c)"
    by (rule lane_process) (simp add: process_step_def assms(2))
  have "can_take k (upd_queue (set_lane b ?l) c)" using queue_step_spec [OF step assms(1)] by (intro assms(3)) simp_all
  with step show ?thesis by (rule can_take.later)
qed

lemma hand_take:
  assumes "im_inv n c" "0 < n" "ln_hand (the_lane b (im_workQueue c)) \<in> {Got k, Sending k}"
  shows "can_take k c"
proof -
  have send: "can_take k c'" if "im_inv n c'" "ln_hand (the_lane b (im_workQueue c')) = Sending k" for c'
    by (rule sent [OF that]) (rule moving_take [OF _ assms(2)])
  show ?thesis
  proof (cases "ln_hand (the_lane b (im_workQueue c)) = Got k")
    case True
    show ?thesis by (rule got [OF assms(1) True]) (simp add: send)
  qed (use assms send in auto)
qed

lemma idle_lane:
  assumes "im_inv n c"
    and "\<And>c' xs. im_inv n c' \<Longrightarrow> ln_hand (the_lane b (im_workQueue c')) = Idle \<Longrightarrow>
      q_queue (ln_queue (the_lane b (im_workQueue c'))) = q_queue (ln_queue (the_lane b (im_workQueue c))) @ xs \<Longrightarrow> can_take k c'"
  shows "can_take k c"
proof -
  have send: "can_take k c'" if "im_inv n c'" "ln_hand (the_lane b (im_workQueue c')) = Sending item"
      "q_queue (ln_queue (the_lane b (im_workQueue c'))) = q_queue (ln_queue (the_lane b (im_workQueue c))) @ xs" for c' item xs
  proof (rule sent [OF that(1,2)])
    fix c''
    assume c'': "im_inv n c''" "the_lane b (im_workQueue c'') = (the_lane b (im_workQueue c'))\<lparr>ln_hand := Idle\<rparr>"
    show "can_take k c''" by (rule assms(2) [OF c''(1), of xs]) (simp_all add: c''(2) that(3))
  qed
  show ?thesis
  proof (cases "ln_hand (the_lane b (im_workQueue c))")
    case Idle
    then show ?thesis using assms(2) [OF assms(1), of "[]"] by simp
  next
    case (Got item)
    show ?thesis
    proof (rule got [OF assms(1) Got])
      fix c'
      assume c': "im_inv n c'"
        "the_lane b (im_workQueue c') = \<lparr>ln_queue = q_Done item (ln_queue (the_lane b (im_workQueue c))), ln_hand = Sending item\<rparr>"
      obtain xs where xs: "q_queue (q_Done item (ln_queue (the_lane b (im_workQueue c)))) =
          q_queue (ln_queue (the_lane b (im_workQueue c))) @ xs" using q_Done_queue [of item] by (rule exE)
      show "can_take k c'" by (rule send [OF c'(1), of item xs]) (simp_all add: c'(2) xs)
    qed
  next
    case (Sending item)
    then show ?thesis using send [OF assms(1), of item "[]"] by simp
  qed
qed

lemma lane_get:
  assumes "im_inv n c" "ln_hand (the_lane b (im_workQueue c)) = Idle"
    and "q_queue (ln_queue (the_lane b (im_workQueue c))) = j # rest"
    and "\<And>c'. im_inv n c' \<Longrightarrow> ln_hand (the_lane b (im_workQueue c')) = Got j \<Longrightarrow>
      q_queue (ln_queue (the_lane b (im_workQueue c'))) = rest \<Longrightarrow> can_take k c'"
  shows "can_take k c"
proof -
  obtain q where q: "q_Get (ln_queue (the_lane b (im_workQueue c))) = (q, Item j)" "q_queue q = rest"
    using q_Get_Cons [OF assms(3)] by blast
  have step: "queue_step None c (upd_queue (set_lane b \<lparr>ln_queue = q, ln_hand = Got j\<rparr>) c)" (is "queue_step _ _ ?c")
    by (rule lane_process) (simp add: process_step_def assms(2) q(1))
  have "can_take k ?c" using queue_step_spec [OF step assms(1)] by (intro assms(4)) (simp_all add: q(2))
  with step show ?thesis by (rule can_take.later)
qed

lemma lane_queue_take:
  "im_inv n c \<Longrightarrow> 0 < n \<Longrightarrow> q_queue (ln_queue (the_lane b (im_workQueue c))) = pre @ k # post \<Longrightarrow> can_take k c"
proof (induction pre arbitrary: c post)
  case Nil
  show ?case
  proof (rule idle_lane [OF Nil(1)])
    fix c' xs
    assume c': "im_inv n c'" "ln_hand (the_lane b (im_workQueue c')) = Idle"
      "q_queue (ln_queue (the_lane b (im_workQueue c'))) = q_queue (ln_queue (the_lane b (im_workQueue c))) @ xs"
    have "q_queue (ln_queue (the_lane b (im_workQueue c'))) = k # post @ xs" using c'(3) Nil(3) by simp
    then show "can_take k c'" by (rule lane_get [OF c'(1,2)]) (rule hand_take [OF _ Nil(2), where b = b], auto)
  qed
next
  case (Cons j pre)
  show ?case
  proof (rule idle_lane [OF Cons(2)])
    fix c' xs
    assume c': "im_inv n c'" "ln_hand (the_lane b (im_workQueue c')) = Idle"
      "q_queue (ln_queue (the_lane b (im_workQueue c'))) = q_queue (ln_queue (the_lane b (im_workQueue c))) @ xs"
    have "q_queue (ln_queue (the_lane b (im_workQueue c'))) = j # pre @ k # post @ xs" using c'(3) Cons(4) by simp
    then show "can_take k c'" by (rule lane_get [OF c'(1,2)]) (rule Cons.IH [OF _ Cons(3)])
  qed
qed

lemma lane_take:
  assumes "im_inv n c" "0 < n" "in_lane k (the_lane b (im_workQueue c))"
  shows "can_take k c"
proof (cases "ln_hand (the_lane b (im_workQueue c)) \<in> {Got k, Sending k}")
  case True
  then show ?thesis by (rule hand_take [OF assms(1,2)])
next
  case False
  then have "k \<in> set (q_queue (ln_queue (the_lane b (im_workQueue c))))"
    using assms(3) im_inv_lane [OF assms(1), of b] by (auto simp: in_lane_def lane_inv_def q_inv_def split: hand.splits)
  then show ?thesis using lane_queue_take [OF assms(1,2)] by (metis split_list)
qed

lemma queued_take:
  assumes "im_inv n c" "0 < n" "queued k c"
  shows "can_take k c"
proof (cases "k \<in> tl_waiting (im_workQueue c)")
  case True
  from queue_step.ready [OF this] have step: "queue_step None c
      (upd_queue (\<lambda>q. q\<lparr>tl_fast := lane_Add k (tl_fast q), tl_waiting := tl_waiting q - {k}\<rparr>) c)" (is "queue_step _ _ ?c") .
  have "lane_inv (tl_fast (im_workQueue c))" using assms(1) by (simp add: im_inv_def)
  then have "can_take k ?c" using queue_step_spec [OF step assms(1)]
    by (intro lane_take [of n _ _ True] assms(2)) (simp_all add: the_lane_def lane_Add_spec)
  with step show ?thesis by (rule can_take.later)
next
  case False
  with assms(3) show ?thesis
    using lane_take [OF assms(1,2), of k True] lane_take [OF assms(1,2), of k False] moving_take [OF assms(1,2)]
      consumer_take [OF assms(1,2)] by (auto simp: queued_def the_lane_def)
qed

section \<open>Main properties\<close>

text \<open>
  C17: No two workers reconcile the same key at the same time, whatever is enqueued meanwhile: in every
  state of the running controller the workers' keys are distinct, there are at most as many as threads, and
  the next key that a free worker takes is not one that is being reconciled.
\<close>

theorem one_worker_per_key:
  assumes "impl_reachable n c"
  shows "distinct (map fst (im_workers c)) \<and> length (im_workers c) \<le> n \<and>
         (\<forall>key c'. worker_get c = Some (key, c') \<longrightarrow> key \<notin> fst ` set (im_workers c))"
proof -
  note inv = impl_reachable_inv [OF assms]
  have "key \<notin> fst ` set (im_workers c)" if g: "worker_get c = Some (key, c')" for key c'
  proof -
    have "im_workers c' = (key, False) # im_workers c"
      using g by (auto simp: worker_get_def split: if_splits prod.splits got.splits)
    then show ?thesis using worker_get_spec(1) [OF inv g] by (simp add: im_inv_def)
  qed
  with inv show ?thesis by (simp add: im_inv_def)
qed

text \<open>The keys can be taken in reachable states: the properties are about busy workers, too.\<close>

lemma can_take_reachable:
  assumes "can_take k c" "impl_reachable n c"
  shows "\<exists>c'. impl_reachable n c' \<and> k \<in> fst ` set (im_workers c')"
  using assms
proof induction
  case (takes c c')
  from takes(1) have "worker_get c = Some (k, c')" by cases simp
  then have "im_workers c' = (k, False) # im_workers c"
    by (auto simp: worker_get_def split: if_splits prod.splits got.splits)
  with impl_reachable.step [OF takes(2,1)] show ?case by (intro exI [of _ c']) simp
next
  case (later l c c')
  from later.IH [OF impl_reachable.step [OF later.prems later.hyps(1)]] show ?case .
qed

theorem one_worker_per_key_witness:
  "\<exists>c. im_workers c \<noteq> [] \<and> distinct (map fst (im_workers (c :: string Impl))) \<and> length (im_workers c) \<le> 2"
proof -
  let ?c = "EnqueueKey ''ns/ch'' (new_Impl 2)"
  have r: "impl_reachable 2 ?c" by (rule impl_reachable.enqueue [OF impl_reachable.new])
  have "can_take ''ns/ch'' ?c"
    by (rule queued_take [OF impl_reachable_inv [OF r]]) (simp_all add: fast_sink.enqueue_waits [OF new_Impl_inv])
  from can_take_reachable [OF this r] obtain c where c: "impl_reachable 2 c" "''ns/ch'' \<in> fst ` set (im_workers c)" by blast
  with one_worker_per_key [OF c(1)] show ?thesis by (intro exI [of _ c]) auto
qed

text \<open>
  C9: No wake-up is lost: a key that is enqueued in either lane, or whose reconciliation ends with an error
  that is neither permanent nor a skip, waits in the queues until a worker takes it, whatever else is enqueued
  and reconciled meanwhile; and at every moment until then the goroutines can get it to a worker, without any
  further event.
\<close>

theorem enqueued_key_reconciled:
  assumes "impl_reachable n c" and "0 < n"
    and "c' = EnqueueKey k c \<or> c' = EnqueueSlowKey k c \<or>
         (k, False) \<in> set (im_workers c) \<and> \<not> isSkipKey err \<and> \<not> isPermanentError err \<and>
         c' = worker_reconciled isSkipKey isPermanentError (Some err) k c"
    and "runs_without k c' c''"
  shows "queued k c'' \<and> can_take k c''"
proof -
  note inv = impl_reachable_inv [OF assms(1)]
  have "im_inv n c' \<and> queued k c'"
    using assms(3)
  proof (elim disjE conjE)
    assume k: "(k, False) \<in> set (im_workers c)" "\<not> isSkipKey err" "\<not> isPermanentError err"
      and c': "c' = worker_reconciled isSkipKey isPermanentError (Some err) k c"
    have "k \<in> tl_waiting (im_workQueue c')"
      using inv k by (simp add: c' worker_reconciled_def handleErr_def AddRateLimited_def im_inv_def lane_inv_def q_inv_def)
    moreover have "im_inv n c'" using queue_step_spec [OF queue_step.reconciled [OF k(1)] inv] by (simp add: c')
    ultimately show ?thesis by (simp add: queued_def)
  qed (simp_all add: inv fast_sink.enqueue_inv fast_sink.enqueue_waits [OF inv] slow_sink.enqueue_inv slow_sink.enqueue_waits [OF inv])
  with runs_without_keeps [OF assms(4), of n] have "im_inv n c'' \<and> queued k c''" by simp
  then show ?thesis using queued_take [of n c'' k] assms(2) by simp
qed

theorem enqueued_key_reconciled_witness:
  "can_take ''ns/ch'' (EnqueueSlowKey ''ns/other'' (EnqueueKey ''ns/ch'' (new_Impl 2)))"
  using enqueued_key_reconciled [of 2 "new_Impl 2" "EnqueueKey ''ns/ch'' (new_Impl 2)" "''ns/ch''" "\<lambda>_. False" "ErrorText ''''" "\<lambda>_. False"
      "EnqueueSlowKey ''ns/other'' (EnqueueKey ''ns/ch'' (new_Impl 2))"]
  by (simp add: impl_reachable.intros runs_without.intros)

end
