(* ===== verification/Subscriptions.thy ===== *)
theory Subscriptions
  imports ApiTypes
begin

text \<open>
  The dispatcher's view of a subscription: \<open>kafka_subscription.go\<close> (which partitions of which
  subscription are ready), \<open>subscription.go\<close>, \<open>config.go\<close> and \<open>consumer_message_handler.go\<close>, with the
  vendored pieces they are plugged into: the fanout configuration of a subscriber, and the Sarama
  handler that calls \<open>Handle\<close> and \<open>SetReady\<close>. The readiness of a channel refines a set of pairs of a
  subscription and a partition.
\<close>

section \<open>Readiness of a channel's subscriptions\<close>

text \<open>
  The maps hold \<open>int32\<close> partitions, on which the code does no arithmetic; they are integers here.
\<close>

record KafkaSubscription =
  ks_subs :: "uid set"
  ks_channelReadySubscriptions :: "uid \<rightharpoonup> int set"

definition NewKafkaSubscription :: KafkaSubscription where
  "NewKafkaSubscription = \<lparr>ks_subs = {}, ks_channelReadySubscriptions = Map.empty\<rparr>"

definition SetReady :: "uid \<Rightarrow> int \<Rightarrow> bool \<Rightarrow> KafkaSubscription \<Rightarrow> KafkaSubscription" where
  "SetReady subID p ready ks =
     (let m = ks_channelReadySubscriptions ks in
      if ready then
        (case m subID of
           Some subs \<Rightarrow> ks\<lparr>ks_channelReadySubscriptions := m(subID \<mapsto> insert p subs)\<rparr>
         | None \<Rightarrow> ks\<lparr>ks_channelReadySubscriptions := m(subID \<mapsto> {p})\<rparr>)
      else
        (case m subID of
           Some subs \<Rightarrow>
             (if card (subs - {p}) = 0
              then ks\<lparr>ks_channelReadySubscriptions := m(subID := None)\<rparr>
              else ks\<lparr>ks_channelReadySubscriptions := m(subID \<mapsto> subs - {p})\<rparr>)
         | None \<Rightarrow> ks))"

text \<open>The abstraction: the pairs that are ready. The invariant: finite sets, none of them empty.\<close>

definition ready_pairs :: "KafkaSubscription \<Rightarrow> (uid \<times> int) set" where
  "ready_pairs ks = {(u, p). \<exists>S. ks_channelReadySubscriptions ks u = Some S \<and> p \<in> S}"

definition ks_wf :: "KafkaSubscription \<Rightarrow> bool" where
  "ks_wf ks \<longleftrightarrow> finite (ks_subs ks) \<and> finite (dom (ks_channelReadySubscriptions ks)) \<and>
     (\<forall>u S. ks_channelReadySubscriptions ks u = Some S \<longrightarrow> finite S \<and> S \<noteq> {})"

definition set_ready_spec :: "uid \<Rightarrow> int \<Rightarrow> bool \<Rightarrow> (uid \<times> int) set \<Rightarrow> (uid \<times> int) set" where
  "set_ready_spec u p ready A = (if ready then insert (u, p) A else A - {(u, p)})"

lemma NewKafkaSubscription_wf [simp]: "ks_wf NewKafkaSubscription"
  by (simp add: ks_wf_def NewKafkaSubscription_def)

lemma ks_subs_NewKafkaSubscription [simp]: "ks_subs NewKafkaSubscription = {}"
  by (simp add: NewKafkaSubscription_def)

lemma ready_pairs_New [simp]: "ready_pairs NewKafkaSubscription = {}"
  by (simp add: ready_pairs_def NewKafkaSubscription_def)

lemma ks_subs_SetReady [simp]: "ks_subs (SetReady u p b ks) = ks_subs ks"
  by (simp add: SetReady_def Let_def split: option.splits)

lemma SetReady_wf: "ks_wf ks \<Longrightarrow> ks_wf (SetReady u p b ks)"
  by (auto simp: ks_wf_def SetReady_def Let_def split: option.splits if_splits)

lemma SetReady_pairs:
  assumes "ks_wf ks"
  shows "ready_pairs (SetReady u p b ks) = set_ready_spec u p b (ready_pairs ks)"
proof (cases "ks_channelReadySubscriptions ks u")
  case None
  then show ?thesis
    by (auto simp: ready_pairs_def SetReady_def set_ready_spec_def split: if_splits)
next
  case (Some S)
  with assms have "finite S" by (simp add: ks_wf_def)
  with Some show ?thesis
    by (auto simp: ready_pairs_def SetReady_def set_ready_spec_def Let_def split: if_splits)
qed

text \<open>An entry of the map is there exactly when some partition of the subscription is ready.\<close>

lemma ready_dom: "ks_wf ks \<Longrightarrow> dom (ks_channelReadySubscriptions ks) = fst ` ready_pairs ks"
  by (force simp: ks_wf_def ready_pairs_def image_iff dom_def)

section \<open>Subscriptions and channel configurations\<close>

text \<open>
  \<open>kncloudevents.RetryConfig\<close>: the backoff closure is the datatype of the closures the code builds.
\<close>

datatype Backoff = NoBackoff | ExponentialBackoff int | LinearBackoff int

record RetryConfig =
  rc_RetryMax :: int
  rc_BackoffDelay :: "string option"
  rc_BackoffPolicy :: "string option"
  rc_Backoff :: Backoff

text \<open>
  \<open>dispatcher.Subscription\<close>: a UID with the embedded \<open>fanout.Subscription\<close>.
\<close>

record FanoutSubscription =
  fs_Subscriber :: "Url option"
  fs_Reply :: "Url option"
  fs_DeadLetter :: "Url option"
  fs_RetryConfig :: "RetryConfig option"

record Subscription =
  sub_UID :: uid
  sub_fanout :: FanoutSubscription

definition zero_Subscription :: Subscription where
  "zero_Subscription =
     \<lparr>sub_UID = '''',
      sub_fanout = \<lparr>fs_Subscriber = None, fs_Reply = None, fs_DeadLetter = None, fs_RetryConfig = None\<rparr>\<rparr>"

definition newline :: string where
  "newline = [CHR 0x0A]"

definition Subscription_String :: "Subscription \<Rightarrow> string" where
  "Subscription_String sub =
     (let line = (\<lambda>label u. case u of None \<Rightarrow> '''' | Some url \<Rightarrow> label @ url_String url @ newline)
      in ''UID: '' @ sub_UID sub @ newline
         @ line ''Subscriber: '' (fs_Subscriber (sub_fanout sub))
         @ line ''Reply: '' (fs_Reply (sub_fanout sub))
         @ line ''DeadLetter: '' (fs_DeadLetter (sub_fanout sub)))"

record ChannelConfig =
  cfg_Namespace :: string
  cfg_Name :: string
  cfg_HostName :: string
  cfg_Subscriptions :: "Subscription list"

definition SubscriptionsUIDs :: "ChannelConfig \<Rightarrow> uid list" where
  "SubscriptionsUIDs cc = map sub_UID (cfg_Subscriptions cc)"

section \<open>From a subscriber to a subscription\<close>

text \<open>
  The vendored \<open>RetryConfigFromDeliverySpec\<close> and \<open>SubscriberSpecToFanoutConfig\<close>. Parsing an ISO 8601
  duration (\<open>period.Parse\<close> and \<open>Duration\<close>, of another vendored package) is the argument
  \<open>parsePeriod\<close>.
\<close>

definition NoRetries :: RetryConfig where
  "NoRetries = \<lparr>rc_RetryMax = 0, rc_BackoffDelay = None, rc_BackoffPolicy = None, rc_Backoff = NoBackoff\<rparr>"

definition RetryConfigFromDeliverySpec ::
  "(string \<Rightarrow> go_error + int) \<Rightarrow> DeliverySpec \<Rightarrow> go_error + RetryConfig" where
  "RetryConfigFromDeliverySpec parsePeriod spec =
     (let rc0 = NoRetries;
          rc1 = (case ds_Retry spec of Some n \<Rightarrow> rc0\<lparr>rc_RetryMax := sint n\<rparr> | None \<Rightarrow> rc0);
          rc2 = rc1\<lparr>rc_BackoffPolicy := ds_BackoffPolicy spec, rc_BackoffDelay := ds_BackoffDelay spec\<rparr>
      in case (ds_BackoffPolicy spec, ds_BackoffDelay spec) of
           (Some policy, Some delay) \<Rightarrow>
             (case parsePeriod delay of
                Inl e \<Rightarrow> Inl (Wrap ''failed to parse Spec.BackoffDelay: '' e)
              | Inr d \<Rightarrow>
                  Inr (if policy = ''exponential'' then rc2\<lparr>rc_Backoff := ExponentialBackoff d\<rparr>
                       else if policy = ''linear'' then rc2\<lparr>rc_Backoff := LinearBackoff d\<rparr>
                       else rc2))
         | _ \<Rightarrow> Inr rc2)"

definition SubscriberSpecToFanoutConfig ::
  "(string \<Rightarrow> go_error + int) \<Rightarrow> SubscriberSpec \<Rightarrow> go_error + FanoutSubscription" where
  "SubscriberSpecToFanoutConfig parsePeriod sub =
     (let deadLetter = (case ss_Delivery sub of None \<Rightarrow> None | Some d \<Rightarrow> ds_DeadLetterSinkURI d);
          fs = (\<lambda>rc. \<lparr>fs_Subscriber = ss_SubscriberURI sub, fs_Reply = ss_ReplyURI sub,
                      fs_DeadLetter = deadLetter, fs_RetryConfig = rc\<rparr>)
      in case ss_Delivery sub of
           None \<Rightarrow> Inr (fs None)
         | Some d \<Rightarrow>
             (case RetryConfigFromDeliverySpec parsePeriod d of
                Inl e \<Rightarrow> Inl e
              | Inr rc \<Rightarrow> Inr (fs (Some rc))))"

text \<open>A subscriber whose delivery has no bad backoff delay is converted.\<close>

definition delivery_ok :: "(string \<Rightarrow> go_error + int) \<Rightarrow> SubscriberSpec \<Rightarrow> bool" where
  "delivery_ok parsePeriod sub =
     (case ss_Delivery sub of
        None \<Rightarrow> True
      | Some d \<Rightarrow>
          (case (ds_BackoffPolicy d, ds_BackoffDelay d) of
             (Some _, Some delay) \<Rightarrow> \<not> isl (parsePeriod delay)
           | _ \<Rightarrow> True))"

lemma RetryConfigFromDeliverySpec_isl:
  "isl (RetryConfigFromDeliverySpec pp d) \<longleftrightarrow>
     (case (ds_BackoffPolicy d, ds_BackoffDelay d) of
        (Some _, Some delay) \<Rightarrow> isl (pp delay) | _ \<Rightarrow> False)"
  by (simp add: RetryConfigFromDeliverySpec_def Let_def split: option.splits sum.splits)

lemma SubscriberSpecToFanoutConfig_isl:
  "isl (SubscriberSpecToFanoutConfig pp sub) \<longleftrightarrow> \<not> delivery_ok pp sub"
proof (cases "ss_Delivery sub")
  case None
  then show ?thesis by (simp add: SubscriberSpecToFanoutConfig_def delivery_ok_def)
next
  case (Some d)
  then have "isl (SubscriberSpecToFanoutConfig pp sub) \<longleftrightarrow> isl (RetryConfigFromDeliverySpec pp d)"
    by (simp add: SubscriberSpecToFanoutConfig_def Let_def split: sum.splits)
  with Some show ?thesis
    by (simp add: RetryConfigFromDeliverySpec_isl delivery_ok_def split: option.splits)
qed

section \<open>Consuming messages\<close>

text \<open>
  The encoding of a Kafka message (\<open>ReadEncoding\<close>, of the CloudEvents SDK)
  and the delivery of an event (\<open>DispatchMessageWithRetries\<close>, which talks HTTP) are arguments of the
  handler; both may panic.
\<close>

record consumerMessageHandler =
  h_sub :: Subscription
  h_consumerGroup :: string

definition GetConsumerGroup :: "consumerMessageHandler \<Rightarrow> string" where
  "GetConsumerGroup c = h_consumerGroup c"

text \<open>
  \<open>Handle\<close>: a panic is recovered by the deferred function, and the unnamed results keep their zero
  values.
\<close>

definition Handle ::
  "('m \<Rightarrow> bool outcome) \<Rightarrow>
   ('m \<Rightarrow> Url option \<Rightarrow> Url option \<Rightarrow> Url option \<Rightarrow> RetryConfig option \<Rightarrow> go_error option outcome) \<Rightarrow>
   consumerMessageHandler \<Rightarrow> 'm \<Rightarrow> bool \<times> go_error option" where
  "Handle encodingUnknown dispatchMessageWithRetries c message =
     (case encodingUnknown message of
        Panics \<Rightarrow> (False, None)
      | Returns True \<Rightarrow> (False, Some (ErrorText ''received a message with unknown encoding''))
      | Returns False \<Rightarrow>
          (let fs = sub_fanout (h_sub c) in
           case dispatchMessageWithRetries message (fs_Subscriber fs) (fs_Reply fs) (fs_DeadLetter fs) (fs_RetryConfig fs) of
             Panics \<Rightarrow> (False, None)
           | Returns err \<Rightarrow> (err = None, err)))"

definition handler_SetReady :: "consumerMessageHandler \<Rightarrow> int \<Rightarrow> bool \<Rightarrow> KafkaSubscription \<Rightarrow> KafkaSubscription" where
  "handler_SetReady c p ready ks = SetReady (sub_UID (h_sub c)) p ready ks"

text \<open>
  The vendored \<open>SaramaConsumerHandler\<close>: \<open>ConsumeClaim\<close> serves the messages of one claimed partition,
  returning the errors it sends to the errors channel and the messages it marks; \<open>Cleanup\<close> runs at
  the end of a session, with the partitions that the session had claimed.
\<close>

fun consume_messages ::
  "('m \<Rightarrow> bool \<times> go_error option) \<Rightarrow> consumerMessageHandler \<Rightarrow> int \<Rightarrow> 'm list \<Rightarrow> KafkaSubscription \<Rightarrow>
   KafkaSubscription \<times> go_error list \<times> 'm list" where
  "consume_messages handle c p [] ks = (ks, [], [])"
| "consume_messages handle c p (message # messages) ks =
     (case handle message of
        (mustMark, err) \<Rightarrow>
          (let ks1 = (case err of Some _ \<Rightarrow> handler_SetReady c p False ks | None \<Rightarrow> ks)
           in case consume_messages handle c p messages ks1 of
                (ks2, errors, marked) \<Rightarrow>
                  (ks2, (case err of Some e \<Rightarrow> e # errors | None \<Rightarrow> errors),
                   if mustMark then message # marked else marked)))"

definition ConsumeClaim ::
  "('m \<Rightarrow> bool \<times> go_error option) \<Rightarrow> consumerMessageHandler \<Rightarrow> int \<Rightarrow> 'm list \<Rightarrow> KafkaSubscription \<Rightarrow>
   KafkaSubscription \<times> go_error list \<times> 'm list" where
  "ConsumeClaim handle c p messages ks =
     consume_messages handle c p messages (handler_SetReady c p True ks)"

definition Cleanup :: "consumerMessageHandler \<Rightarrow> int list \<Rightarrow> KafkaSubscription \<Rightarrow> KafkaSubscription" where
  "Cleanup c claims ks = fold (\<lambda>p. handler_SetReady c p False) claims ks"

lemma Handle_marks_iff:
  "fst (Handle enc disp c m) \<longleftrightarrow>
     enc m = Returns False \<and>
     disp m (fs_Subscriber (sub_fanout (h_sub c))) (fs_Reply (sub_fanout (h_sub c)))
       (fs_DeadLetter (sub_fanout (h_sub c))) (fs_RetryConfig (sub_fanout (h_sub c))) = Returns None"
  by (simp add: Handle_def Let_def split: outcome.splits bool.splits)

lemma Handle_not_both: "\<not> (fst (Handle enc disp c m) \<and> snd (Handle enc disp c m) \<noteq> None)"
  by (simp add: Handle_def Let_def split: outcome.splits bool.splits)

lemma consume_messages_marked: "snd (snd (consume_messages handle c p ms ks)) = filter (fst \<circ> handle) ms"
  by (induction ms arbitrary: ks) (simp_all add: Let_def case_prod_unfold)

lemma consume_messages_errors:
  "fst (snd (consume_messages handle c p ms ks)) = List.map_filter (snd \<circ> handle) ms"
  by (induction ms arbitrary: ks) (simp_all add: Let_def case_prod_unfold split: option.splits)

lemma consume_messages_ready:
  assumes "ks_wf ks"
  shows "ks_wf (fst (consume_messages handle c p ms ks)) \<and>
         ready_pairs (fst (consume_messages handle c p ms ks)) =
           (if \<exists>m \<in> set ms. snd (handle m) \<noteq> None
            then ready_pairs ks - {(sub_UID (h_sub c), p)} else ready_pairs ks)"
  using assms
proof (induction ms arbitrary: ks)
  case Nil
  then show ?case by simp
next
  case (Cons m ms)
  obtain mark err where hm: "handle m = (mark, err)" by (cases "handle m")
  let ?ks1 = "case err of Some _ \<Rightarrow> handler_SetReady c p False ks | None \<Rightarrow> ks"
  have fst_eq: "fst (consume_messages handle c p (m # ms) ks) = fst (consume_messages handle c p ms ?ks1)"
    by (simp add: hm Let_def split: prod.splits)
  have wf1: "ks_wf ?ks1"
    using Cons.prems by (simp add: handler_SetReady_def SetReady_wf split: option.splits)
  have p1: "ready_pairs ?ks1 = (if err = None then ready_pairs ks else ready_pairs ks - {(sub_UID (h_sub c), p)})"
    using Cons.prems by (simp add: handler_SetReady_def SetReady_pairs set_ready_spec_def split: option.splits)
  from Cons.IH [OF wf1] show ?case
    unfolding fst_eq p1 by (auto simp: hm)
qed

lemma ConsumeClaim_ready:
  assumes "ks_wf ks"
  shows "ks_wf (fst (ConsumeClaim handle c p ms ks)) \<and>
         ready_pairs (fst (ConsumeClaim handle c p ms ks)) =
           set_ready_spec (sub_UID (h_sub c)) p (\<forall>m \<in> set ms. snd (handle m) = None) (ready_pairs ks)"
  using consume_messages_ready [OF SetReady_wf [OF assms], of handle c p ms "sub_UID (h_sub c)" p True]
  by (auto simp: ConsumeClaim_def handler_SetReady_def SetReady_pairs [OF assms] set_ready_spec_def)

lemma Cleanup_ready:
  "ks_wf ks \<Longrightarrow> ks_wf (Cleanup c ps ks) \<and>
     ready_pairs (Cleanup c ps ks) = ready_pairs ks - {sub_UID (h_sub c)} \<times> set ps"
proof (induction ps arbitrary: ks)
  case Nil
  then show ?case by (simp add: Cleanup_def)
next
  case (Cons p ps)
  have "Cleanup c (p # ps) ks = Cleanup c ps (SetReady (sub_UID (h_sub c)) p False ks)"
    by (simp add: Cleanup_def handler_SetReady_def)
  with Cons.IH [OF SetReady_wf [OF Cons.prems]] show ?case
    by (auto simp: SetReady_pairs [OF Cons.prems] set_ready_spec_def)
qed

lemma ks_subs_consume_messages [simp]: "ks_subs (fst (consume_messages handle c p ms ks)) = ks_subs ks"
  by (induction ms arbitrary: ks)
    (simp_all add: Let_def handler_SetReady_def case_prod_unfold split: option.splits)

section \<open>Main properties\<close>

text \<open>
  C12: \<open>SetReady\<close> implements a set of pairs of a subscription and a partition: marking ready inserts the
  pair, marking not ready removes it, the invariant (finite sets, none of them empty) is kept, and a
  subscription has an entry exactly when one of its partitions is ready.
\<close>

theorem set_ready_refines:
  assumes "ks_wf ks"
  shows "ks_wf (SetReady u p b ks) \<and>
         ready_pairs (SetReady u p b ks) = set_ready_spec u p b (ready_pairs ks) \<and>
         dom (ks_channelReadySubscriptions (SetReady u p b ks)) = fst ` ready_pairs (SetReady u p b ks) \<and>
         ks_subs (SetReady u p b ks) = ks_subs ks"
  using SetReady_wf [OF assms] SetReady_pairs [OF assms] ready_dom [OF SetReady_wf [OF assms]] by simp

theorem set_ready_refines_witness:
  "ready_pairs (SetReady ''u'' 0 False (SetReady ''u'' 1 True (SetReady ''u'' 0 True NewKafkaSubscription))) = {(''u'', 1)}"
proof -
  let ?k1 = "SetReady ''u'' 0 True NewKafkaSubscription"
  let ?k2 = "SetReady ''u'' 1 True ?k1"
  have 1: "ks_wf ?k1" "ready_pairs ?k1 = {(''u'', 0)}"
    using set_ready_refines [OF NewKafkaSubscription_wf, of "''u''" 0 True] by (simp_all add: set_ready_spec_def)
  have 2: "ks_wf ?k2" "ready_pairs ?k2 = {(''u'', 1), (''u'', 0)}"
    using set_ready_refines [OF 1(1), of "''u''" 1 True] by (simp_all add: set_ready_spec_def 1(2))
  show ?thesis
    using set_ready_refines [OF 2(1), of "''u''" 0 False] by (simp add: set_ready_spec_def 2(2) insert_Diff_if)
qed

text \<open>The delivery of a message to the subscriber of a handler.\<close>

definition delivery ::
  "('m \<Rightarrow> Url option \<Rightarrow> Url option \<Rightarrow> Url option \<Rightarrow> RetryConfig option \<Rightarrow> go_error option outcome) \<Rightarrow>
   consumerMessageHandler \<Rightarrow> 'm \<Rightarrow> go_error option outcome" where
  "delivery disp c m =
     disp m (fs_Subscriber (sub_fanout (h_sub c))) (fs_Reply (sub_fanout (h_sub c)))
       (fs_DeadLetter (sub_fanout (h_sub c))) (fs_RetryConfig (sub_fanout (h_sub c)))"

text \<open>
  C34: A message is marked as consumed exactly when it was decoded and delivered without an error, a
  message that is marked is never reported as failed, and a panic of the decoder or of the delivery
  is recovered: the message is then neither marked nor reported.
\<close>

theorem handle_outcomes:
  "(fst (Handle enc disp c m) \<longleftrightarrow> enc m = Returns False \<and> delivery disp c m = Returns None) \<and>
         (snd (Handle enc disp c m) \<noteq> None \<longleftrightarrow>
            enc m = Returns True \<or> (enc m = Returns False \<and> (\<exists>e. delivery disp c m = Returns (Some e)))) \<and>
         (Handle enc disp c m = (False, None) \<longleftrightarrow>
            enc m = Panics \<or> (enc m = Returns False \<and> delivery disp c m = Panics))"
  unfolding delivery_def
  by (auto simp: Handle_def Let_def split: outcome.splits bool.splits)

text \<open>
  C35: Serving the claim of a partition leaves the partition ready exactly when no message failed (a
  failure marks it not ready for the rest of the claim), touches no other pair, reports the errors in
  the order of the messages, and marks exactly the messages whose handling asked for it.
\<close>

theorem consume_claim:
  assumes "ks_wf ks" and "ConsumeClaim handle c p ms ks = (ks', errors, marked)"
  shows "ks_wf ks' \<and>
         ready_pairs ks' = set_ready_spec (sub_UID (h_sub c)) p (\<forall>m \<in> set ms. snd (handle m) = None) (ready_pairs ks) \<and>
         errors = List.map_filter (snd \<circ> handle) ms \<and> marked = filter (fst \<circ> handle) ms"
  using ConsumeClaim_ready [OF assms(1), of handle c p ms] assms(2)
    consume_messages_errors [of handle c p ms] consume_messages_marked [of handle c p ms]
  by (simp add: ConsumeClaim_def) (metis fst_conv snd_conv)

definition sample_handler :: consumerMessageHandler where
  "sample_handler = \<lparr>h_sub = zero_Subscription\<lparr>sub_UID := ''u''\<rparr>, h_consumerGroup = ''g''\<rparr>"

theorem consume_claim_witness:
  "(''u'', 0) \<notin> ready_pairs (fst (ConsumeClaim
      (\<lambda>m::nat. if m = 1 then (False, Some (ErrorText ''e'')) else (True, None)) sample_handler 0 [0, 1, 2] NewKafkaSubscription))"
  using consume_claim [OF NewKafkaSubscription_wf, of
      "\<lambda>m::nat. if m = 1 then (False, Some (ErrorText ''e'')) else (True, None)" sample_handler 0 "[0, 1, 2]"]
  by (cases "ConsumeClaim (\<lambda>m::nat. if m = 1 then (False, Some (ErrorText ''e'')) else (True, None))
        sample_handler 0 [0, 1, 2] NewKafkaSubscription")
    (auto simp: set_ready_spec_def sample_handler_def)

text \<open>
  When a session ends, \<open>Cleanup\<close> marks exactly the claimed partitions of this subscription as not
  ready.
\<close>

lemma cleanup_clears_claims:
  assumes "ks_wf ks"
  shows "ks_wf (Cleanup c claims ks) \<and>
         ready_pairs (Cleanup c claims ks) = ready_pairs ks - {sub_UID (h_sub c)} \<times> set claims"
  by (rule Cleanup_ready [OF assms])

end
