(* ===== verification/Dispatcher.thy ===== *)
theory Dispatcher
  imports Subscriptions
begin

text \<open>
  The Kafka dispatcher (\<open>dispatcher.go\<close>): which consumer groups run for which subscriptions, and
  which host belongs to which channel. The \<open>KafkaSubscription\<close> objects live in a store, because
  the handlers of the consumer groups keep pointers to them. Starting and closing a consumer group
  are calls to Kafka; their results are arguments that may depend on all the calls made before.
\<close>

section \<open>State\<close>

record ConsumerGroup =
  cg_id :: nat
  cg_topics :: "string list"
  cg_handler :: consumerMessageHandler
  cg_ks :: nat

datatype kafka_call =
    Started ConsumerGroup
  | StartFailed string
  | Closed nat

text \<open>
  \<open>d_channelSubscriptions\<close> maps a channel to the address of its object in \<open>d_store\<close>; \<open>d_next\<close> is the
  next free address. \<open>d_log\<close> are the calls made to Kafka so far.
\<close>

record KafkaDispatcher =
  d_hostToChannelMap :: "string \<rightharpoonup> NamespacedName"
  d_channelSubscriptions :: "NamespacedName \<rightharpoonup> nat"
  d_store :: "nat \<Rightarrow> KafkaSubscription"
  d_next :: nat
  d_subsConsumerGroups :: "uid \<rightharpoonup> ConsumerGroup"
  d_subscriptions :: "uid \<rightharpoonup> Subscription"
  d_log :: "kafka_call list"

type_synonym start_fun = "kafka_call list \<Rightarrow> string \<Rightarrow> string list \<Rightarrow> go_error option"
type_synonym close_fun = "kafka_call list \<Rightarrow> ConsumerGroup \<Rightarrow> go_error option"

text \<open>The dispatcher that \<open>NewDispatcher\<close> builds: empty maps.\<close>

definition NewDispatcher :: KafkaDispatcher where
  "NewDispatcher =
     \<lparr>d_hostToChannelMap = Map.empty, d_channelSubscriptions = Map.empty,
      d_store = (\<lambda>_. NewKafkaSubscription), d_next = 0,
      d_subsConsumerGroups = Map.empty, d_subscriptions = Map.empty, d_log = []\<rparr>"

section \<open>Subscribing\<close>

definition groupID :: "NamespacedName \<Rightarrow> uid \<Rightarrow> string" where
  "groupID channelRef u =
     ''kafka.'' @ nn_Namespace channelRef @ ''.'' @ nn_Name channelRef @ ''.'' @ u"

text \<open>Get or create the object of the channel.\<close>

definition get_or_create :: "NamespacedName \<Rightarrow> KafkaDispatcher \<Rightarrow> KafkaDispatcher \<times> nat" where
  "get_or_create channelRef d =
     (case d_channelSubscriptions d channelRef of
        Some r \<Rightarrow> (d, r)
      | None \<Rightarrow>
          (d\<lparr>d_store := (d_store d)(d_next d := NewKafkaSubscription),
             d_channelSubscriptions := (d_channelSubscriptions d)(channelRef \<mapsto> d_next d),
             d_next := Suc (d_next d)\<rparr>, d_next d))"

definition subscribe ::
  "start_fun \<Rightarrow> string \<Rightarrow> NamespacedName \<Rightarrow> Subscription \<Rightarrow> KafkaDispatcher \<Rightarrow> KafkaDispatcher \<times> go_error option" where
  "subscribe startCG topicName channelRef sub d =
     (let gid = groupID channelRef (sub_UID sub);
          (d1, r) = get_or_create channelRef d;
          handler = \<lparr>h_sub = sub, h_consumerGroup = gid\<rparr>
      in case startCG (d_log d1) gid [topicName] of
           Some err \<Rightarrow> (d1\<lparr>d_log := d_log d1 @ [StartFailed gid]\<rparr>, Some err)
         | None \<Rightarrow>
             (let consumerGroup = \<lparr>cg_id = length (d_log d1), cg_topics = [topicName],
                                   cg_handler = handler, cg_ks = r\<rparr>;
                  ks = d_store d1 r
              in (d1\<lparr>d_store := (d_store d1)(r := ks\<lparr>ks_subs := insert (sub_UID sub) (ks_subs ks)\<rparr>),
                     d_subscriptions := (d_subscriptions d1)(sub_UID sub \<mapsto> sub),
                     d_subsConsumerGroups := (d_subsConsumerGroups d1)(sub_UID sub \<mapsto> consumerGroup),
                     d_log := d_log d1 @ [Started consumerGroup]\<rparr>, None)))"

definition unsubscribe ::
  "close_fun \<Rightarrow> NamespacedName \<Rightarrow> Subscription \<Rightarrow> KafkaDispatcher \<Rightarrow> KafkaDispatcher \<times> go_error option" where
  "unsubscribe closeCG channelRef sub d =
     (let d1 = d\<lparr>d_subscriptions := (d_subscriptions d)(sub_UID sub := None)\<rparr>
      in case d_channelSubscriptions d1 channelRef of
           None \<Rightarrow> (d1, None)
         | Some r \<Rightarrow>
             (let ks = d_store d1 r;
                  ks' = ks\<lparr>ks_subs := ks_subs ks - {sub_UID sub}\<rparr>;
                  d2 = d1\<lparr>d_store := (d_store d1)(r := ks')\<rparr>;
                  d3 = (if card (ks_subs ks') = 0
                        then d2\<lparr>d_channelSubscriptions := (d_channelSubscriptions d2)(channelRef := None)\<rparr>
                        else d2)
              in case d_subsConsumerGroups d3 (sub_UID sub) of
                   Some consumerGroup \<Rightarrow>
                     (d3\<lparr>d_subsConsumerGroups := (d_subsConsumerGroups d3)(sub_UID sub := None),
                         d_log := d_log d3 @ [Closed (cg_id consumerGroup)]\<rparr>,
                      closeCG (d_log d3) consumerGroup)
                 | None \<Rightarrow> (d3, None)))"

text \<open>\<open>d.subscriptions[uid]\<close>: the zero value when there is no entry.\<close>

definition subscription_at :: "KafkaDispatcher \<Rightarrow> uid \<Rightarrow> Subscription" where
  "subscription_at d u = (case d_subscriptions d u of Some s \<Rightarrow> s | None \<Rightarrow> zero_Subscription)"

section \<open>Reconciling the consumers of a channel\<close>

type_synonym UpdateError = "uid \<rightharpoonup> go_error"

definition UpdateError_Error :: "(uid set \<Rightarrow> uid list) \<Rightarrow> UpdateError \<Rightarrow> string" where
  "UpdateError_Error ord k =
     go_join '','' (map (\<lambda>u. ''subscription '' @ u @ '': '' @ (case k u of Some e \<Rightarrow> error_text e | None \<Rightarrow> ''''))
                        (ord (dom k)))"

text \<open>The first loop, over the map \<open>toAddSubs\<close>, and the second one, over \<open>toRemoveSubs\<close>.\<close>

fun subscribe_loop ::
  "start_fun \<Rightarrow> string \<Rightarrow> NamespacedName \<Rightarrow> (uid \<rightharpoonup> Subscription) \<Rightarrow> uid list \<Rightarrow> KafkaDispatcher \<Rightarrow> UpdateError \<Rightarrow>
   KafkaDispatcher \<times> UpdateError" where
  "subscribe_loop startCG topicName channelRef toAddSubs [] d failed = (d, failed)"
| "subscribe_loop startCG topicName channelRef toAddSubs (u # us) d failed =
     (case toAddSubs u of
        None \<Rightarrow> subscribe_loop startCG topicName channelRef toAddSubs us d failed
      | Some sub \<Rightarrow>
          (case subscribe startCG topicName channelRef sub d of
             (d1, Some err) \<Rightarrow> subscribe_loop startCG topicName channelRef toAddSubs us d1 (failed(u \<mapsto> err))
           | (d1, None) \<Rightarrow> subscribe_loop startCG topicName channelRef toAddSubs us d1 failed))"

fun unsubscribe_loop :: "close_fun \<Rightarrow> NamespacedName \<Rightarrow> uid list \<Rightarrow> KafkaDispatcher \<Rightarrow> KafkaDispatcher" where
  "unsubscribe_loop closeCG channelRef [] d = d"
| "unsubscribe_loop closeCG channelRef (u # us) d =
     unsubscribe_loop closeCG channelRef us (fst (unsubscribe closeCG channelRef (subscription_at d u) d))"

definition cfg_ref :: "ChannelConfig \<Rightarrow> NamespacedName" where
  "cfg_ref config = \<lparr>nn_Namespace = cfg_Namespace config, nn_Name = cfg_Name config\<rparr>"

definition ReconcileConsumers ::
  "start_fun \<Rightarrow> close_fun \<Rightarrow> string \<Rightarrow> (uid set \<Rightarrow> uid list) \<Rightarrow> (uid set \<Rightarrow> uid list) \<Rightarrow>
   ChannelConfig \<Rightarrow> KafkaDispatcher \<Rightarrow> KafkaDispatcher \<times> UpdateError option" where
  "ReconcileConsumers startCG closeCG topicName ordAdd ordRemove config d =
     (let channelNamespacedName = cfg_ref config;
          existingSubs = (case d_channelSubscriptions d channelNamespacedName of
                            Some r \<Rightarrow> ks_subs (d_store d r)
                          | None \<Rightarrow> {});
          newSubs = set (SubscriptionsUIDs config);
          toRemoveSubs = existingSubs - newSubs;
          toAdd = newSubs - existingSubs;
          toAddSubs = fold (\<lambda>subSpec m. if sub_UID subSpec \<in> toAdd then m(sub_UID subSpec \<mapsto> subSpec) else m)
                        (cfg_Subscriptions config) Map.empty;
          (d1, failedToSubscribe) =
            subscribe_loop startCG topicName channelNamespacedName toAddSubs (ordAdd (dom toAddSubs)) d Map.empty;
          d2 = unsubscribe_loop closeCG channelNamespacedName (ordRemove toRemoveSubs) d1
      in (d2, if card (dom failedToSubscribe) = 0 then None else Some failedToSubscribe))"

section \<open>Hosts and clean-up\<close>

text \<open>\<open>RegisterChannelHost\<close>: \<open>LoadOrStore\<close> keeps an existing entry.\<close>

definition RegisterChannelHost :: "ChannelConfig \<Rightarrow> KafkaDispatcher \<Rightarrow> KafkaDispatcher \<times> go_error option" where
  "RegisterChannelHost channelConfig d =
     (case d_hostToChannelMap d (cfg_HostName channelConfig) of
        None \<Rightarrow>
          (d\<lparr>d_hostToChannelMap := (d_hostToChannelMap d)(cfg_HostName channelConfig \<mapsto> cfg_ref channelConfig)\<rparr>, None)
      | Some old \<Rightarrow>
          if \<not> (nn_Namespace old = cfg_Namespace channelConfig \<and> nn_Name old = cfg_Name channelConfig)
          then (d, Some (ErrorText
                 (''duplicate hostName found. Each channel must have a unique host header. HostName:'' @
                  cfg_HostName channelConfig @ '', channel:'' @ nn_Namespace old @ ''.'' @ nn_Name old @
                  '', channel:'' @ cfg_Namespace channelConfig @ ''.'' @ cfg_Name channelConfig)))
          else (d, None))"

fun cleanup_loop :: "close_fun \<Rightarrow> NamespacedName \<Rightarrow> uid list \<Rightarrow> KafkaDispatcher \<Rightarrow> KafkaDispatcher \<times> go_error option" where
  "cleanup_loop closeCG channelRef [] d = (d, None)"
| "cleanup_loop closeCG channelRef (s # ss) d =
     (case unsubscribe closeCG channelRef (subscription_at d s) d of
        (d1, Some err) \<Rightarrow> (d1, Some err)
      | (d1, None) \<Rightarrow> cleanup_loop closeCG channelRef ss d1)"

definition CleanupChannel ::
  "close_fun \<Rightarrow> (uid set \<Rightarrow> uid list) \<Rightarrow> string \<Rightarrow> string \<Rightarrow> string \<Rightarrow> KafkaDispatcher \<Rightarrow> KafkaDispatcher \<times> go_error option" where
  "CleanupChannel closeCG ord name namespace hostname d =
     (let channelRef = \<lparr>nn_Namespace = namespace, nn_Name = name\<rparr>;
          d1 = d\<lparr>d_hostToChannelMap := (d_hostToChannelMap d)(hostname := None)\<rparr>
      in case d_channelSubscriptions d1 channelRef of
           None \<Rightarrow> (d1, None)
         | Some r \<Rightarrow> cleanup_loop closeCG channelRef (ord (ks_subs (d_store d1 r))) d1)"

definition getChannelReferenceFromHost :: "string \<Rightarrow> KafkaDispatcher \<Rightarrow> go_error + NamespacedName" where
  "getChannelReferenceFromHost host d =
     (case d_hostToChannelMap d host of
        None \<Rightarrow> Inl (ErrorText (''cannot map host to channel: '' @ host))
      | Some cr \<Rightarrow> Inr cr)"

text \<open>
  A consumer group calls \<open>SetReady\<close> of its handler, from its own goroutine: the write goes through
  the handler's pointer, whatever the channel map holds by then.
\<close>

definition group_SetReady :: "ConsumerGroup \<Rightarrow> int \<Rightarrow> bool \<Rightarrow> KafkaDispatcher \<Rightarrow> KafkaDispatcher" where
  "group_SetReady g p ready d =
     d\<lparr>d_store := (d_store d)(cg_ks g := handler_SetReady (cg_handler g) p ready (d_store d (cg_ks g)))\<rparr>"

section \<open>The invariant\<close>

text \<open>The subscriptions of a channel, and the consumer groups that were started and not closed.\<close>

definition channel_subs :: "KafkaDispatcher \<Rightarrow> NamespacedName \<Rightarrow> uid set" where
  "channel_subs d c = (case d_channelSubscriptions d c of Some r \<Rightarrow> ks_subs (d_store d r) | None \<Rightarrow> {})"

definition open_groups :: "kafka_call list \<Rightarrow> ConsumerGroup set" where
  "open_groups l = {g. Started g \<in> set l \<and> Closed (cg_id g) \<notin> set l}"

definition log_inv :: "kafka_call list \<Rightarrow> bool" where
  "log_inv l \<longleftrightarrow> (\<forall>g. Started g \<in> set l \<longrightarrow> cg_id g < length l) \<and>
     (\<forall>i. Closed i \<in> set l \<longrightarrow> i < length l) \<and>
     (\<forall>g g'. Started g \<in> set l \<longrightarrow> Started g' \<in> set l \<longrightarrow> cg_id g = cg_id g' \<longrightarrow> g = g')"

definition store_inv :: "KafkaDispatcher \<Rightarrow> bool" where
  "store_inv d \<longleftrightarrow> (\<forall>c r. d_channelSubscriptions d c = Some r \<longrightarrow> r < d_next d) \<and>
     (\<forall>c c' r. d_channelSubscriptions d c = Some r \<longrightarrow> d_channelSubscriptions d c' = Some r \<longrightarrow> c = c') \<and>
     (\<forall>r. ks_wf (d_store d r))"

definition subs_inv :: "KafkaDispatcher \<Rightarrow> bool" where
  "subs_inv d \<longleftrightarrow> dom (d_subscriptions d) = (\<Union>c. channel_subs d c) \<and>
     (\<forall>c c'. c \<noteq> c' \<longrightarrow> channel_subs d c \<inter> channel_subs d c' = {}) \<and>
     (\<forall>u s. d_subscriptions d u = Some s \<longrightarrow> sub_UID s = u)"

definition groups_inv :: "KafkaDispatcher \<Rightarrow> bool" where
  "groups_inv d \<longleftrightarrow> dom (d_subsConsumerGroups d) = dom (d_subscriptions d) \<and>
     (\<forall>c u g. u \<in> channel_subs d c \<longrightarrow> d_subsConsumerGroups d u = Some g \<longrightarrow>
        d_subscriptions d u = Some (h_sub (cg_handler g)) \<and>
        GetConsumerGroup (cg_handler g) = groupID c u \<and>
        d_channelSubscriptions d c = Some (cg_ks g)) \<and>
     open_groups (d_log d) = ran (d_subsConsumerGroups d)"

definition disp_inv :: "KafkaDispatcher \<Rightarrow> bool" where
  "disp_inv d \<longleftrightarrow> store_inv d \<and> subs_inv d \<and> groups_inv d \<and> log_inv (d_log d)"

lemmas disp_inv_defs = disp_inv_def store_inv_def subs_inv_def groups_inv_def log_inv_def

lemma channel_subs_log [simp]: "channel_subs (d\<lparr>d_log := l\<rparr>) = channel_subs d"
  by (simp add: channel_subs_def fun_eq_iff split: option.splits)

lemma channel_subs_hosts [simp]: "channel_subs (d\<lparr>d_hostToChannelMap := m\<rparr>) = channel_subs d"
  by (simp add: channel_subs_def fun_eq_iff split: option.splits)

lemma channel_subs_finite: "disp_inv d \<Longrightarrow> finite (channel_subs d c)"
  by (auto simp: disp_inv_def store_inv_def channel_subs_def ks_wf_def split: option.split)

lemma NewDispatcher_inv: "disp_inv NewDispatcher"
  by (simp add: disp_inv_defs NewDispatcher_def channel_subs_def open_groups_def)

lemma disp_invD:
  assumes "disp_inv d"
  shows disp_inv_finite: "finite (channel_subs d c)"
    and disp_inv_channel_dom: "u \<in> channel_subs d c \<Longrightarrow> u \<in> dom (d_subscriptions d)"
    and disp_inv_dom_channel: "u \<in> dom (d_subscriptions d) \<Longrightarrow> \<exists>c. u \<in> channel_subs d c"
    and disp_inv_disjoint: "u \<in> channel_subs d c \<Longrightarrow> u \<in> channel_subs d c' \<Longrightarrow> c = c'"
    and disp_inv_uid: "d_subscriptions d u = Some s \<Longrightarrow> sub_UID s = u"
    and disp_inv_groups: "d_subsConsumerGroups d u = None \<longleftrightarrow> d_subscriptions d u = None"
    and disp_inv_wf: "ks_wf (d_store d r)"
proof -
  show "finite (channel_subs d c)"
    using assms by (auto simp: disp_inv_defs channel_subs_def ks_wf_def split: option.splits)
  show "u \<in> channel_subs d c \<Longrightarrow> u \<in> dom (d_subscriptions d)"
    using assms by (auto simp: disp_inv_def subs_inv_def)
  show "u \<in> dom (d_subscriptions d) \<Longrightarrow> \<exists>c. u \<in> channel_subs d c"
    using assms by (auto simp: disp_inv_def subs_inv_def)
  show "u \<in> channel_subs d c \<Longrightarrow> u \<in> channel_subs d c' \<Longrightarrow> c = c'"
    using assms by (auto simp: disp_inv_def subs_inv_def)
  show "d_subscriptions d u = Some s \<Longrightarrow> sub_UID s = u"
    using assms by (auto simp: disp_inv_def subs_inv_def)
  show "d_subsConsumerGroups d u = None \<longleftrightarrow> d_subscriptions d u = None"
    using assms unfolding disp_inv_def groups_inv_def by (metis domIff)
  show "ks_wf (d_store d r)"
    using assms by (simp add: disp_inv_def store_inv_def)
qed

lemma subscription_at_uid:
  "disp_inv d \<Longrightarrow> u \<in> dom (d_subscriptions d) \<Longrightarrow> sub_UID (subscription_at d u) = u"
  by (auto simp: subscription_at_def dest: disp_inv_uid)

section \<open>What subscribing does\<close>

lemma get_or_create_cases:
  obtains r where "d_channelSubscriptions d c = Some r" "get_or_create c d = (d, r)"
  | "d_channelSubscriptions d c = None"
    "get_or_create c d =
       (d\<lparr>d_store := (d_store d)(d_next d := NewKafkaSubscription),
          d_channelSubscriptions := (d_channelSubscriptions d)(c \<mapsto> d_next d),
          d_next := Suc (d_next d)\<rparr>, d_next d)"
  by (cases "d_channelSubscriptions d c") (auto simp: get_or_create_def)

lemma get_or_create_frame:
  assumes "get_or_create c d = (d1, r)"
  shows "d_channelSubscriptions d1 c = Some r" "d_subscriptions d1 = d_subscriptions d"
    "d_subsConsumerGroups d1 = d_subsConsumerGroups d" "d_log d1 = d_log d"
    "d_hostToChannelMap d1 = d_hostToChannelMap d"
  using assms by (auto simp: get_or_create_def split: option.splits)

lemma store_inv_next: "store_inv d \<Longrightarrow> d_channelSubscriptions d c \<noteq> Some (d_next d)"
  by (auto simp: store_inv_def)

lemma get_or_create_channel_subs:
  assumes "store_inv d" "get_or_create c d = (d1, r)"
  shows "channel_subs d1 = channel_subs d"
proof (rule ext)
  fix c'
  from assms store_inv_next [OF assms(1)] show "channel_subs d1 c' = channel_subs d c'"
    by (cases c d rule: get_or_create_cases)
      (auto simp: channel_subs_def store_inv_def split: option.splits if_splits)
qed

lemma get_or_create_store_inv:
  assumes "store_inv d" "get_or_create c d = (d1, r)"
  shows "store_inv d1"
  using assms store_inv_next [OF assms(1)]
  by (cases c d rule: get_or_create_cases) (auto simp: store_inv_def less_SucI split: if_splits)

lemma get_or_create_inv:
  assumes inv: "disp_inv d" and g: "get_or_create c d = (d1, r)"
  shows "disp_inv d1"
proof -
  have store: "store_inv d" using inv by (simp add: disp_inv_def)
  note fr = get_or_create_frame [OF g] and cs = get_or_create_channel_subs [OF store g]
  have "d_channelSubscriptions d1 c' = d_channelSubscriptions d c'" if "u \<in> channel_subs d c'" for u c'
    using that g by (auto simp: get_or_create_def channel_subs_def split: option.splits)
  then have "groups_inv d1"
    using inv unfolding disp_inv_def groups_inv_def fr cs by auto
  moreover have "subs_inv d1"
    using inv unfolding disp_inv_def subs_inv_def fr cs by simp
  ultimately show ?thesis
    using inv get_or_create_store_inv [OF store g] unfolding disp_inv_def fr by simp
qed

lemma log_inv_snoc:
  assumes "log_inv l"
  shows "log_inv (l @ [StartFailed s])"
    and "cg_id g = length l \<Longrightarrow> log_inv (l @ [Started g])"
    and "i < length l \<Longrightarrow> log_inv (l @ [Closed i])"
proof -
  note a = assms [unfolded log_inv_def]
  show "log_inv (l @ [StartFailed s])"
    using a by (simp add: log_inv_def less_SucI)
  show "cg_id g = length l \<Longrightarrow> log_inv (l @ [Started g])"
    using a by (simp add: log_inv_def less_SucI) (metis less_irrefl)
  show "i < length l \<Longrightarrow> log_inv (l @ [Closed i])"
    using a by (simp add: log_inv_def less_SucI)
qed

lemma open_groups_snoc:
  assumes "log_inv l"
  shows "open_groups (l @ [StartFailed s]) = open_groups l"
    and "cg_id g = length l \<Longrightarrow> open_groups (l @ [Started g]) = insert g (open_groups l)"
    and "g \<in> open_groups l \<Longrightarrow> open_groups (l @ [Closed (cg_id g)]) = open_groups l - {g}"
  using assms by (auto simp: log_inv_def open_groups_def)

text \<open>A consumer group is added for a subscription that has none.\<close>

definition add_group :: "nat \<Rightarrow> Subscription \<Rightarrow> ConsumerGroup \<Rightarrow> KafkaDispatcher \<Rightarrow> KafkaDispatcher" where
  "add_group r sub g d =
     d\<lparr>d_store := (d_store d)(r := (d_store d r)\<lparr>ks_subs := insert (sub_UID sub) (ks_subs (d_store d r))\<rparr>),
       d_subscriptions := (d_subscriptions d)(sub_UID sub \<mapsto> sub),
       d_subsConsumerGroups := (d_subsConsumerGroups d)(sub_UID sub \<mapsto> g),
       d_log := d_log d @ [Started g]\<rparr>"

lemma add_group_channel_subs:
  assumes "store_inv d" "d_channelSubscriptions d c = Some r"
  shows "channel_subs (add_group r sub g d) c' =
           (if c' = c then insert (sub_UID sub) (channel_subs d c) else channel_subs d c')"
  using assms by (auto simp: channel_subs_def add_group_def store_inv_def split: option.splits if_splits)

lemma add_group_inv:
  assumes inv: "disp_inv d" and r: "d_channelSubscriptions d c = Some r"
    and fresh: "sub_UID sub \<notin> dom (d_subscriptions d)"
    and g: "g = \<lparr>cg_id = length (d_log d), cg_topics = ts,
                 cg_handler = \<lparr>h_sub = sub, h_consumerGroup = groupID c (sub_UID sub)\<rparr>, cg_ks = r\<rparr>"
  shows "disp_inv (add_group r sub g d)"
proof -
  let ?d = "add_group r sub g d" and ?u = "sub_UID sub"
  have store: "store_inv d" and li: "log_inv (d_log d)" using inv by (auto simp: disp_inv_def)
  note cs = add_group_channel_subs [OF store r]
  have not_in: "?u \<notin> channel_subs d c'" for c'
    using inv fresh disp_inv_channel_dom by blast
  have "store_inv ?d"
    using store by (auto simp: store_inv_def add_group_def ks_wf_def)
  moreover have "subs_inv ?d"
  proof -
    have "dom (d_subscriptions ?d) = insert ?u (\<Union>c. channel_subs d c)"
      using inv by (auto simp: add_group_def disp_inv_def subs_inv_def)
    moreover have "(\<Union>c. channel_subs ?d c) = insert ?u (\<Union>c. channel_subs d c)"
      by (auto simp: cs split: if_splits)
    moreover have "\<forall>c c'. c \<noteq> c' \<longrightarrow> channel_subs ?d c \<inter> channel_subs ?d c' = {}"
      using inv not_in unfolding disp_inv_def subs_inv_def cs by auto
    ultimately show ?thesis
      using inv by (auto simp: subs_inv_def add_group_def disp_inv_def)
  qed
  moreover have "groups_inv ?d"
  proof -
    have "ran (d_subsConsumerGroups ?d) = insert g (ran (d_subsConsumerGroups d))"
      using fresh inv by (simp add: add_group_def disp_inv_groups domIff)
    moreover have "open_groups (d_log ?d) = insert g (open_groups (d_log d))"
      using open_groups_snoc(2) [OF li] by (simp add: add_group_def g)
    moreover have "d_subscriptions ?d u = Some (h_sub (cg_handler g')) \<and>
        GetConsumerGroup (cg_handler g') = groupID c' u \<and> d_channelSubscriptions ?d c' = Some (cg_ks g')"
      if "u \<in> channel_subs ?d c'" "d_subsConsumerGroups ?d u = Some g'" for c' u g'
      using that not_in inv r unfolding cs
      by (cases "u = ?u") (auto simp: add_group_def g GetConsumerGroup_def disp_inv_def groups_inv_def split: if_splits)
    ultimately show ?thesis
      using inv by (auto simp: groups_inv_def add_group_def disp_inv_def)
  qed
  moreover have "log_inv (d_log ?d)"
    using log_inv_snoc(2) [OF li] by (simp add: add_group_def g)
  ultimately show ?thesis by (simp add: disp_inv_def)
qed

text \<open>\<open>subscribe\<close> on its two branches, for a subscription that no channel has.\<close>

lemma subscribe_eq:
  assumes "get_or_create c d = (d1, r)"
  shows "subscribe startCG topic c sub d =
     (case startCG (d_log d) (groupID c (sub_UID sub)) [topic] of
        Some err \<Rightarrow> (d1\<lparr>d_log := d_log d @ [StartFailed (groupID c (sub_UID sub))]\<rparr>, Some err)
      | None \<Rightarrow>
          (add_group r sub \<lparr>cg_id = length (d_log d), cg_topics = [topic],
             cg_handler = \<lparr>h_sub = sub, h_consumerGroup = groupID c (sub_UID sub)\<rparr>, cg_ks = r\<rparr> d1, None))"
  using assms by (simp add: subscribe_def add_group_def Let_def get_or_create_frame [OF assms] split: option.splits)

lemma subscribe_spec:
  assumes inv: "disp_inv d" and fresh: "sub_UID sub \<notin> dom (d_subscriptions d)"
    and s: "subscribe startCG topic c sub d = (d', err)"
  shows "disp_inv d'"
    and "channel_subs d' c' = (if c' = c \<and> err = None then insert (sub_UID sub) (channel_subs d c) else channel_subs d c')"
    and "d_subscriptions d' = (if err = None then (d_subscriptions d)(sub_UID sub \<mapsto> sub) else d_subscriptions d)"
    and "u \<noteq> sub_UID sub \<Longrightarrow> d_subsConsumerGroups d' u = d_subsConsumerGroups d u"
    and "d_hostToChannelMap d' = d_hostToChannelMap d"
    and "err = startCG (d_log d) (groupID c (sub_UID sub)) [topic]"
proof -
  obtain d1 r where g: "get_or_create c d = (d1, r)" by fastforce
  have store: "store_inv d" using inv by (simp add: disp_inv_def)
  note fr = get_or_create_frame [OF g] and inv1 = get_or_create_inv [OF inv g]
  note cs1 = get_or_create_channel_subs [OF store g]
  have store1: "store_inv d1" using inv1 by (simp add: disp_inv_def)
  note eq = s [unfolded subscribe_eq [OF g]]
  have li: "log_inv (d_log d)" using inv by (simp add: disp_inv_def)
  have fresh1: "sub_UID sub \<notin> dom (d_subscriptions d1)" using fresh by (simp add: fr)
  have failed: "disp_inv (d1\<lparr>d_log := d_log d @ [StartFailed x]\<rparr>)" for x
    using inv1 log_inv_snoc(1) [OF li, of x] open_groups_snoc(1) [OF li, of x] fr(4)
    by (simp add: disp_inv_def store_inv_def subs_inv_def groups_inv_def)
  show "disp_inv d'"
    using eq failed add_group_inv [OF inv1 fr(1) fresh1] by (auto simp: fr split: option.splits)
  show "channel_subs d' c' = (if c' = c \<and> err = None then insert (sub_UID sub) (channel_subs d c) else channel_subs d c')"
    using eq by (auto simp: add_group_channel_subs [OF store1 fr(1)] cs1 split: option.splits)
  show "d_subscriptions d' = (if err = None then (d_subscriptions d)(sub_UID sub \<mapsto> sub) else d_subscriptions d)"
    using eq by (auto simp: add_group_def fr split: option.splits)
  show "u \<noteq> sub_UID sub \<Longrightarrow> d_subsConsumerGroups d' u = d_subsConsumerGroups d u"
    using eq by (auto simp: add_group_def fr split: option.splits)
  show "d_hostToChannelMap d' = d_hostToChannelMap d"
    using eq by (auto simp: add_group_def fr split: option.splits)
  show "err = startCG (d_log d) (groupID c (sub_UID sub)) [topic]"
    using eq by (auto split: option.splits)
qed

section \<open>What unsubscribing does\<close>

text \<open>The state after \<open>unsubscribe\<close> when the subscription belongs to the channel.\<close>

definition drop_group :: "NamespacedName \<Rightarrow> nat \<Rightarrow> uid \<Rightarrow> ConsumerGroup \<Rightarrow> KafkaDispatcher \<Rightarrow> KafkaDispatcher" where
  "drop_group c r u g d =
     d\<lparr>d_subscriptions := (d_subscriptions d)(u := None),
       d_store := (d_store d)(r := (d_store d r)\<lparr>ks_subs := ks_subs (d_store d r) - {u}\<rparr>),
       d_channelSubscriptions :=
         (if ks_subs (d_store d r) \<subseteq> {u} then (d_channelSubscriptions d)(c := None) else d_channelSubscriptions d),
       d_subsConsumerGroups := (d_subsConsumerGroups d)(u := None),
       d_log := d_log d @ [Closed (cg_id g)]\<rparr>"

lemma unsubscribe_eq:
  assumes inv: "disp_inv d" and u: "sub_UID sub \<in> channel_subs d c"
  obtains r g where "d_channelSubscriptions d c = Some r" "d_subsConsumerGroups d (sub_UID sub) = Some g"
    "unsubscribe closeCG c sub d = (drop_group c r (sub_UID sub) g d, closeCG (d_log d) g)"
proof -
  from u obtain r where r: "d_channelSubscriptions d c = Some r" and ur: "sub_UID sub \<in> ks_subs (d_store d r)"
    by (auto simp: channel_subs_def split: option.splits)
  from disp_inv_channel_dom [OF inv u] obtain g where g: "d_subsConsumerGroups d (sub_UID sub) = Some g"
    using disp_inv_groups [OF inv] by (metis domIff not_None_eq)
  have "finite (ks_subs (d_store d r))" using disp_inv_wf [OF inv] by (simp add: ks_wf_def)
  then have "unsubscribe closeCG c sub d = (drop_group c r (sub_UID sub) g d, closeCG (d_log d) g)"
    by (simp add: unsubscribe_def drop_group_def Let_def r g)
  with r g that show ?thesis by blast
qed

lemma drop_group_channel_subs:
  assumes "store_inv d" "d_channelSubscriptions d c = Some r"
  shows "channel_subs (drop_group c r u g d) c' = (if c' = c then channel_subs d c - {u} else channel_subs d c')"
  using assms by (auto simp: channel_subs_def drop_group_def store_inv_def split: option.splits if_splits)

lemma drop_group_inv:
  assumes inv: "disp_inv d" and r: "d_channelSubscriptions d c = Some r"
    and u: "u \<in> channel_subs d c" and g: "d_subsConsumerGroups d u = Some g"
  shows "disp_inv (drop_group c r u g d)"
proof -
  let ?d = "drop_group c r u g d"
  have store: "store_inv d" and li: "log_inv (d_log d)" using inv by (auto simp: disp_inv_def)
  note cs = drop_group_channel_subs [OF store r]
  have elsewhere: "u \<notin> channel_subs d c'" if "c' \<noteq> c" for c'
    using inv u that disp_inv_disjoint by blast
  have g_open: "g \<in> open_groups (d_log d)"
    using inv g by (auto simp: disp_inv_def groups_inv_def ran_def)
  have "store_inv ?d"
    using store by (auto simp: store_inv_def drop_group_def ks_wf_def split: if_splits)
  moreover have "subs_inv ?d"
  proof -
    have "dom (d_subscriptions ?d) = (\<Union>c. channel_subs d c) - {u}"
      using inv by (auto simp: drop_group_def disp_inv_def subs_inv_def)
    moreover have "(\<Union>c. channel_subs ?d c) = (\<Union>c. channel_subs d c) - {u}"
      using elsewhere by (auto simp: cs split: if_splits) metis
    moreover have "\<forall>c c'. c \<noteq> c' \<longrightarrow> channel_subs ?d c \<inter> channel_subs ?d c' = {}"
      using inv unfolding disp_inv_def subs_inv_def cs by auto
    ultimately show ?thesis
      using inv by (auto simp: subs_inv_def drop_group_def disp_inv_def)
  qed
  moreover have "groups_inv ?d"
  proof -
    have other: "g' \<noteq> g" if "d_subsConsumerGroups d u' = Some g'" "u' \<noteq> u" for u' g'
    proof -
      have "u' \<in> dom (d_subscriptions d)" using that disp_inv_groups [OF inv, of u'] by (auto simp: domIff)
      then obtain c' where "u' \<in> channel_subs d c'" using disp_inv_dom_channel [OF inv] by blast
      with u g that inv have "d_subscriptions d u' = Some (h_sub (cg_handler g'))"
        "d_subscriptions d u = Some (h_sub (cg_handler g))"
        unfolding disp_inv_def groups_inv_def by blast+
      with that(2) show ?thesis using disp_inv_uid [OF inv] by metis
    qed
    have "ran (d_subsConsumerGroups ?d) = ran (d_subsConsumerGroups d) - {g}"
    proof (rule set_eqI)
      fix g'
      show "g' \<in> ran (d_subsConsumerGroups ?d) \<longleftrightarrow> g' \<in> ran (d_subsConsumerGroups d) - {g}"
        using g other by (auto simp: drop_group_def ran_def) (metis option.inject)
    qed
    moreover have "open_groups (d_log ?d) = open_groups (d_log d) - {g}"
      using open_groups_snoc(3) [OF li g_open] by (simp add: drop_group_def)
    moreover have "d_subscriptions ?d u' = Some (h_sub (cg_handler g')) \<and>
        GetConsumerGroup (cg_handler g') = groupID c' u' \<and> d_channelSubscriptions ?d c' = Some (cg_ks g')"
      if "u' \<in> channel_subs ?d c'" "d_subsConsumerGroups ?d u' = Some g'" for c' u' g'
    proof -
      from that(2) have d: "u' \<noteq> u" "d_subsConsumerGroups d u' = Some g'"
        by (auto simp: drop_group_def split: if_splits)
      have d2: "u' \<in> channel_subs d c'" using that(1) by (auto simp: cs split: if_splits)
      have "d_channelSubscriptions ?d c' = d_channelSubscriptions d c'"
        using d2 d(1) r by (auto simp: drop_group_def channel_subs_def split: if_splits option.splits)
      with d d2 inv show ?thesis by (simp add: drop_group_def disp_inv_def groups_inv_def)
    qed
    ultimately show ?thesis
      using inv by (auto simp: groups_inv_def drop_group_def disp_inv_def)
  qed
  moreover have "log_inv (d_log ?d)"
    using log_inv_snoc(3) [OF li] g_open li by (auto simp: drop_group_def log_inv_def open_groups_def)
  ultimately show ?thesis by (simp add: disp_inv_def)
qed

lemma unsubscribe_spec:
  assumes inv: "disp_inv d" and u: "sub_UID sub \<in> channel_subs d c"
    and s: "unsubscribe closeCG c sub d = (d', err)"
  shows "disp_inv d'"
    and "channel_subs d' c' = (if c' = c then channel_subs d c - {sub_UID sub} else channel_subs d c')"
    and "d_subscriptions d' = (d_subscriptions d)(sub_UID sub := None)"
    and "d_subsConsumerGroups d' = (d_subsConsumerGroups d)(sub_UID sub := None)"
    and "d_hostToChannelMap d' = d_hostToChannelMap d"
proof -
  from unsubscribe_eq [OF inv u, of closeCG] s obtain r g where
    r: "d_channelSubscriptions d c = Some r" "d_subsConsumerGroups d (sub_UID sub) = Some g"
    and d': "d' = drop_group c r (sub_UID sub) g d" by (metis Pair_inject)
  have store: "store_inv d" using inv by (simp add: disp_inv_def)
  show "disp_inv d'" using drop_group_inv [OF inv r(1) u r(2)] d' by simp
  show "channel_subs d' c' = (if c' = c then channel_subs d c - {sub_UID sub} else channel_subs d c')"
    by (simp add: d' drop_group_channel_subs [OF store r(1)])
  show "d_subscriptions d' = (d_subscriptions d)(sub_UID sub := None)"
    "d_subsConsumerGroups d' = (d_subsConsumerGroups d)(sub_UID sub := None)"
    "d_hostToChannelMap d' = d_hostToChannelMap d"
    by (simp_all add: d' drop_group_def)
qed

section \<open>What reconciling does\<close>

text \<open>
  What holds of a step that only touches the subscriptions \<open>U\<close> of channel \<open>c\<close>: the invariant, the hosts,
  the other channels, and every subscription outside \<open>U\<close> with its consumer group.
\<close>

definition frame :: "NamespacedName \<Rightarrow> uid set \<Rightarrow> KafkaDispatcher \<Rightarrow> KafkaDispatcher \<Rightarrow> bool" where
  "frame c U d d' \<longleftrightarrow> disp_inv d' \<and> d_hostToChannelMap d' = d_hostToChannelMap d \<and>
     (\<forall>c'. c' \<noteq> c \<longrightarrow> channel_subs d' c' = channel_subs d c') \<and>
     (\<forall>u. u \<notin> U \<longrightarrow> d_subscriptions d' u = d_subscriptions d u \<and>
                  d_subsConsumerGroups d' u = d_subsConsumerGroups d u)"

lemma frame_refl: "disp_inv d \<Longrightarrow> frame c U d d"
  by (simp add: frame_def)

lemma frame_trans: "frame c U d d1 \<Longrightarrow> frame c V d1 d2 \<Longrightarrow> U \<union> V \<subseteq> W \<Longrightarrow> frame c W d d2"
  unfolding frame_def by (metis Un_iff subsetD)

lemma frame_inv: "frame c U d d' \<Longrightarrow> disp_inv d'"
  by (simp add: frame_def)

lemma subscribe_frame:
  assumes "disp_inv d" "sub_UID sub \<notin> dom (d_subscriptions d)" "subscribe startCG topic c sub d = (d', err)"
  shows "frame c {sub_UID sub} d d'"
  using subscribe_spec [OF assms] by (auto simp: frame_def)

lemma unsubscribe_frame:
  assumes "disp_inv d" "sub_UID sub \<in> channel_subs d c" "unsubscribe closeCG c sub d = (d', err)"
  shows "frame c {sub_UID sub} d d'"
  using unsubscribe_spec [OF assms] by (auto simp: frame_def)

lemma subscribe_loop_spec:
  assumes "subscribe_loop startCG topic c m us d failed = (d', failed')"
    and "disp_inv d" "distinct us" "set us \<inter> dom failed = {}" "set us \<inter> dom (d_subscriptions d) = {}"
    and "\<And>u. u \<in> set us \<Longrightarrow> \<exists>s. m u = Some s \<and> sub_UID s = u"
  shows "frame c (set us) d d' \<and> dom failed \<subseteq> dom failed' \<and> dom failed' \<subseteq> dom failed \<union> set us \<and>
         channel_subs d' c = channel_subs d c \<union> (set us - dom failed') \<and>
         (\<forall>u \<in> set us - dom failed'. d_subscriptions d' u = m u)"
  using assms
proof (induction us arbitrary: d failed)
  case Nil
  then show ?case by (simp add: frame_refl)
next
  case (Cons u us)
  from Cons.prems(6) obtain s where s: "m u = Some s" "sub_UID s = u" by auto
  obtain d1 err where sub: "subscribe startCG topic c s d = (d1, err)" by fastforce
  have fresh: "sub_UID s \<notin> dom (d_subscriptions d)" using Cons.prems(5) s by auto
  note sp = subscribe_spec [OF Cons.prems(2) fresh sub]
  note fr = subscribe_frame [OF Cons.prems(2) fresh sub]
  let ?f = "case err of None \<Rightarrow> failed | Some e \<Rightarrow> failed(u \<mapsto> e)"
  have run: "subscribe_loop startCG topic c m us d1 ?f = (d', failed')"
    using Cons.prems(1) s sub by (simp split: option.splits)
  have "set us \<inter> dom ?f = {}" "set us \<inter> dom (d_subscriptions d1) = {}"
    using Cons.prems(3-5) s by (auto simp: sp(3) split: option.splits)
  from Cons.IH [OF run sp(1) _ this] Cons.prems(3,6)
  have ih: "frame c (set us) d1 d'" "dom ?f \<subseteq> dom failed'" "dom failed' \<subseteq> dom ?f \<union> set us"
    "channel_subs d' c = channel_subs d1 c \<union> (set us - dom failed')"
    "\<forall>u \<in> set us - dom failed'. d_subscriptions d' u = m u" by auto
  have "u \<in> dom failed' \<longleftrightarrow> err \<noteq> None"
    using ih(2,3) Cons.prems(3,4) by (auto split: option.splits)
  moreover have "frame c (set (u # us)) d d'"
    by (rule frame_trans [OF fr ih(1)]) (use s in auto)
  moreover have "d_subscriptions d' u = d_subscriptions d1 u"
    using ih(1) Cons.prems(3) by (simp add: frame_def)
  ultimately show ?case
    using ih(2-5) s by (auto simp: sp(2,3) split: option.splits)
qed

lemma unsubscribe_loop_spec:
  assumes "disp_inv d" "distinct us" "set us \<subseteq> channel_subs d c"
  shows "frame c (set us) d (unsubscribe_loop closeCG c us d) \<and>
         channel_subs (unsubscribe_loop closeCG c us d) c = channel_subs d c - set us \<and>
         (\<forall>u \<in> set us. d_subsConsumerGroups (unsubscribe_loop closeCG c us d) u = None)"
  using assms
proof (induction us arbitrary: d)
  case Nil
  then show ?case by (simp add: frame_refl)
next
  case (Cons u us)
  let ?s = "subscription_at d u"
  have u: "u \<in> channel_subs d c" using Cons.prems by simp
  have uid: "sub_UID ?s = u"
    using subscription_at_uid [OF Cons.prems(1)] disp_inv_channel_dom [OF Cons.prems(1) u] by simp
  obtain d1 err where un: "unsubscribe closeCG c ?s d = (d1, err)" by fastforce
  have u': "sub_UID ?s \<in> channel_subs d c" using u uid by simp
  note sp = unsubscribe_spec [OF Cons.prems(1) u' un] and fr = unsubscribe_frame [OF Cons.prems(1) u' un]
  have "set us \<subseteq> channel_subs d1 c" using Cons.prems(2,3) by (auto simp: sp(2) uid)
  from Cons.IH [OF sp(1) _ this] Cons.prems(2)
  have ih: "frame c (set us) d1 (unsubscribe_loop closeCG c us d1)"
    "channel_subs (unsubscribe_loop closeCG c us d1) c = channel_subs d1 c - set us"
    "\<forall>u \<in> set us. d_subsConsumerGroups (unsubscribe_loop closeCG c us d1) u = None" by auto
  have eq: "unsubscribe_loop closeCG c (u # us) d = unsubscribe_loop closeCG c us d1" by (simp add: un)
  have "frame c (set (u # us)) d (unsubscribe_loop closeCG c us d1)"
    by (rule frame_trans [OF fr ih(1)]) (use uid in auto)
  moreover have "d_subsConsumerGroups (unsubscribe_loop closeCG c us d1) u = None"
    using ih(1) Cons.prems(2) by (simp add: frame_def sp(4) uid)
  ultimately show ?case
    using ih(2,3) unfolding eq by (auto simp: sp(2) uid)
qed

lemma toAddSubs_fold:
  fixes A :: "uid set" and m0 :: "uid \<rightharpoonup> Subscription"
  defines "f \<equiv> \<lambda>subSpec m. if sub_UID subSpec \<in> A then m(sub_UID subSpec \<mapsto> subSpec) else m"
  shows "dom (fold f xs m0) = dom m0 \<union> (A \<inter> sub_UID ` set xs)"
    and "fold f xs m0 u = Some s \<Longrightarrow> m0 u = Some s \<or> s \<in> set xs \<and> sub_UID s = u"
proof -
  show "dom (fold f xs m0) = dom m0 \<union> (A \<inter> sub_UID ` set xs)"
    by (induction xs arbitrary: m0) (auto simp: f_def)
  show "fold f xs m0 u = Some s \<Longrightarrow> m0 u = Some s \<or> s \<in> set xs \<and> sub_UID s = u"
  proof (induction xs arbitrary: m0)
    case Nil
    then show ?case by simp
  next
    case (Cons x xs)
    from Cons.IH [of "f x m0"] Cons.prems show ?case by (auto simp: f_def split: if_splits)
  qed
qed

text \<open>The UIDs of a configuration belong to no other channel.\<close>

definition foreign_free :: "('d \<Rightarrow> NamespacedName \<Rightarrow> uid set) \<Rightarrow> 'd \<Rightarrow> ChannelConfig \<Rightarrow> bool" where
  "foreign_free subs d cfg \<longleftrightarrow>
     (\<forall>c. c \<noteq> cfg_ref cfg \<longrightarrow> subs d c \<inter> set (SubscriptionsUIDs cfg) = {})"

definition failed_uids :: "UpdateError option \<Rightarrow> uid set" where
  "failed_uids e = (case e of None \<Rightarrow> {} | Some f \<Rightarrow> dom f)"

lemma ReconcileConsumers_spec:
  assumes inv: "disp_inv d" and ords: "go_range ordAdd" "go_range ordRemove"
    and free: "foreign_free channel_subs d cfg"
    and rec: "ReconcileConsumers startCG closeCG topic ordAdd ordRemove cfg d = (d', e)"
  shows ReconcileConsumers_frame:
      "frame (cfg_ref cfg)
         ((channel_subs d (cfg_ref cfg) - set (SubscriptionsUIDs cfg)) \<union>
          (set (SubscriptionsUIDs cfg) - channel_subs d (cfg_ref cfg))) d d'" (is ?frame)
    and ReconcileConsumers_subs: "channel_subs d' (cfg_ref cfg) = set (SubscriptionsUIDs cfg) - failed_uids e" (is ?subs)
    and ReconcileConsumers_failed: "failed_uids e \<subseteq> set (SubscriptionsUIDs cfg) - channel_subs d (cfg_ref cfg)" (is ?failed)
    and ReconcileConsumers_nil: "e = None \<longleftrightarrow> failed_uids e = {}" (is ?nil)
    and ReconcileConsumers_added:
      "u \<in> channel_subs d' (cfg_ref cfg) - channel_subs d (cfg_ref cfg) \<Longrightarrow>
         \<exists>s \<in> set (cfg_Subscriptions cfg). sub_UID s = u \<and> d_subscriptions d' u = Some s" (is "_ \<Longrightarrow> ?added")
proof -
  let ?c = "cfg_ref cfg" and ?new = "set (SubscriptionsUIDs cfg)"
  let ?old = "channel_subs d ?c"
  define m where "m = fold (\<lambda>s m. if sub_UID s \<in> ?new - ?old then m(sub_UID s \<mapsto> s) else m) (cfg_Subscriptions cfg) Map.empty"
  have dom_m: "dom m = ?new - ?old"
    unfolding m_def toAddSubs_fold by (auto simp: SubscriptionsUIDs_def)
  have m_some: "s \<in> set (cfg_Subscriptions cfg) \<and> sub_UID s = u" if "m u = Some s" for u s
    using toAddSubs_fold(2) [OF that [unfolded m_def]] by simp
  have fin: "finite ?old" using inv by (rule disp_inv_finite)
  have finm: "finite (dom m)" by (simp add: dom_m)
  obtain d1 f where loop: "subscribe_loop startCG topic ?c m (ordAdd (dom m)) d Map.empty = (d1, f)" by fastforce
  have e: "e = (if card (dom f) = 0 then None else Some f)"
    and d': "d' = unsubscribe_loop closeCG ?c (ordRemove (?old - ?new)) d1"
    using rec loop unfolding ReconcileConsumers_def Let_def m_def channel_subs_def by auto
  have add: "set (ordAdd (dom m)) = ?new - ?old" "distinct (ordAdd (dom m))"
    using go_range.set_ord [OF ords(1) finm] go_range.distinct_ord [OF ords(1) finm] dom_m by auto
  have rem: "set (ordRemove (?old - ?new)) = ?old - ?new" "distinct (ordRemove (?old - ?new))"
    using go_range.set_ord [OF ords(2)] go_range.distinct_ord [OF ords(2)] fin by auto
  have "u \<notin> dom (d_subscriptions d)" if u: "u \<in> ?new - ?old" for u
  proof
    assume "u \<in> dom (d_subscriptions d)"
    then obtain c where "u \<in> channel_subs d c" using disp_inv_dom_channel [OF inv] by blast
    with u free show False by (cases "c = ?c") (auto simp: foreign_free_def)
  qed
  then have "(?new - ?old) \<inter> dom (d_subscriptions d) = {}" by blast
  moreover have "\<exists>s. m u = Some s \<and> sub_UID s = u" if "u \<in> set (ordAdd (dom m))" for u
    using that m_some unfolding add(1) dom_m [symmetric] by blast
  ultimately have sl: "frame ?c (?new - ?old) d d1" "dom f \<subseteq> ?new - ?old"
    "channel_subs d1 ?c = ?old \<union> ((?new - ?old) - dom f)"
    "\<forall>u \<in> (?new - ?old) - dom f. d_subscriptions d1 u = m u"
    using subscribe_loop_spec [OF loop inv add(2)] by (auto simp: add(1))
  have inv1: "disp_inv d1" using sl(1) by (rule frame_inv)
  have "set (ordRemove (?old - ?new)) \<subseteq> channel_subs d1 ?c" using sl(3) rem by auto
  from unsubscribe_loop_spec [OF inv1 rem(2) this, of closeCG]
  have ul: "frame ?c (?old - ?new) d1 d'" "channel_subs d' ?c = channel_subs d1 ?c - (?old - ?new)"
    by (auto simp: rem(1) d')
  have "finite (dom f)" using sl(2) by (rule finite_subset) simp
  then have fe: "failed_uids e = dom f" by (simp add: e failed_uids_def)
  show ?frame by (rule frame_trans [OF sl(1) ul(1)]) auto
  show ?subs unfolding fe ul(2) sl(3) using sl(2) by auto
  show ?failed unfolding fe using sl(2) by auto
  show ?nil using \<open>finite (dom f)\<close> by (simp add: e failed_uids_def)
  show ?added if u: "u \<in> channel_subs d' ?c - ?old"
  proof -
    from u have u1: "u \<in> (?new - ?old) - dom f" unfolding ul(2) sl(3) by auto
    then have "d_subscriptions d' u = m u" using sl(4) ul(1) by (simp add: frame_def)
    moreover from u1 have "u \<in> dom m" by (simp add: dom_m)
    then obtain s where "m u = Some s" by blast
    ultimately show ?thesis using m_some by auto
  qed
qed

lemma ReconcileConsumers_kept:
  assumes "disp_inv d" "go_range ordAdd" "go_range ordRemove" "foreign_free channel_subs d cfg"
    and "ReconcileConsumers startCG closeCG topic ordAdd ordRemove cfg d = (d', e)"
    and "u \<in> channel_subs d (cfg_ref cfg)" "u \<in> set (SubscriptionsUIDs cfg)"
  shows "u \<in> channel_subs d' (cfg_ref cfg)" "d_subscriptions d' u = d_subscriptions d u"
    "d_subsConsumerGroups d' u = d_subsConsumerGroups d u"
  using ReconcileConsumers_frame [OF assms(1-5)] ReconcileConsumers_subs [OF assms(1-5)]
    ReconcileConsumers_failed [OF assms(1-5)] assms(6,7)
  by (auto simp: frame_def)

text \<open>Every consumer group that is open in Kafka belongs to a subscription of some channel.\<close>

lemma open_groups_owned:
  assumes "disp_inv d" "g \<in> open_groups (d_log d)"
  obtains c u where "u \<in> channel_subs d c" "d_subsConsumerGroups d u = Some g"
    "GetConsumerGroup (cg_handler g) = groupID c u"
proof -
  from assms obtain u where u: "d_subsConsumerGroups d u = Some g"
    by (auto simp: disp_inv_def groups_inv_def ran_def)
  then have "u \<in> dom (d_subscriptions d)" using disp_inv_groups [OF assms(1), of u] by (auto simp: domIff)
  then obtain c where "u \<in> channel_subs d c" using disp_inv_dom_channel [OF assms(1)] by blast
  with u assms(1) that show ?thesis unfolding disp_inv_def groups_inv_def by blast
qed

lemma no_open_group_without_subscription:
  assumes "disp_inv d" "\<And>c. u \<notin> channel_subs d c"
  shows "\<not> (\<exists>g \<in> open_groups (d_log d). sub_UID (h_sub (cg_handler g)) = u)"
proof
  assume "\<exists>g \<in> open_groups (d_log d). sub_UID (h_sub (cg_handler g)) = u"
  then obtain g where g: "g \<in> open_groups (d_log d)" "sub_UID (h_sub (cg_handler g)) = u" by blast
  from open_groups_owned [OF assms(1) g(1)] obtain c v where
    v: "v \<in> channel_subs d c" "d_subsConsumerGroups d v = Some g" by blast
  with assms(1) have "d_subscriptions d v = Some (h_sub (cg_handler g))"
    unfolding disp_inv_def groups_inv_def by blast
  with disp_inv_uid [OF assms(1)] g(2) have "v = u" by blast
  with v assms(2) show False by blast
qed

section \<open>What the other operations do\<close>

lemma hosts_inv [simp]: "disp_inv (d\<lparr>d_hostToChannelMap := m\<rparr>) = disp_inv d"
  by (simp add: disp_inv_def store_inv_def subs_inv_def groups_inv_def)

lemma RegisterChannelHost_spec:
  assumes "RegisterChannelHost cfg d = (d', e)"
  shows "channel_subs d' = channel_subs d" "disp_inv d' = disp_inv d"
    and "d_hostToChannelMap d' =
           (case d_hostToChannelMap d (cfg_HostName cfg) of
              None \<Rightarrow> (d_hostToChannelMap d)(cfg_HostName cfg \<mapsto> cfg_ref cfg) | Some _ \<Rightarrow> d_hostToChannelMap d)"
    and "e = None \<longleftrightarrow> d_hostToChannelMap d' (cfg_HostName cfg) = Some (cfg_ref cfg)"
  using assms by (auto simp: RegisterChannelHost_def cfg_ref_def split: option.splits if_splits)

lemma cleanup_loop_spec:
  assumes "cleanup_loop closeCG c us d = (d', e)" "disp_inv d" "distinct us" "set us \<subseteq> channel_subs d c"
  shows "frame c (set us) d d' \<and>
         (\<exists>vs ws. us = vs @ ws \<and> channel_subs d' c = channel_subs d c - set vs \<and> (e = None \<longrightarrow> ws = []) \<and>
                  (vs = [] \<longrightarrow> us = []))"
  using assms
proof (induction us arbitrary: d)
  case Nil
  then show ?case by (simp add: frame_refl)
next
  case (Cons u us)
  let ?s = "subscription_at d u"
  have u: "u \<in> channel_subs d c" using Cons.prems by simp
  have uid: "sub_UID ?s = u"
    using subscription_at_uid [OF Cons.prems(2)] disp_inv_channel_dom [OF Cons.prems(2) u] by simp
  obtain d1 err where un: "unsubscribe closeCG c ?s d = (d1, err)" by fastforce
  have u': "sub_UID ?s \<in> channel_subs d c" using u uid by simp
  note sp = unsubscribe_spec [OF Cons.prems(2) u' un] and fr = unsubscribe_frame [OF Cons.prems(2) u' un]
  show ?case
  proof (cases err)
    case (Some x)
    then have "d' = d1" "e = Some x" using Cons.prems(1) un by auto
    moreover have "frame c (set (u # us)) d d1"
      by (rule frame_trans [OF fr frame_refl [OF sp(1), of _ "{}"]]) (use uid in auto)
    moreover have "u # us = [u] @ us" "channel_subs d1 c = channel_subs d c - set [u]"
      by (auto simp: sp(2) uid)
    ultimately show ?thesis by (metis list.distinct(1) option.distinct(1))
  next
    case None
    then have run: "cleanup_loop closeCG c us d1 = (d', e)" using Cons.prems(1) un by simp
    have "set us \<subseteq> channel_subs d1 c" using Cons.prems(3,4) by (auto simp: sp(2) uid)
    from Cons.IH [OF run sp(1) _ this] Cons.prems(3) obtain vs ws where
      ih: "frame c (set us) d1 d'" "us = vs @ ws" "channel_subs d' c = channel_subs d1 c - set vs" "e = None \<longrightarrow> ws = []"
      by (metis distinct.simps(2))
    have "frame c (set (u # us)) d d'"
      by (rule frame_trans [OF fr ih(1)]) (use uid in auto)
    moreover have "u # us = (u # vs) @ ws" "channel_subs d' c = channel_subs d c - set (u # vs)"
      using ih(2,3) by (auto simp: sp(2) uid)
    ultimately show ?thesis using ih(4) by blast
  qed
qed

lemma CleanupChannel_spec:
  assumes inv: "disp_inv d" and ord: "go_range ord"
    and cl: "CleanupChannel closeCG ord name ns host d = (d', e)"
  defines "c \<equiv> \<lparr>nn_Namespace = ns, nn_Name = name\<rparr>"
  shows "disp_inv d'" "d_hostToChannelMap d' = (d_hostToChannelMap d)(host := None)"
    and "c' \<noteq> c \<Longrightarrow> channel_subs d' c' = channel_subs d c'"
    and "e = None \<Longrightarrow> channel_subs d' c = {}" "channel_subs d' c \<subseteq> channel_subs d c"
    and "channel_subs d c \<noteq> {} \<Longrightarrow> channel_subs d' c \<subset> channel_subs d c"
proof -
  let ?d1 = "d\<lparr>d_hostToChannelMap := (d_hostToChannelMap d)(host := None)\<rparr>"
  have fin: "finite (channel_subs d c)" using inv by (rule disp_inv_finite)
  have o: "set (ord (channel_subs d c)) = channel_subs d c" "distinct (ord (channel_subs d c))"
    using go_range.set_ord [OF ord fin] go_range.distinct_ord [OF ord fin] by auto
  have inv1: "disp_inv ?d1" using inv by simp
  have *: "frame c (channel_subs d c) ?d1 d' \<and>
      (\<exists>vs ws. ord (channel_subs d c) = vs @ ws \<and> channel_subs d' c = channel_subs d c - set vs \<and>
         (e = None \<longrightarrow> ws = []) \<and> (vs = [] \<longrightarrow> ord (channel_subs d c) = []))"
  proof (cases "d_channelSubscriptions d c")
    case None
    then have "channel_subs d c = {}" "d' = ?d1" "e = None"
      using cl by (auto simp: CleanupChannel_def c_def channel_subs_def)
    moreover from this o have "ord (channel_subs d c) = []" by simp
    ultimately show ?thesis using frame_refl [OF inv1, of c "{}"] by simp
  next
    case (Some r)
    then have "cleanup_loop closeCG c (ord (channel_subs d c)) ?d1 = (d', e)"
      using cl by (simp add: CleanupChannel_def c_def channel_subs_def)
    from cleanup_loop_spec [OF this inv1] show ?thesis by (simp add: o)
  qed
  then have fr: "frame c (channel_subs d c) ?d1 d'" by blast
  show "disp_inv d'" using fr by (rule frame_inv)
  show "d_hostToChannelMap d' = (d_hostToChannelMap d)(host := None)"
    "c' \<noteq> c \<Longrightarrow> channel_subs d' c' = channel_subs d c'"
    using fr unfolding frame_def by simp_all
  from * obtain vs ws where vs: "ord (channel_subs d c) = vs @ ws" "channel_subs d' c = channel_subs d c - set vs"
    "e = None \<longrightarrow> ws = []" "vs = [] \<longrightarrow> ord (channel_subs d c) = []" by blast
  have u: "set vs \<union> set ws = channel_subs d c" using o(1) by (simp add: vs(1))
  show "e = None \<Longrightarrow> channel_subs d' c = {}" "channel_subs d' c \<subseteq> channel_subs d c"
    using vs(3) by (auto simp: vs(2) u [symmetric])
  show "channel_subs d c \<noteq> {} \<Longrightarrow> channel_subs d' c \<subset> channel_subs d c"
  proof -
    assume ne: "channel_subs d c \<noteq> {}"
    then have "vs \<noteq> []" using vs(4) o(1) by (metis set_empty)
    then have "hd vs \<in> set vs" by simp
    then show ?thesis unfolding vs(2) u [symmetric] by blast
  qed
qed

lemma group_SetReady_inv: "disp_inv d \<Longrightarrow> disp_inv (group_SetReady g p b d)"
  and group_SetReady_subs: "channel_subs (group_SetReady g p b d) = channel_subs d"
proof -
  show cs: "channel_subs (group_SetReady g p b d) = channel_subs d"
    by (rule ext) (simp add: channel_subs_def group_SetReady_def handler_SetReady_def split: option.split)
  have "store_inv d \<Longrightarrow> store_inv (group_SetReady g p b d)"
    by (simp add: store_inv_def group_SetReady_def handler_SetReady_def SetReady_wf)
  then show "disp_inv d \<Longrightarrow> disp_inv (group_SetReady g p b d)"
    unfolding disp_inv_def subs_inv_def groups_inv_def cs by (simp add: group_SetReady_def)
qed

section \<open>The interface of the dispatcher\<close>

text \<open>
  What the reconciler of the dispatcher process relies on: registering a host never steals it, and
  reconciling a channel leaves it with the configured subscriptions less the ones reported as failed.
\<close>

locale channel_dispatcher =
  fixes inv :: "'d \<Rightarrow> bool"
    and subs :: "'d \<Rightarrow> NamespacedName \<Rightarrow> uid set"
    and hosts :: "'d \<Rightarrow> string \<rightharpoonup> NamespacedName"
    and register :: "ChannelConfig \<Rightarrow> 'd \<Rightarrow> 'd \<times> go_error option"
    and reconcile :: "ChannelConfig \<Rightarrow> 'd \<Rightarrow> 'd \<times> UpdateError option"
  assumes register_keeps: "register cfg d = (d', e) \<Longrightarrow> inv d' = inv d \<and> subs d' = subs d"
    and register_hosts: "register cfg d = (d', e) \<Longrightarrow>
      hosts d' = (case hosts d (cfg_HostName cfg) of
                    None \<Rightarrow> (hosts d)(cfg_HostName cfg \<mapsto> cfg_ref cfg) | Some _ \<Rightarrow> hosts d)"
    and register_ok: "register cfg d = (d', e) \<Longrightarrow> e = None \<longleftrightarrow> hosts d' (cfg_HostName cfg) = Some (cfg_ref cfg)"
    and reconcile_keeps: "inv d \<Longrightarrow> foreign_free subs d cfg \<Longrightarrow> reconcile cfg d = (d', ue) \<Longrightarrow>
      inv d' \<and> hosts d' = hosts d \<and> (\<forall>c. c \<noteq> cfg_ref cfg \<longrightarrow> subs d' c = subs d c)"
    and reconcile_subs: "inv d \<Longrightarrow> foreign_free subs d cfg \<Longrightarrow> reconcile cfg d = (d', ue) \<Longrightarrow>
      subs d' (cfg_ref cfg) = set (SubscriptionsUIDs cfg) - failed_uids ue"
    and reconcile_nil: "inv d \<Longrightarrow> foreign_free subs d cfg \<Longrightarrow> reconcile cfg d = (d', ue) \<Longrightarrow>
      ue = None \<longleftrightarrow> failed_uids ue = {}"
    and reconcile_failed: "inv d \<Longrightarrow> foreign_free subs d cfg \<Longrightarrow> reconcile cfg d = (d', ue) \<Longrightarrow>
      failed_uids ue \<subseteq> set (SubscriptionsUIDs cfg) - subs d (cfg_ref cfg)"
begin

lemma reconcile_ok_iff:
  assumes "inv d" "foreign_free subs d cfg" "reconcile cfg d = (d', e)"
  shows "e = None \<longleftrightarrow> subs d' (cfg_ref cfg) = set (SubscriptionsUIDs cfg)"
  using reconcile_subs [OF assms] reconcile_nil [OF assms] reconcile_failed [OF assms] by auto

lemma reconcile_fixpoint:
  assumes "inv d" "foreign_free subs d cfg" "reconcile cfg d = (d', None)"
    and "reconcile cfg d' = (d'', e)"
  shows "e = None \<and> subs d'' = subs d'"
proof -
  from reconcile_keeps [OF assms(1-3)] assms(2) have inv': "inv d'" and free': "foreign_free subs d' cfg"
    by (auto simp: foreign_free_def)
  have s': "subs d' (cfg_ref cfg) = set (SubscriptionsUIDs cfg)"
    using reconcile_ok_iff [OF assms(1-3)] by simp
  then have "failed_uids e = {}" using reconcile_failed [OF inv' free' assms(4)] by auto
  then have "e = None" using reconcile_nil [OF inv' free' assms(4)] by simp
  moreover from this have "subs d'' (cfg_ref cfg) = subs d' (cfg_ref cfg)"
    using reconcile_ok_iff [OF inv' free' assms(4)] s' by simp
  ultimately show ?thesis
    using reconcile_keeps [OF inv' free' assms(4)] by (intro conjI ext) (auto split: if_splits, metis+)
qed

lemma run_keeps:
  assumes "inv d" "\<And>cfg. cfg \<in> set cfgs \<Longrightarrow> cfg_ref cfg = c \<and> foreign_free subs d cfg"
  shows "inv (fold (\<lambda>cfg d. fst (reconcile cfg d)) cfgs d) \<and>
         (\<forall>c'. c' \<noteq> c \<longrightarrow> subs (fold (\<lambda>cfg d. fst (reconcile cfg d)) cfgs d) c' = subs d c')"
  using assms
proof (induction cfgs arbitrary: d)
  case Nil
  then show ?case by simp
next
  case (Cons cfg cfgs)
  obtain d1 e where r: "reconcile cfg d = (d1, e)" by fastforce
  from Cons.prems(2) [of cfg] have c: "cfg_ref cfg = c" and free: "foreign_free subs d cfg" by auto
  note k = reconcile_keeps [OF Cons.prems(1) free r]
  have "cfg_ref cfg' = c \<and> foreign_free subs d1 cfg'" if "cfg' \<in> set cfgs" for cfg'
    using that Cons.prems(2) [of cfg'] k c by (auto simp: foreign_free_def)
  with Cons.IH [of d1] k c r show ?case by auto
qed

text \<open>Registering the host and reconciling, as the reconciler does.\<close>

lemma register_reconcile:
  assumes "inv d" "foreign_free subs d cfg" "register cfg d = (d1, None)" "reconcile cfg d1 = (d2, e)"
  shows "inv d2" "hosts d2 (cfg_HostName cfg) = Some (cfg_ref cfg)"
    and "e = None \<longleftrightarrow> subs d2 (cfg_ref cfg) = set (SubscriptionsUIDs cfg)"
    and "c \<noteq> cfg_ref cfg \<Longrightarrow> subs d2 c = subs d c"
proof -
  have i: "inv d1" and s: "subs d1 = subs d" using register_keeps [OF assms(3)] assms(1) by auto
  have f: "foreign_free subs d1 cfg" using assms(2) by (simp add: foreign_free_def s)
  note k = reconcile_keeps [OF i f assms(4)]
  show "inv d2" using k by simp
  show "hosts d2 (cfg_HostName cfg) = Some (cfg_ref cfg)"
    using k register_ok [OF assms(3)] by simp
  show "e = None \<longleftrightarrow> subs d2 (cfg_ref cfg) = set (SubscriptionsUIDs cfg)"
    by (rule reconcile_ok_iff [OF i f assms(4)])
  show "c \<noteq> cfg_ref cfg \<Longrightarrow> subs d2 c = subs d c" using k s by simp
qed

text \<open>Whatever was applied before, the last configuration decides.\<close>

lemma last_configuration:
  assumes "inv d" "\<And>cfg'. cfg' \<in> set (cfgs @ [cfg]) \<Longrightarrow> cfg_ref cfg' = c \<and> foreign_free subs d cfg'"
    and "reconcile cfg (fold (\<lambda>cfg d. fst (reconcile cfg d)) cfgs d) = (d', e)"
  shows "subs d' c = set (SubscriptionsUIDs cfg) - failed_uids e"
    and "e = None \<longleftrightarrow> subs d' c = set (SubscriptionsUIDs cfg)"
proof -
  let ?d = "fold (\<lambda>cfg d. fst (reconcile cfg d)) cfgs d"
  from run_keeps [OF assms(1), of cfgs c] assms(2)
  have "inv ?d" "\<forall>c'. c' \<noteq> c \<longrightarrow> subs ?d c' = subs d c'" by auto
  moreover from this(2) assms(2) [of cfg] have "foreign_free subs ?d cfg" by (auto simp: foreign_free_def)
  moreover have "cfg_ref cfg = c" using assms(2) [of cfg] by simp
  ultimately show "subs d' c = set (SubscriptionsUIDs cfg) - failed_uids e"
    "e = None \<longleftrightarrow> subs d' c = set (SubscriptionsUIDs cfg)"
    using reconcile_subs [OF _ _ assms(3)] reconcile_ok_iff [OF _ _ assms(3)] by simp_all
qed

end

text \<open>
  The Kafka dispatcher provides it, for every order in which Go may iterate over the sets of
  subscriptions, and whatever Kafka answers.
\<close>

locale kafka_dispatcher = adds: go_range ordAdd + removes: go_range ordRemove
  for ordAdd :: "uid set \<Rightarrow> uid list" and ordRemove :: "uid set \<Rightarrow> uid list" +
  fixes startCG :: start_fun and closeCG :: close_fun and topic :: string

sublocale kafka_dispatcher \<subseteq> disp: channel_dispatcher disp_inv channel_subs d_hostToChannelMap
  RegisterChannelHost "ReconcileConsumers startCG closeCG topic ordAdd ordRemove"
proof unfold_locales
  fix cfg d d' e
  assume r: "RegisterChannelHost cfg d = (d', e)"
  show "disp_inv d' = disp_inv d \<and> channel_subs d' = channel_subs d"
    using RegisterChannelHost_spec(1,2) [OF r] by simp
  show "d_hostToChannelMap d' = (case d_hostToChannelMap d (cfg_HostName cfg) of
      None \<Rightarrow> (d_hostToChannelMap d)(cfg_HostName cfg \<mapsto> cfg_ref cfg) | Some _ \<Rightarrow> d_hostToChannelMap d)"
    by (rule RegisterChannelHost_spec(3) [OF r])
  show "e = None \<longleftrightarrow> d_hostToChannelMap d' (cfg_HostName cfg) = Some (cfg_ref cfg)"
    by (rule RegisterChannelHost_spec(4) [OF r])
next
  fix cfg d d' e
  assume h: "disp_inv d" "foreign_free channel_subs d cfg"
    "ReconcileConsumers startCG closeCG topic ordAdd ordRemove cfg d = (d', e)"
  note sp = ReconcileConsumers_spec [OF h(1) adds.go_range_axioms removes.go_range_axioms h(2,3)]
  show "disp_inv d' \<and> d_hostToChannelMap d' = d_hostToChannelMap d \<and>
      (\<forall>c. c \<noteq> cfg_ref cfg \<longrightarrow> channel_subs d' c = channel_subs d c)"
    using sp(1) by (simp add: frame_def)
  show "channel_subs d' (cfg_ref cfg) = set (SubscriptionsUIDs cfg) - failed_uids e" by (rule sp(2))
  show "e = None \<longleftrightarrow> failed_uids e = {}" by (rule sp(4))
  show "failed_uids e \<subseteq> set (SubscriptionsUIDs cfg) - channel_subs d (cfg_ref cfg)" by (rule sp(3))
qed

context kafka_dispatcher
begin

lemmas dispatcher_ok_iff = disp.reconcile_ok_iff
lemmas dispatcher_fixpoint = disp.reconcile_fixpoint
lemmas dispatcher_last_configuration = disp.last_configuration

end

interpretation sorted_dispatcher: kafka_dispatcher sorted_list_of_set sorted_list_of_set startCG closeCG topic
  for startCG closeCG topic
  by unfold_locales

section \<open>Names of consumer groups\<close>

lemma go_split_groupID:
  assumes "CHR ''.'' \<notin> set (nn_Namespace c)" "CHR ''.'' \<notin> set u"
  shows "go_split CHR ''.'' (groupID c u) =
           ''kafka'' # nn_Namespace c # go_split CHR ''.'' (nn_Name c) @ [u]"
proof -
  have tail: "go_split CHR ''.'' (w @ CHR ''.'' # u) = go_split CHR ''.'' w @ [u]" for w
    by (induction w) (auto simp: go_split_no_sep assms(2) split: list.splits)
  have "groupID c u = ''kafka'' @ CHR ''.'' # (nn_Namespace c @ CHR ''.'' # (nn_Name c @ CHR ''.'' # u))"
    by (simp add: groupID_def)
  then show ?thesis
    by (simp only: go_split_append tail assms(1)) (simp add: go_split_append tail assms(1))
qed

lemma groupID_inj:
  assumes "CHR ''.'' \<notin> set (nn_Namespace c)" "CHR ''.'' \<notin> set u"
    and "CHR ''.'' \<notin> set (nn_Namespace c')" "CHR ''.'' \<notin> set u'"
    and "groupID c u = groupID c' u'"
  shows "c = c' \<and> u = u'"
proof -
  from assms(5) have "nn_Namespace c # go_split CHR ''.'' (nn_Name c) @ [u] =
      nn_Namespace c' # go_split CHR ''.'' (nn_Name c') @ [u']"
    using go_split_groupID [OF assms(1,2)] go_split_groupID [OF assms(3,4)] by simp
  then have "nn_Namespace c = nn_Namespace c'" "go_split CHR ''.'' (nn_Name c) = go_split CHR ''.'' (nn_Name c')" "u = u'"
    by auto
  moreover from this(2) have "nn_Name c = nn_Name c'" by (metis go_join_split)
  ultimately show ?thesis by simp
qed

section \<open>Reachable dispatchers\<close>

text \<open>
  Everything that may happen to a dispatcher, in any order: reconciling a channel whose subscriptions
  belong to no other channel, registering a host, cleaning up a channel, and a \<open>SetReady\<close> of any
  consumer group at any time.
\<close>

inductive disp_reachable :: "KafkaDispatcher \<Rightarrow> bool" where
  new: "disp_reachable NewDispatcher"
| reconcile: "disp_reachable d \<Longrightarrow> go_range ordAdd \<Longrightarrow> go_range ordRemove \<Longrightarrow> foreign_free channel_subs d cfg \<Longrightarrow>
    disp_reachable (fst (ReconcileConsumers startCG closeCG topic ordAdd ordRemove cfg d))"
| register: "disp_reachable d \<Longrightarrow> disp_reachable (fst (RegisterChannelHost cfg d))"
| cleanup: "disp_reachable d \<Longrightarrow> go_range ord \<Longrightarrow> disp_reachable (fst (CleanupChannel closeCG ord name ns host d))"
| set_ready: "disp_reachable d \<Longrightarrow> disp_reachable (group_SetReady g p b d)"

lemma disp_reachable_inv: "disp_reachable d \<Longrightarrow> disp_inv d"
proof (induction rule: disp_reachable.induct)
  case new
  then show ?case by (rule NewDispatcher_inv)
next
  case (reconcile d ordAdd ordRemove cfg startCG closeCG topic)
  obtain d' e where r: "ReconcileConsumers startCG closeCG topic ordAdd ordRemove cfg d = (d', e)" by fastforce
  from ReconcileConsumers_frame [OF reconcile.IH reconcile.hyps(2,3,4) r] r show ?case by (simp add: frame_def)
next
  case (register d cfg)
  obtain d' e where r: "RegisterChannelHost cfg d = (d', e)" by fastforce
  with RegisterChannelHost_spec(2) [OF r] register.IH show ?case by simp
next
  case (cleanup d ord closeCG name ns host)
  obtain d' e where r: "CleanupChannel closeCG ord name ns host d = (d', e)" by fastforce
  with CleanupChannel_spec(1) [OF cleanup.IH cleanup.hyps(2) r] show ?case by simp
next
  case (set_ready d g p b)
  then show ?case by (simp add: group_SetReady_inv)
qed

section \<open>Main properties\<close>

definition sample_subscription :: "uid \<Rightarrow> Subscription" where
  "sample_subscription u = zero_Subscription\<lparr>sub_UID := u\<rparr>"

definition sample_config :: "uid list \<Rightarrow> ChannelConfig" where
  "sample_config us =
     \<lparr>cfg_Namespace = ''ns'', cfg_Name = ''ch'', cfg_HostName = ''ch-kn-channel.ns.svc.cluster.local'',
      cfg_Subscriptions = map sample_subscription us\<rparr>"

lemma sample_config_simps [simp]:
  "SubscriptionsUIDs (sample_config us) = us" "cfg_ref (sample_config us) = \<lparr>nn_Namespace = ''ns'', nn_Name = ''ch''\<rparr>"
  by (simp_all add: sample_config_def SubscriptionsUIDs_def cfg_ref_def sample_subscription_def o_def)

lemma channel_subs_NewDispatcher [simp]: "channel_subs NewDispatcher c = {}"
  by (simp add: channel_subs_def NewDispatcher_def)

lemma foreign_free_NewDispatcher [simp]: "foreign_free channel_subs NewDispatcher cfg"
  by (simp add: foreign_free_def)

text \<open>
  C1: Whatever happens to a dispatcher and whatever Kafka answers, no consumer group leaks: the groups
  that were started and not closed are exactly the ones held for the subscriptions, one for each
  subscription of each channel, started under the group name of that channel and subscription, and
  writing to the readiness object that the channel map holds.
\<close>

theorem no_consumer_group_leak:
  assumes "disp_reachable d"
  shows "open_groups (d_log d) = ran (d_subsConsumerGroups d) \<and>
         dom (d_subsConsumerGroups d) = dom (d_subscriptions d) \<and>
         dom (d_subscriptions d) = (\<Union>c. channel_subs d c) \<and>
         (\<forall>g \<in> open_groups (d_log d). \<exists>c u. u \<in> channel_subs d c \<and> d_subsConsumerGroups d u = Some g \<and>
            GetConsumerGroup (cg_handler g) = groupID c u \<and> d_channelSubscriptions d c = Some (cg_ks g))"
proof -
  note inv = disp_reachable_inv [OF assms]
  have "\<exists>c u. u \<in> channel_subs d c \<and> d_subsConsumerGroups d u = Some g \<and>
      GetConsumerGroup (cg_handler g) = groupID c u \<and> d_channelSubscriptions d c = Some (cg_ks g)"
    if "g \<in> open_groups (d_log d)" for g
  proof -
    from open_groups_owned [OF inv that] obtain c u where
      u: "u \<in> channel_subs d c" "d_subsConsumerGroups d u = Some g" "GetConsumerGroup (cg_handler g) = groupID c u" .
    with inv have "d_channelSubscriptions d c = Some (cg_ks g)"
      unfolding disp_inv_def groups_inv_def by blast
    with u show ?thesis by blast
  qed
  with inv show ?thesis by (simp add: disp_inv_def subs_inv_def groups_inv_def)
qed

definition sample_dispatcher :: KafkaDispatcher where
  "sample_dispatcher =
     fst (ReconcileConsumers (\<lambda>_ _ _. None) (\<lambda>_ _. None) ''topic'' sorted_list_of_set sorted_list_of_set
            (sample_config [''u'']) NewDispatcher)"

lemma sample_dispatcher_reachable: "disp_reachable sample_dispatcher"
  unfolding sample_dispatcher_def
  by (rule disp_reachable.reconcile [OF disp_reachable.new sorted_range.go_range_axioms sorted_range.go_range_axioms]) simp

lemma sample_dispatcher_inv: "disp_inv sample_dispatcher"
  by (rule disp_reachable_inv [OF sample_dispatcher_reachable])

lemma sample_dispatcher_channels:
  "d_channelSubscriptions sample_dispatcher = [\<lparr>nn_Namespace = ''ns'', nn_Name = ''ch''\<rparr> \<mapsto> 0]"
  by (simp add: sample_dispatcher_def ReconcileConsumers_def sample_config_def SubscriptionsUIDs_def cfg_ref_def
      sample_subscription_def zero_Subscription_def NewDispatcher_def subscribe_def get_or_create_def Let_def)

lemma sample_dispatcher_groups: "d_subsConsumerGroups sample_dispatcher ''u'' \<noteq> None"
  by (simp add: sample_dispatcher_def ReconcileConsumers_def sample_config_def SubscriptionsUIDs_def cfg_ref_def
      sample_subscription_def zero_Subscription_def NewDispatcher_def subscribe_def get_or_create_def Let_def)

theorem no_consumer_group_leak_witness:
  "open_groups (d_log sample_dispatcher) = ran (d_subsConsumerGroups sample_dispatcher) \<and>
   ''u'' \<in> (\<Union>c. channel_subs sample_dispatcher c)"
  using no_consumer_group_leak [OF sample_dispatcher_reachable] sample_dispatcher_groups by (metis domIff)

text \<open>
  C6: What \<open>ReconcileConsumers\<close> achieves: the channel ends up with the configured subscriptions less
  the ones it reports as failed; only subscriptions that were new can fail; nil is returned exactly
  when the channel has all configured subscriptions; and no other channel is touched.
\<close>

theorem reconcile_consumers:
  assumes "disp_inv d" and "go_range ordAdd" and "go_range ordRemove" and "foreign_free channel_subs d cfg"
    and "ReconcileConsumers startCG closeCG topic ordAdd ordRemove cfg d = (d', e)"
  shows "disp_inv d' \<and>
         channel_subs d' (cfg_ref cfg) = set (SubscriptionsUIDs cfg) - failed_uids e \<and>
         failed_uids e \<subseteq> set (SubscriptionsUIDs cfg) - channel_subs d (cfg_ref cfg) \<and>
         (e = None \<longleftrightarrow> channel_subs d' (cfg_ref cfg) = set (SubscriptionsUIDs cfg)) \<and>
         (\<forall>c. c \<noteq> cfg_ref cfg \<longrightarrow> channel_subs d' c = channel_subs d c)"
proof -
  note sp = ReconcileConsumers_spec [OF assms]
  have "kafka_dispatcher ordAdd ordRemove" using assms(2,3) by (simp add: kafka_dispatcher_def)
  from kafka_dispatcher.dispatcher_ok_iff [OF this assms(1,4,5)] sp show ?thesis
    by (simp add: frame_def)
qed

theorem reconcile_consumers_witness:
  "channel_subs sample_dispatcher \<lparr>nn_Namespace = ''ns'', nn_Name = ''ch''\<rparr> =
     {''u''} - failed_uids (snd (ReconcileConsumers (\<lambda>_ _ _. None) (\<lambda>_ _. None) ''topic''
        sorted_list_of_set sorted_list_of_set (sample_config [''u'']) NewDispatcher))"
proof -
  let ?r = "ReconcileConsumers (\<lambda>_ _ _. None) (\<lambda>_ _. None) ''topic'' sorted_list_of_set sorted_list_of_set
        (sample_config [''u'']) NewDispatcher"
  have "?r = (fst ?r, snd ?r)" by simp
  from reconcile_consumers [OF NewDispatcher_inv sorted_range.go_range_axioms sorted_range.go_range_axioms
      foreign_free_NewDispatcher this]
  show ?thesis by (simp add: sample_dispatcher_def)
qed

text \<open>
  Convergence: apply any configurations of a channel one after the other, with any failures; what
  the channel has at the end is decided by the last one, and it is exactly the configured set
  precisely when the last call returned nil.
\<close>

lemma last_configuration_decides:
  assumes "disp_inv d" and "go_range ordAdd" and "go_range ordRemove"
    and "\<forall>cfg' \<in> set (cfgs @ [cfg]). cfg_ref cfg' = c \<and> foreign_free channel_subs d cfg'"
    and "ReconcileConsumers startCG closeCG topic ordAdd ordRemove cfg
           (fold (\<lambda>cfg d. fst (ReconcileConsumers startCG closeCG topic ordAdd ordRemove cfg d)) cfgs d) = (d', e)"
  shows "channel_subs d' c = set (SubscriptionsUIDs cfg) - failed_uids e \<and>
         (e = None \<longleftrightarrow> channel_subs d' c = set (SubscriptionsUIDs cfg))"
proof -
  have k: "kafka_dispatcher ordAdd ordRemove" using assms(2,3) by (simp add: kafka_dispatcher_def)
  note last = kafka_dispatcher.dispatcher_last_configuration [OF k assms(1) _ assms(5), of c]
  show ?thesis using last assms(4) by blast
qed

text \<open>
  A subscription that stays configured is left alone: its consumer group is neither closed nor
  restarted, and the stored subscription stays the one it was first subscribed with, even if the new
  configuration has another subscriber, reply or retry policy for the same UID.
\<close>

lemma kept_subscription_unchanged:
  assumes "disp_inv d" and "go_range ordAdd" and "go_range ordRemove" and "foreign_free channel_subs d cfg"
    and "ReconcileConsumers startCG closeCG topic ordAdd ordRemove cfg d = (d', e)"
    and "u \<in> channel_subs d (cfg_ref cfg)" and "u \<in> set (SubscriptionsUIDs cfg)"
  shows "u \<in> channel_subs d' (cfg_ref cfg) \<and> d_subscriptions d' u = d_subscriptions d u \<and>
         d_subsConsumerGroups d' u = d_subsConsumerGroups d u"
  using ReconcileConsumers_kept [OF assms] by blast

lemma sample_dispatcher_subs: "channel_subs sample_dispatcher \<lparr>nn_Namespace = ''ns'', nn_Name = ''ch''\<rparr> = {''u''}"
  by (simp add: channel_subs_def sample_dispatcher_def ReconcileConsumers_def sample_config_def SubscriptionsUIDs_def cfg_ref_def
      sample_subscription_def zero_Subscription_def NewDispatcher_def subscribe_def get_or_create_def Let_def)

lemma sample_dispatcher_other: "c \<noteq> \<lparr>nn_Namespace = ''ns'', nn_Name = ''ch''\<rparr> \<Longrightarrow> channel_subs sample_dispatcher c = {}"
  by (simp add: channel_subs_def sample_dispatcher_def ReconcileConsumers_def sample_config_def SubscriptionsUIDs_def cfg_ref_def
      sample_subscription_def zero_Subscription_def NewDispatcher_def subscribe_def get_or_create_def Let_def)

lemma sample_dispatcher_free: "foreign_free channel_subs sample_dispatcher (sample_config us)"
  using sample_dispatcher_other by (simp add: foreign_free_def)

text \<open>
  Two different subscriptions never share a Kafka consumer group: for namespaces and UIDs without
  dots (which Kubernetes guarantees), the name of the group determines channel and subscription.
\<close>

lemma group_id_injective:
  assumes "CHR ''.'' \<notin> set (nn_Namespace c)" and "CHR ''.'' \<notin> set u"
    and "CHR ''.'' \<notin> set (nn_Namespace c')" and "CHR ''.'' \<notin> set u'"
    and "groupID c u = groupID c' u'"
  shows "c = c' \<and> u = u'"
  using groupID_inj [OF assms] .

text \<open>
  A host belongs to the channel that registered it first: registration succeeds exactly when the
  host then resolves to the channel, and no host that resolved to a channel ever changes hands by a
  registration.
\<close>

lemma host_never_stolen:
  assumes "RegisterChannelHost cfg d = (d', e)"
  shows "(e = None \<longleftrightarrow> getChannelReferenceFromHost (cfg_HostName cfg) d' = Inr (cfg_ref cfg)) \<and>
         (\<forall>h c. getChannelReferenceFromHost h d = Inr c \<longrightarrow> getChannelReferenceFromHost h d' = Inr c) \<and>
         (\<forall>h. h \<noteq> cfg_HostName cfg \<longrightarrow> getChannelReferenceFromHost h d' = getChannelReferenceFromHost h d)"
  using RegisterChannelHost_spec(3,4) [OF assms]
  by (auto simp: getChannelReferenceFromHost_def split: option.splits)

text \<open>Cleaning up repeatedly, as an event handler that retries would.\<close>

lemma cleanup_iter:
  assumes "disp_inv d" "go_range ord" "card (channel_subs d \<lparr>nn_Namespace = ns, nn_Name = name\<rparr>) \<le> n"
  shows "channel_subs (((\<lambda>d. fst (CleanupChannel closeCG ord name ns host d)) ^^ n) d) \<lparr>nn_Namespace = ns, nn_Name = name\<rparr> = {}"
  using assms(1,3)
proof (induction n arbitrary: d)
  case 0
  then show ?case using channel_subs_finite by auto
next
  case (Suc n)
  let ?c = "\<lparr>nn_Namespace = ns, nn_Name = name\<rparr>"
  obtain d' e where cl: "CleanupChannel closeCG ord name ns host d = (d', e)" by fastforce
  note sp = CleanupChannel_spec [OF Suc.prems(1) assms(2) cl]
  have "card (channel_subs d' ?c) \<le> n"
  proof (cases "channel_subs d ?c = {}")
    case True
    then show ?thesis using sp(5) by simp
  next
    case False
    from psubset_card_mono [OF channel_subs_finite [OF Suc.prems(1)] sp(6) [OF False]] Suc.prems(2)
    show ?thesis by simp
  qed
  from Suc.IH [OF sp(1) this] cl show ?case by (simp add: funpow_Suc_right del: funpow.simps(2))
qed

text \<open>
  C32: Cleaning up a channel releases its host and its subscriptions and nothing else: nil means that no
  subscription is left; an error still unsubscribes at least one; so after as many calls as the channel
  has subscriptions none is left, whatever Kafka answers when the consumer groups are closed.
\<close>

theorem cleanup_channel:
  assumes "disp_inv d" and "go_range ord"
    and "CleanupChannel closeCG ord name ns host d = (d', e)"
    and "card (channel_subs d \<lparr>nn_Namespace = ns, nn_Name = name\<rparr>) \<le> n"
  shows "disp_inv d' \<and>
         d_hostToChannelMap d' = (d_hostToChannelMap d)(host := None) \<and>
         (\<forall>c. c \<noteq> \<lparr>nn_Namespace = ns, nn_Name = name\<rparr> \<longrightarrow> channel_subs d' c = channel_subs d c) \<and>
         (e = None \<longrightarrow> channel_subs d' \<lparr>nn_Namespace = ns, nn_Name = name\<rparr> = {}) \<and>
         channel_subs (((\<lambda>d. fst (CleanupChannel closeCG ord name ns host d)) ^^ n) d) \<lparr>nn_Namespace = ns, nn_Name = name\<rparr> = {}"
  using CleanupChannel_spec [OF assms(1-3)] cleanup_iter [OF assms(1,2,4)] by blast

theorem cleanup_channel_witness:
  "channel_subs (fst (CleanupChannel (\<lambda>_ _. Some (ErrorText ''close'')) sorted_list_of_set ''ch'' ''ns'' ''h'' sample_dispatcher))
     \<lparr>nn_Namespace = ''ns'', nn_Name = ''ch''\<rparr> = {}"
proof -
  let ?f = "CleanupChannel (\<lambda>_ _. Some (ErrorText ''close'')) sorted_list_of_set ''ch'' ''ns'' ''h''"
  have "?f sample_dispatcher = (fst (?f sample_dispatcher), snd (?f sample_dispatcher))" by simp
  from cleanup_channel [OF sample_dispatcher_inv sorted_range.go_range_axioms this, of 1] show ?thesis
    by (simp add: sample_dispatcher_subs)
qed

end
