(* ===== verification/DispatcherReconciler.thy ===== *)
theory DispatcherReconciler
  imports Lifecycle Dispatcher
begin

text \<open>
  The reconciler inside the dispatcher process (\<open>reconciler/dispatcher/kafkachannel.go\<close>): it turns a
  ready channel into a configuration and drives the dispatcher with it. A nil dereference is the
  outcome \<open>Panics\<close>.
\<close>

text \<open>The conversion of the subscribers; a failed conversion yields the nil pointer that is dereferenced.\<close>

fun convert_subscribers ::
  "(string \<Rightarrow> go_error + int) \<Rightarrow> SubscriberSpec list \<Rightarrow> Subscription list outcome" where
  "convert_subscribers parsePeriod [] = Returns []"
| "convert_subscribers parsePeriod (source # sources) =
     (case SubscriberSpecToFanoutConfig parsePeriod source of
        Inl _ \<Rightarrow> Panics
      | Inr innerSub \<Rightarrow>
          (case convert_subscribers parsePeriod sources of
             Panics \<Rightarrow> Panics
           | Returns subs \<Rightarrow> Returns (\<lparr>sub_UID = ss_UID source, sub_fanout = innerSub\<rparr> # subs)))"

definition newConfigFromKafkaChannel ::
  "(string \<Rightarrow> go_error + int) \<Rightarrow> KafkaTopicChannel \<Rightarrow> ChannelConfig outcome" where
  "newConfigFromKafkaChannel parsePeriod c =
     (case st_Address (kc_Status c) of
        Some (Some url) \<Rightarrow>
          (case convert_subscribers parsePeriod (sp_Subscribers (kc_Spec c)) of
             Panics \<Rightarrow> Panics
           | Returns subs \<Rightarrow>
               Returns \<lparr>cfg_Namespace = kc_Namespace c, cfg_Name = kc_Name c,
                        cfg_HostName = url_Host url, cfg_Subscriptions = subs\<rparr>)
      | _ \<Rightarrow> Panics)"

definition syncChannel ::
  "(string \<Rightarrow> go_error + int) \<Rightarrow> start_fun \<Rightarrow> close_fun \<Rightarrow> string \<Rightarrow> (uid set \<Rightarrow> uid list) \<Rightarrow> (uid set \<Rightarrow> uid list) \<Rightarrow>
   KafkaTopicChannel \<Rightarrow> KafkaDispatcher \<Rightarrow> (KafkaDispatcher \<times> go_error option) outcome" where
  "syncChannel parsePeriod startCG closeCG topic ordAdd ordRemove kc d =
     (if \<not> IsReady_status (kc_Status kc) then Returns (d, None)
      else
        (case newConfigFromKafkaChannel parsePeriod kc of
           Panics \<Rightarrow> Panics
         | Returns config \<Rightarrow>
             (case RegisterChannelHost config d of
                (d1, Some err) \<Rightarrow> Returns (d1, Some err)
              | (d1, None) \<Rightarrow>
                  (case ReconcileConsumers startCG closeCG topic ordAdd ordRemove config d1 of
                     (d2, Some err) \<Rightarrow>
                       Returns (d2, Some (ErrorText (''some kafka subscriptions failed to subscribe: '' @ UpdateError_Error ordAdd err)))
                   | (d2, None) \<Rightarrow> Returns (d2, None)))))"

definition sync_ReconcileKind where
  "sync_ReconcileKind = syncChannel"

definition ObserveKind where
  "ObserveKind = syncChannel"

definition reconciler_CleanupChannel ::
  "close_fun \<Rightarrow> (uid set \<Rightarrow> uid list) \<Rightarrow> KafkaTopicChannel \<Rightarrow> KafkaDispatcher \<Rightarrow> (KafkaDispatcher \<times> go_error option) outcome" where
  "reconciler_CleanupChannel closeCG ord kc d =
     (case st_Address (kc_Status kc) of
        Some (Some url) \<Rightarrow> Returns (CleanupChannel closeCG ord (kc_Name kc) (kc_Namespace kc) (url_Host url) d)
      | _ \<Rightarrow> Panics)"

section \<open>Which events reach the reconciler\<close>

text \<open>
  An informer delivers objects; a deletion that was missed comes as a tombstone
  (\<open>DeletedFinalStateUnknown\<close>) around the last known object, which is not itself a \<open>metav1.Object\<close>.
  \<open>Enqueue\<close> sees through a tombstone, the type assertion of the deletion handler does not.
  \<open>event_action\<close> is the filtered event handler of \<open>NewController\<close>.
\<close>

datatype informer_object = ChannelObject KafkaTopicChannel | Tombstone KafkaTopicChannel

datatype informer_event = OnAdd informer_object | OnUpdate informer_object informer_object | OnDelete informer_object

datatype channel_action = Enqueue KafkaTopicChannel | CleanUp KafkaTopicChannel | Ignore | Crash

fun NameAndNamespaceFilterFunc :: "string \<Rightarrow> string \<Rightarrow> informer_object \<Rightarrow> bool" where
  "NameAndNamespaceFilterFunc name namespace (ChannelObject mo) \<longleftrightarrow>
     kc_Namespace mo = namespace \<and> kc_Name mo = name"
| "NameAndNamespaceFilterFunc name namespace (Tombstone _) \<longleftrightarrow> False"

fun on_add :: "informer_object \<Rightarrow> channel_action" where
  "on_add (ChannelObject kc) = Enqueue kc"
| "on_add (Tombstone kc) = Enqueue kc"

fun on_delete :: "informer_object \<Rightarrow> channel_action" where
  "on_delete (ChannelObject kc) = CleanUp kc"
| "on_delete (Tombstone _) = Crash"

fun event_action :: "string \<Rightarrow> string \<Rightarrow> informer_event \<Rightarrow> channel_action" where
  "event_action name ns (OnAdd obj) = (if NameAndNamespaceFilterFunc name ns obj then on_add obj else Ignore)"
| "event_action name ns (OnUpdate old new) =
     (let newer = NameAndNamespaceFilterFunc name ns new; older = NameAndNamespaceFilterFunc name ns old in
      if newer then on_add new else if older then on_delete old else Ignore)"
| "event_action name ns (OnDelete obj) = (if NameAndNamespaceFilterFunc name ns obj then on_delete obj else Ignore)"

section \<open>Properties\<close>

lemma convert_subscribers_Panics_iff:
  "convert_subscribers pp ss = Panics \<longleftrightarrow> (\<exists>s \<in> set ss. \<not> delivery_ok pp s)"
proof (induction ss)
  case Nil
  then show ?case by simp
next
  case (Cons s ss)
  have "isl (SubscriberSpecToFanoutConfig pp s) \<longleftrightarrow> \<not> delivery_ok pp s"
    by (rule SubscriberSpecToFanoutConfig_isl)
  with Cons.IH show ?case by (auto split: sum.splits outcome.splits)
qed

lemma convert_subscribers_uids:
  "convert_subscribers pp ss = Returns subs \<Longrightarrow> map sub_UID subs = map ss_UID ss"
  by (induction ss arbitrary: subs) (auto split: sum.splits outcome.splits)

definition has_address :: "KafkaTopicChannel \<Rightarrow> Url \<Rightarrow> bool" where
  "has_address kc url \<longleftrightarrow> st_Address (kc_Status kc) = Some (Some url)"

lemma newConfig_Returns:
  assumes "newConfigFromKafkaChannel pp kc = Returns cfg"
  shows "SubscriptionsUIDs cfg = map ss_UID (sp_Subscribers (kc_Spec kc))"
    and "cfg_ref cfg = \<lparr>nn_Namespace = kc_Namespace kc, nn_Name = kc_Name kc\<rparr>"
    and "\<exists>url. has_address kc url \<and> cfg_HostName cfg = url_Host url"
  using assms convert_subscribers_uids
  by (auto simp: newConfigFromKafkaChannel_def SubscriptionsUIDs_def cfg_ref_def has_address_def
      split: option.splits outcome.splits)

lemma newConfig_Panics_iff:
  "newConfigFromKafkaChannel pp kc = Panics \<longleftrightarrow>
     \<not> (\<exists>url. has_address kc url) \<or> (\<exists>s \<in> set (sp_Subscribers (kc_Spec kc)). \<not> delivery_ok pp s)"
  by (auto simp: newConfigFromKafkaChannel_def has_address_def convert_subscribers_Panics_iff [symmetric]
      split: option.splits outcome.splits)

abbreviation kc_ref :: "KafkaTopicChannel \<Rightarrow> NamespacedName" where
  "kc_ref kc \<equiv> \<lparr>nn_Namespace = kc_Namespace kc, nn_Name = kc_Name kc\<rparr>"

definition kc_uids :: "KafkaTopicChannel \<Rightarrow> uid set" where
  "kc_uids kc = set (map ss_UID (sp_Subscribers (kc_Spec kc)))"

lemma syncChannel_Panics_iff:
  "syncChannel pp startCG closeCG topic ordAdd ordRemove kc d = Panics \<longleftrightarrow>
     IsReady_status (kc_Status kc) \<and>
     (\<not> (\<exists>url. has_address kc url) \<or> (\<exists>s \<in> set (sp_Subscribers (kc_Spec kc)). \<not> delivery_ok pp s))"
  unfolding newConfig_Panics_iff [symmetric]
  by (auto simp: syncChannel_def split: outcome.splits prod.splits option.splits)

context kafka_dispatcher
begin

lemma syncChannel_Returns:
  assumes inv: "disp_inv d" and uniq: "\<And>c. c \<noteq> kc_ref kc \<Longrightarrow> channel_subs d c \<inter> kc_uids kc = {}"
    and ready: "IsReady_status (kc_Status kc)"
    and sync: "syncChannel pp startCG closeCG topic ordAdd ordRemove kc d = Returns (d', e)"
  shows "disp_inv d'"
    and "e = None \<longleftrightarrow> channel_subs d' (kc_ref kc) = kc_uids kc \<and>
           (\<exists>url. has_address kc url \<and> d_hostToChannelMap d' (url_Host url) = Some (kc_ref kc))"
    and "c \<noteq> kc_ref kc \<Longrightarrow> channel_subs d' c = channel_subs d c"
proof -
  from ready sync obtain cfg where cfg: "newConfigFromKafkaChannel pp kc = Returns cfg"
    by (auto simp: syncChannel_def split: outcome.splits)
  note nc = newConfig_Returns [OF cfg]
  have uids: "set (SubscriptionsUIDs cfg) = kc_uids kc" by (simp add: nc(1) kc_uids_def)
  have free: "foreign_free channel_subs d cfg" using uniq by (simp add: foreign_free_def nc(2) uids)
  obtain url where url: "has_address kc url" "cfg_HostName cfg = url_Host url" using nc(3) by blast
  have url_unique: "url' = url" if "has_address kc url'" for url'
    using that url(1) by (simp add: has_address_def)
  obtain d1 re where r: "RegisterChannelHost cfg d = (d1, re)" by fastforce
  have concl: "disp_inv d' \<and> (e = None \<longleftrightarrow> channel_subs d' (kc_ref kc) = kc_uids kc \<and>
      d_hostToChannelMap d' (url_Host url) = Some (kc_ref kc)) \<and>
      (c \<noteq> kc_ref kc \<longrightarrow> channel_subs d' c = channel_subs d c)"
  proof (cases re)
    case (Some x)
    then have "d' = d1" "e = Some x" using sync ready cfg r by (auto simp: syncChannel_def)
    then show ?thesis
      using disp.register_keeps [OF r] disp.register_ok [OF r] inv Some by (simp add: nc(2) url(2))
  next
    case None
    obtain d2 ue where rc: "ReconcileConsumers startCG closeCG topic ordAdd ordRemove cfg d1 = (d2, ue)" by fastforce
    have "d' = d2" "e = None \<longleftrightarrow> ue = None"
      using sync ready cfg r rc None by (auto simp: syncChannel_def split: option.splits)
    then show ?thesis
      using disp.register_reconcile [OF inv free r [unfolded None] rc] by (simp add: nc(2) url(2) uids)
  qed
  show "disp_inv d'" using concl by simp
  show "e = None \<longleftrightarrow> channel_subs d' (kc_ref kc) = kc_uids kc \<and>
      (\<exists>url. has_address kc url \<and> d_hostToChannelMap d' (url_Host url) = Some (kc_ref kc))"
    using concl url(1) url_unique by blast
  show "c \<noteq> kc_ref kc \<Longrightarrow> channel_subs d' c = channel_subs d c" using concl by simp
qed

end

section \<open>Main properties\<close>

text \<open>
  C10: Synchronising a ready channel converges: with an address and well-formed retry policies the
  reconciler does not crash, keeps the dispatcher's invariant and the other channels, and returns nil
  exactly when the dispatcher then has the channel's subscriptions and its host resolves to it.
\<close>

theorem sync_converges:
  assumes "disp_inv d" and "go_range ordAdd" and "go_range ordRemove"
    and "\<And>c. c \<noteq> kc_ref kc \<Longrightarrow> channel_subs d c \<inter> kc_uids kc = {}"
    and "IsReady_status (kc_Status kc)" and "has_address kc url"
    and "\<forall>s \<in> set (sp_Subscribers (kc_Spec kc)). delivery_ok pp s"
  shows "\<exists>d' e. syncChannel pp startCG closeCG topic ordAdd ordRemove kc d = Returns (d', e) \<and> disp_inv d' \<and>
           (e = None \<longleftrightarrow> channel_subs d' (kc_ref kc) = kc_uids kc \<and>
              getChannelReferenceFromHost (url_Host url) d' = Inr (kc_ref kc)) \<and>
           (\<forall>c. c \<noteq> kc_ref kc \<longrightarrow> channel_subs d' c = channel_subs d c)"
proof -
  have kd: "kafka_dispatcher ordAdd ordRemove" using assms(2,3) by (simp add: kafka_dispatcher_def)
  have "syncChannel pp startCG closeCG topic ordAdd ordRemove kc d \<noteq> Panics"
    using assms(6,7) by (auto simp: syncChannel_Panics_iff)
  then obtain d' e where s: "syncChannel pp startCG closeCG topic ordAdd ordRemove kc d = Returns (d', e)"
    by (metis outcome.exhaust surj_pair)
  note ret = kafka_dispatcher.syncChannel_Returns [OF kd assms(1,4,5) s]
  have "(\<exists>u. has_address kc u \<and> d_hostToChannelMap d' (url_Host u) = Some (kc_ref kc)) \<longleftrightarrow>
      getChannelReferenceFromHost (url_Host url) d' = Inr (kc_ref kc)"
    using assms(6) by (auto simp: has_address_def getChannelReferenceFromHost_def split: option.splits)
  with ret s show ?thesis by auto
qed

text \<open>A channel as the dispatcher sees it once the controller has reported it ready.\<close>

definition sample_served_channel :: "SubscriberSpec list \<Rightarrow> KafkaTopicChannel" where
  "sample_served_channel subs =
     (sample_channel 1 subs)\<lparr>kc_Status := sample_status
        \<lparr>st_Conditions := [mkCondition kc_condSet ConditionReady ConditionTrue '''' ''''],
         st_Address := Some (Some \<lparr>url_Scheme = ''http'', url_Host = ''ch-kn-channel.ns.svc.cluster.local'', url_Path = ''''\<rparr>)\<rparr>\<rparr>"

lemma sample_served_channel_simps [simp]:
  "IsReady_status (kc_Status (sample_served_channel subs))"
  "has_address (sample_served_channel subs) \<lparr>url_Scheme = ''http'', url_Host = ''ch-kn-channel.ns.svc.cluster.local'', url_Path = ''''\<rparr>"
  "sp_Subscribers (kc_Spec (sample_served_channel subs)) = subs"
  "kc_ref (sample_served_channel subs) = \<lparr>nn_Namespace = ''ns'', nn_Name = ''ch''\<rparr>"
  by (simp_all add: sample_served_channel_def IsReady_status_def IsHappy_def GetCondition_def mkCondition_def
      kc_condSet_def NewLivingConditionSet_def newConditionSet_def IsTrue_def has_address_def sample_defs)

theorem sync_converges_witness:
  "\<exists>d' e. syncChannel (\<lambda>_. Inr 0) (\<lambda>_ _ _. None) (\<lambda>_ _. None) ''topic'' sorted_list_of_set sorted_list_of_set
      (sample_served_channel [sample_subscriber ''u'']) NewDispatcher = Returns (d', e) \<and> disp_inv d'"
proof -
  have free: "channel_subs NewDispatcher c \<inter> kc_uids (sample_served_channel [sample_subscriber ''u'']) = {}" for c by simp
  have ok: "\<forall>s \<in> set (sp_Subscribers (kc_Spec (sample_served_channel [sample_subscriber ''u'']))). delivery_ok (\<lambda>_. Inr 0) s"
    by (simp add: delivery_ok_def sample_subscriber_def)
  from sync_converges [OF NewDispatcher_inv sorted_range.go_range_axioms sorted_range.go_range_axioms free
      sample_served_channel_simps(1,2) ok, of "\<lambda>_ _ _. None" "\<lambda>_ _. None" "''topic''"]
  show ?thesis by blast
qed

text \<open>
  C37: When the reconciler crashes: exactly for a channel that is ready and has no address, or has a
  subscriber whose retry policy cannot be parsed (the error is dropped and the nil result used); a
  channel that is not ready is left alone.
\<close>

theorem sync_crashes:
  "(syncChannel pp startCG closeCG topic ordAdd ordRemove kc d = Panics \<longleftrightarrow>
      IsReady_status (kc_Status kc) \<and>
      ((\<nexists>url. has_address kc url) \<or> (\<exists>s \<in> set (sp_Subscribers (kc_Spec kc)). \<not> delivery_ok pp s))) \<and>
   (\<not> IsReady_status (kc_Status kc) \<longrightarrow>
      syncChannel pp startCG closeCG topic ordAdd ordRemove kc d = Returns (d, None))"
  using syncChannel_Panics_iff by (auto simp: syncChannel_def)

theorem sync_crashes_witness:
  "syncChannel (\<lambda>_. Inl (ErrorText ''bad period'')) (\<lambda>_ _ _. None) (\<lambda>_ _. None) ''topic'' sorted_list_of_set sorted_list_of_set
      (sample_served_channel [(sample_subscriber ''u'')\<lparr>ss_Delivery :=
         Some \<lparr>ds_DeadLetterSinkURI = None, ds_Retry = Some 3, ds_BackoffPolicy = Some ''linear'', ds_BackoffDelay = Some ''x''\<rparr>\<rparr>])
      NewDispatcher = Panics"
  by (subst sync_crashes [THEN conjunct1]) (auto simp: delivery_ok_def RetryConfigFromDeliverySpec_def)

text \<open>
  Which events reach the dispatcher: objects of other channels are ignored; the deletion of its own
  channel cleans it up; but a deletion that the informer missed and reports as a tombstone is filtered
  out, so nothing is cleaned up then. No event crashes the handler.
\<close>

lemma events_of_the_channel:
  "event_action name ns (OnDelete (ChannelObject kc)) =
     (if kc_ref kc = \<lparr>nn_Namespace = ns, nn_Name = name\<rparr> then CleanUp kc else Ignore) \<and>
   event_action name ns (OnAdd (ChannelObject kc)) =
     (if kc_ref kc = \<lparr>nn_Namespace = ns, nn_Name = name\<rparr> then Enqueue kc else Ignore) \<and>
   event_action name ns (OnDelete (Tombstone kc)) = Ignore \<and>
   event_action name ns ev \<noteq> Crash"
proof -
  have add: "on_add obj \<noteq> Crash" for obj by (cases obj) auto
  have del: "NameAndNamespaceFilterFunc name ns obj \<Longrightarrow> on_delete obj \<noteq> Crash" for obj by (cases obj) auto
  have "event_action name ns ev \<noteq> Crash" using add del by (cases ev) (auto simp: Let_def)
  then show ?thesis by auto
qed

end
