(* ===== verification/Receiver.thy ===== *)
theory Receiver
  imports Dispatcher
begin

text \<open>
  The receiving side of the dispatcher (\<open>dispatcher.go\<close>, \<open>NewDispatcher\<close> and \<open>Start\<close>): the
  construction of the dispatcher, the function that writes a received event to the topic, and the
  HTTP handler of \<open>knative.dev/eventing\<close> (\<open>message_receiver.go\<close>) that calls it. Encoding an event as a
  Kafka message and sending it are the arguments \<open>write\<close> and \<open>send\<close>.
\<close>

section \<open>Construction\<close>

text \<open>\<open>env.GetRequiredConfigValue\<close>.\<close>

definition GetRequiredConfigValue :: "(string \<rightharpoonup> string) \<Rightarrow> string \<Rightarrow> go_error + string" where
  "GetRequiredConfigValue env key =
     (let value = (case env key of Some v \<Rightarrow> v | None \<Rightarrow> '''') in
      if length value > 0 then Inr value
      else Inl (ErrorText (''missing required environment variable '' @ [CHR 0x27] @ key @ [CHR 0x27])))"

text \<open>
  \<open>NewDispatcher\<close> with its failures: of the producer (\<open>newProducer\<close>), of the two required variables of
  the environment, and of the receiver (\<open>newReceiver\<close>).
\<close>

definition NewDispatcher_result ::
  "(string list \<Rightarrow> go_error option) \<Rightarrow> go_error option \<Rightarrow> (string \<rightharpoonup> string) \<Rightarrow> string list \<Rightarrow> go_error + KafkaDispatcher" where
  "NewDispatcher_result newProducer newReceiver env brokers =
     (case newProducer brokers of
        Some err \<Rightarrow> Inl (ErrorText (''unable to create kafka producer against Kafka bootstrap servers ['' @
                          go_join '' '' brokers @ ''] : '' @ error_text err))
      | None \<Rightarrow>
          (let dispatcher = NewDispatcher in
           case GetRequiredConfigValue env ''POD_NAME'' of
             Inl err \<Rightarrow> Inl err
           | Inr podName \<Rightarrow>
               (case GetRequiredConfigValue env ''CONTAINER_NAME'' of
                  Inl err \<Rightarrow> Inl err
                | Inr containerName \<Rightarrow>
                    (case newReceiver of
                       Some err \<Rightarrow> Inl err
                     | None \<Rightarrow> Inr dispatcher))))"

section \<open>Receiving an event\<close>

record 'p ProducerMessage =
  pm_Topic :: string
  pm_Value :: "'p option"
  pm_Headers :: "(string \<times> string) list"

text \<open>The receiver function; the messages handed to the producer, and the error.\<close>

definition receiverFunc ::
  "string \<Rightarrow> ('m \<Rightarrow> 'p ProducerMessage \<Rightarrow> go_error + 'p ProducerMessage) \<Rightarrow> (string \<times> string) list \<Rightarrow>
   ('p ProducerMessage \<Rightarrow> go_error + int \<times> int) \<Rightarrow> 'm \<Rightarrow> 'p ProducerMessage list \<times> go_error option" where
  "receiverFunc topicName write serializedTrace send message =
     (case write message \<lparr>pm_Topic = topicName, pm_Value = None, pm_Headers = []\<rparr> of
        Inl err \<Rightarrow> ([], Some err)
      | Inr msg \<Rightarrow>
          (let kafkaProducerMessage = msg\<lparr>pm_Headers := pm_Headers msg @ serializedTrace\<rparr> in
           case send kafkaProducerMessage of
             Inl err \<Rightarrow> ([kafkaProducerMessage], Some err)
           | Inr (part, offset) \<Rightarrow> ([kafkaProducerMessage], None)))"

text \<open>A request; \<open>rq_Message\<close> is \<open>None\<close> when the encoding of the event is unknown.\<close>

record 'm EventRequest =
  rq_Method :: string
  rq_Path :: string
  rq_Host :: string
  rq_Message :: "'m option"

text \<open>
  \<open>MessageReceiver.ServeHTTP\<close> with the dispatcher's host lookup, whose only error is an unknown host:
  the status code and the messages handed to the producer. The 404 for an \<open>UnknownChannelError\<close> of the receiver function is
  left out: the dispatcher's receiver function never returns one.
\<close>

definition receiver_ServeHTTP ::
  "('m \<Rightarrow> 'p ProducerMessage list \<times> go_error option) \<Rightarrow> KafkaDispatcher \<Rightarrow> 'm EventRequest \<Rightarrow>
   nat \<times> 'p ProducerMessage list" where
  "receiver_ServeHTTP receive d request =
     (if rq_Method request \<noteq> ''POST'' then (405, [])
      else if rq_Path request \<noteq> ''/'' then (404, [])
      else
        (case getChannelReferenceFromHost (rq_Host request) d of
           Inl err \<Rightarrow> (404, [])
         | Inr channel \<Rightarrow>
             (case rq_Message request of
                None \<Rightarrow> (400, [])
              | Some message \<Rightarrow>
                  (case receive message of
                     (sent, Some err) \<Rightarrow> (500, sent)
                   | (sent, None) \<Rightarrow> (202, sent)))))"

section \<open>Properties\<close>

text \<open>A request that the receiver passes on: a POST of a known event to the root of a registered host.\<close>

definition receivable :: "KafkaDispatcher \<Rightarrow> 'm EventRequest \<Rightarrow> bool" where
  "receivable d r \<longleftrightarrow> rq_Method r = ''POST'' \<and> rq_Path r = ''/'' \<and>
     (\<exists>c. getChannelReferenceFromHost (rq_Host r) d = Inr c) \<and> rq_Message r \<noteq> None"

lemma receiver_not_receivable:
  assumes "receiver_ServeHTTP f d r = (code, sent)" "\<not> receivable d r"
  shows "sent = [] \<and> code \<in> {400, 404, 405}"
  using assms
  by (auto simp: receiver_ServeHTTP_def receivable_def split: if_splits sum.splits option.splits prod.splits)

lemma receiver_receivable:
  assumes "receivable d r"
  shows "receiver_ServeHTTP f d r =
    (case f (the (rq_Message r)) of (sent, e) \<Rightarrow> (if e = None then 202 else 500, sent))"
  using assms
  by (auto simp: receiver_ServeHTTP_def receivable_def split: prod.splits option.splits)

text \<open>
  C11: An event is acknowledged with 202 exactly when it was posted to the root path of a registered host
  in a known encoding, could be written as a Kafka message, and Kafka accepted it; then exactly one
  message was sent, to the channel's topic and with the tracing headers at its end. Every other answer
  is 400, 404, 405 or 500, and without a failure of Kafka itself nothing was sent.
\<close>

theorem event_acknowledged:
  assumes topic: "\<And>m pm pm'. write m pm = Inr pm' \<Longrightarrow> pm_Topic pm' = pm_Topic pm"
    and r: "receiver_ServeHTTP (receiverFunc topicName write trace send) d r = (code, sent)"
  shows "(code = 202 \<longleftrightarrow> receivable d r \<and>
            (\<exists>pm po. write (the (rq_Message r)) \<lparr>pm_Topic = topicName, pm_Value = None, pm_Headers = []\<rparr> = Inr pm \<and>
               send (pm\<lparr>pm_Headers := pm_Headers pm @ trace\<rparr>) = Inr po)) \<and>
         code \<in> {202, 400, 404, 405, 500} \<and>
         (code = 202 \<longrightarrow> length sent = 1) \<and>
         (\<forall>m \<in> set sent. pm_Topic m = topicName \<and> (\<exists>hs. pm_Headers m = hs @ trace)) \<and>
         (sent \<noteq> [] \<longrightarrow> code = 202 \<or> code = 500 \<and> (\<exists>m err. sent = [m] \<and> send m = Inl err))"
proof (cases "receivable d r")
  case False
  with receiver_not_receivable [OF r] show ?thesis by auto
next
  case True
  let ?w = "write (the (rq_Message r)) \<lparr>pm_Topic = topicName, pm_Value = None, pm_Headers = []\<rparr>"
  note run = r [unfolded receiver_receivable [OF True] receiverFunc_def]
  show ?thesis
  proof (cases ?w)
    case (Inl err)
    with run True show ?thesis by auto
  next
    case (Inr pm)
    note t = topic [OF Inr]
    show ?thesis
    proof (cases "send (pm\<lparr>pm_Headers := pm_Headers pm @ trace\<rparr>)")
      case (Inl err)
      with run Inr True t show ?thesis by auto
    next
      case po: (Inr po)
      obtain p off where "po = (p, off)" by fastforce
      with run Inr True t po show ?thesis by auto
    qed
  qed
qed

definition sample_request :: "nat EventRequest" where
  "sample_request =
     \<lparr>rq_Method = ''POST'', rq_Path = ''/'', rq_Host = ''ch-kn-channel.ns.svc.cluster.local'', rq_Message = Some 7\<rparr>"

definition sample_write :: "nat \<Rightarrow> nat ProducerMessage \<Rightarrow> go_error + nat ProducerMessage" where
  "sample_write m pm = Inr (pm\<lparr>pm_Value := Some m\<rparr>)"

theorem event_acknowledged_witness:
  "fst (receiver_ServeHTTP (receiverFunc ''topic'' sample_write [(''traceparent'', ''t'')] (\<lambda>_. Inr (0, 1)))
     (fst (RegisterChannelHost (sample_config []) NewDispatcher)) sample_request) = 202 \<and>
   length (snd (receiver_ServeHTTP (receiverFunc ''topic'' sample_write [(''traceparent'', ''t'')] (\<lambda>_. Inr (0, 1)))
     (fst (RegisterChannelHost (sample_config []) NewDispatcher)) sample_request)) = 1"
proof -
  let ?d = "fst (RegisterChannelHost (sample_config []) NewDispatcher)"
  let ?f = "receiverFunc ''topic'' sample_write [(''traceparent'', ''t'')] (\<lambda>_. Inr (0, 1))"
  have run: "receiver_ServeHTTP ?f ?d sample_request =
      (202, [\<lparr>pm_Topic = ''topic'', pm_Value = Some 7, pm_Headers = [(''traceparent'', ''t'')]\<rparr>])"
    by (simp add: receiver_ServeHTTP_def sample_request_def getChannelReferenceFromHost_def RegisterChannelHost_def
        NewDispatcher_def sample_config_def receiverFunc_def sample_write_def)
  from event_acknowledged [OF _ run] show ?thesis
    by (simp add: run sample_write_def)
qed

end
