(* ===== verification/DispatcherProcess.thy ===== *)
theory DispatcherProcess
  imports DispatcherReconciler Receiver Resources
begin

text \<open>
  The start of the dispatcher process (\<open>reconciler/dispatcher/kafkachannel.go\<close>, \<open>NewController\<close>): it
  reads its configuration from the environment that the controller wrote into the deployment, connects
  to Kafka, and watches its channel.
\<close>

text \<open>\<open>os.Getenv\<close>; \<open>system.Namespace\<close> panics on an empty variable.\<close>

definition Getenv :: "(string \<rightharpoonup> string) \<Rightarrow> string \<Rightarrow> string" where
  "Getenv env key = (case env key of Some v \<Rightarrow> v | None \<Rightarrow> '''')"

definition system_Namespace :: "(string \<rightharpoonup> string) \<Rightarrow> string outcome" where
  "system_Namespace env = (if Getenv env ''SYSTEM_NAMESPACE'' \<noteq> '''' then Returns (Getenv env ''SYSTEM_NAMESPACE'') else Panics)"

text \<open>What a started process has; \<open>pr_event\<close> is the filtered handler of channel events.\<close>

record process =
  pr_brokers :: "string list"
  pr_dispatcher :: KafkaDispatcher
  pr_event :: "informer_event \<Rightarrow> channel_action"
  pr_SkipStatusUpdates :: bool

definition filterWithAnnotation :: "(string \<rightharpoonup> string) \<Rightarrow> (informer_event \<Rightarrow> channel_action) outcome" where
  "filterWithAnnotation env =
     (case system_Namespace env of
        Panics \<Rightarrow> Panics
      | Returns ns \<Rightarrow> Returns (event_action (Getenv env ''CHANNEL_NAME'') ns))"

text \<open>A fatal log entry ends the process: the left result.\<close>

definition start_dispatcher ::
  "go_error option \<Rightarrow> (string \<Rightarrow> go_error + string) \<Rightarrow> (KafkaAuthConfig \<Rightarrow> string option \<Rightarrow> go_error + 'cfg) \<Rightarrow>
   (string list \<Rightarrow> go_error option) \<Rightarrow> go_error option \<Rightarrow> (string \<rightharpoonup> string) \<Rightarrow> (go_error + process) outcome" where
  "start_dispatcher tracing unmarshal build newProducer newReceiver env =
     (case tracing of
        Some err \<Rightarrow> Returns (Inl (Wrap ''unable to setup tracing'' err))
      | None \<Rightarrow>
          (case NewConfigFromEnv unmarshal build env of
             Inl err \<Rightarrow> Returns (Inl (Wrap ''unable to create sarama config'' err))
           | Inr (brokers, cfg) \<Rightarrow>
               (case NewDispatcher_result newProducer newReceiver env brokers of
                  Inl err \<Rightarrow> Returns (Inl (Wrap ''Unable to create kafka dispatcher'' err))
                | Inr kafkaDispatcher \<Rightarrow>
                    (case filterWithAnnotation env of
                       Panics \<Rightarrow> Panics
                     | Returns handler \<Rightarrow>
                         Returns (Inr \<lparr>pr_brokers = brokers, pr_dispatcher = kafkaDispatcher, pr_event = handler,
                                       pr_SkipStatusUpdates = True\<rparr>)))))"

section \<open>Properties\<close>

text \<open>The entries of a dispatcher that serves one namespace, in the environment of its container.\<close>

lemma env_namespace_scope:
  assumes "da_DispatcherScope args = ''namespace''" "documented_env secret field base container_env"
  shows "container_env (makeEnv args) ''NAMESPACE'' = Some (field ''metadata.namespace'')"
    "container_env (makeEnv args) ''POD_NAME'' = Some (field ''metadata.name'')"
    "container_env (makeEnv args) ''CONTAINER_NAME'' = Some ''dispatcher''"
proof -
  have e: "\<lparr>ev_Name = ''NAMESPACE'', ev_Value = '''', ev_ValueFrom = Some (FieldRef ''metadata.namespace'')\<rparr> \<in> set (makeEnv args)"
    "\<lparr>ev_Name = ''POD_NAME'', ev_Value = '''', ev_ValueFrom = Some (FieldRef ''metadata.name'')\<rparr> \<in> set (makeEnv args)"
    "value_env ''CONTAINER_NAME'' ''dispatcher'' \<in> set (makeEnv args)"
    using assms(1) by (simp_all add: makeEnv_def Let_def)
  show "container_env (makeEnv args) ''NAMESPACE'' = Some (field ''metadata.namespace'')"
    "container_env (makeEnv args) ''POD_NAME'' = Some (field ''metadata.name'')"
    using documented_ref [OF assms(2) e(1)] documented_ref [OF assms(2) e(2)] by simp_all
  show "container_env (makeEnv args) ''CONTAINER_NAME'' = Some ''dispatcher''" by (rule documented_value [OF assms(2) e(3)]) simp
qed

lemma env_system_namespace:
  assumes "documented_env secret field base container_env" "kc_Namespace (da_Channel args) \<noteq> ''''" "CHR ''$'' \<notin> set (kc_Namespace (da_Channel args))"
  shows "system_Namespace (container_env (makeEnv args)) = Returns (kc_Namespace (da_Channel args))"
  using env_values(4) [OF assms(1,3)] assms(2) by (simp add: system_Namespace_def Getenv_def)

text \<open>
  What the handler of a process does with every event of its informer: a channel that is added, or updated to have the name and
  namespace of its own one, is enqueued; its own channel is cleaned up when it is deleted, or replaced by
  another one; all other channels, and tombstones, are ignored.
\<close>

definition handles_only :: "NamespacedName \<Rightarrow> (informer_event \<Rightarrow> channel_action) \<Rightarrow> bool" where
  "handles_only own handler \<longleftrightarrow>
     (\<forall>kc. handler (OnAdd (ChannelObject kc)) = (if kc_ref kc = own then Enqueue kc else Ignore)) \<and>
     (\<forall>old new. handler (OnUpdate (ChannelObject old) (ChannelObject new)) =
        (if kc_ref new = own then Enqueue new else if kc_ref old = own then CleanUp old else Ignore)) \<and>
     (\<forall>kc. handler (OnDelete (ChannelObject kc)) = (if kc_ref kc = own then CleanUp kc else Ignore)) \<and>
     (\<forall>kc. handler (OnDelete (Tombstone kc)) = Ignore)"

lemma event_action_handles: "handles_only \<lparr>nn_Namespace = ns, nn_Name = name\<rparr> (event_action name ns)"
  by (auto simp: handles_only_def Let_def)

text \<open>
  The dispatcher that the controller deploys comes up with the configuration of its channel: from
  the environment of its container it takes the channel's bootstrap servers and topic, and it handles
  the events of exactly the channel it was deployed for. Only Kafka, the tracing set-up or a bad Sarama configuration
  can keep it from starting.
\<close>

lemma dispatcher_comes_up:
  assumes "documented_env secret field base container_env" and "base_ok base"
    and "da_DispatcherScope args = ''namespace''" and "field ''metadata.name'' \<noteq> ''''"
    and "sp_BootstrapServers (kc_Spec (da_Channel args)) \<noteq> []"
    and "\<forall>w \<in> set (sp_BootstrapServers (kc_Spec (da_Channel args))). CHR '','' \<notin> set w \<and> CHR ''$'' \<notin> set w"
    and "\<exists>w \<in> set (sp_BootstrapServers (kc_Spec (da_Channel args))). \<not> list_all is_space w"
    and "kc_Namespace (da_Channel args) \<noteq> ''''" and "CHR ''$'' \<notin> set (kc_Namespace (da_Channel args) @ kc_Name (da_Channel args))"
    and "\<And>auth. \<exists>cfg. build auth None = Inr cfg" and "newProducer (sp_BootstrapServers (kc_Spec (da_Channel args))) = None"
  shows "\<exists>p. start_dispatcher None unmarshal build newProducer None (container_env (makeEnv args)) = Returns (Inr p) \<and>
           pr_brokers p = sp_BootstrapServers (kc_Spec (da_Channel args)) \<and> pr_dispatcher p = NewDispatcher \<and>
           handles_only (kc_ref (da_Channel args)) (pr_event p)"
proof -
  let ?env = "container_env (makeEnv args)"
  obtain cfg where cfg: "NewConfigFromEnv unmarshal build ?env = Inr (sp_BootstrapServers (kc_Spec (da_Channel args)), cfg)"
  proof -
    have "\<exists>cfg. NewConfigFromEnv unmarshal build ?env = Inr (sp_BootstrapServers (kc_Spec (da_Channel args)), cfg)"
      unfolding config_from_env [OF assms(1,2,5-7)] Let_def using assms(10) by (auto split: sum.split) (metis sum.distinct(1))+
    then show ?thesis using that by blast
  qed
  have disp: "NewDispatcher_result newProducer None ?env (sp_BootstrapServers (kc_Spec (da_Channel args))) = Inr NewDispatcher"
    unfolding NewDispatcher_result_def assms(11) GetRequiredConfigValue_def env_namespace_scope [OF assms(3,1)]
    using assms(4) by simp
  have name: "?env ''CHANNEL_NAME'' = Some (kc_Name (da_Channel args))" using env_values(3) [OF assms(1)] assms(9) by simp
  have ns: "filterWithAnnotation ?env = Returns (event_action (kc_Name (da_Channel args)) (kc_Namespace (da_Channel args)))"
    using env_system_namespace [OF assms(1,8)] assms(9) name by (simp add: filterWithAnnotation_def Getenv_def)
  show ?thesis
    unfolding start_dispatcher_def cfg by (simp add: disp ns event_action_handles)
qed

end
