(* ===== verification/ControllerProcess.thy ===== *)
theory ControllerProcess
  imports Reconciling Lister WorkQueue DispatcherProcess
begin

text \<open>
  The controller process (\<open>controller/controller.go\<close>, \<open>NewController\<close>): its construction from the environment, the
  handlers of the informers' events with the vendored filter and dispatch of events, and the callback
  of the prober. What an event leads to is a key in the work queue.
\<close>

section \<open>Events of informers\<close>

text \<open>
  An informer hands out an object or, for a deletion it has missed, a \<open>DeletedFinalStateUnknown\<close> around
  the last known state. The type assertions of the filters fail for the latter; \<open>DeletionHandlingAccessor\<close>
  looks inside.
\<close>

datatype 'o informer_obj = Object 'o | DeletedFinalStateUnknown 'o

fun DeletionHandlingAccessor :: "'o informer_obj \<Rightarrow> 'o" where
  "DeletionHandlingAccessor (Object obj) = obj"
| "DeletionHandlingAccessor (DeletedFinalStateUnknown obj) = obj"

fun filter_object :: "('o \<Rightarrow> bool) \<Rightarrow> 'o informer_obj \<Rightarrow> bool" where
  "filter_object f (Object obj) = f obj"
| "filter_object f (DeletedFinalStateUnknown _) = False"

datatype 'o resource_event = Added "'o informer_obj" | Updated "'o informer_obj" "'o informer_obj" | Deleted "'o informer_obj"

record ('o, 's) ResourceEventHandler =
  AddFunc :: "'o informer_obj \<Rightarrow> 's \<Rightarrow> 's"
  UpdateFunc :: "'o informer_obj \<Rightarrow> 'o informer_obj \<Rightarrow> 's \<Rightarrow> 's"
  DeleteFunc :: "'o informer_obj \<Rightarrow> 's \<Rightarrow> 's"

definition HandleAll :: "('o informer_obj \<Rightarrow> 's \<Rightarrow> 's) \<Rightarrow> ('o, 's) ResourceEventHandler" where
  "HandleAll h = \<lparr>AddFunc = h, UpdateFunc = (\<lambda>_ new. h new), DeleteFunc = h\<rparr>"

fun handle :: "('o, 's) ResourceEventHandler \<Rightarrow> 'o resource_event \<Rightarrow> 's \<Rightarrow> 's" where
  "handle h (Added obj) = AddFunc h obj"
| "handle h (Updated old new) = UpdateFunc h old new"
| "handle h (Deleted obj) = DeleteFunc h obj"

fun FilteringResourceEventHandler ::
  "('o informer_obj \<Rightarrow> bool) \<Rightarrow> ('o, 's) ResourceEventHandler \<Rightarrow> 'o resource_event \<Rightarrow> 's \<Rightarrow> 's" where
  "FilteringResourceEventHandler f h (Added obj) s = (if f obj then AddFunc h obj s else s)"
| "FilteringResourceEventHandler f h (Updated old new) s =
     (let newer = f new; older = f old in
      if newer \<and> older then UpdateFunc h old new s
      else if newer \<and> \<not> older then AddFunc h new s
      else if \<not> newer \<and> older then DeleteFunc h old s
      else s)"
| "FilteringResourceEventHandler f h (Deleted obj) s = (if f obj then DeleteFunc h obj s else s)"

section \<open>The process\<close>

record controller_process =
  cp_systemNamespace :: string
  cp_dispatcherImage :: string
  cp_dispatcherServiceAccount :: string
  cp_impl :: "NamespacedName Impl"
  cp_statusManager :: Prober

text \<open>
  The construction: a missing variable panics. \<open>s0\<close> and \<open>p0\<close> are the contents of the prober's heap that is not
  yet allocated; \<open>threadiness\<close> is the number of workers that run the controller.
\<close>

definition NewController :: "targetState \<Rightarrow> podState \<Rightarrow> nat \<Rightarrow> (string \<rightharpoonup> string) \<Rightarrow> controller_process outcome" where
  "NewController s0 p0 threadiness env =
     (case system_Namespace env of
        Panics \<Rightarrow> Panics
      | Returns ns \<Rightarrow>
          (case env ''DISPATCHER_IMAGE'' of
             None \<Rightarrow> Panics
           | Some img \<Rightarrow>
               Returns \<lparr>cp_systemNamespace = ns, cp_dispatcherImage = img,
                        cp_dispatcherServiceAccount = ''kt-channel-dispatcher'',
                        cp_impl = new_Impl threadiness, cp_statusManager = NewProber s0 p0\<rparr>))"

definition upd_impl :: "(NamespacedName Impl \<Rightarrow> NamespacedName Impl) \<Rightarrow> controller_process \<Rightarrow> controller_process" where
  "upd_impl f cp = cp\<lparr>cp_impl := f (cp_impl cp)\<rparr>"

definition impl_Enqueue :: "KafkaTopicChannel informer_obj \<Rightarrow> controller_process \<Rightarrow> controller_process" where
  "impl_Enqueue obj =
     (let object = DeletionHandlingAccessor obj
      in upd_impl (EnqueueKey \<lparr>nn_Namespace = kc_Namespace object, nn_Name = kc_Name object\<rparr>))"

text \<open>\<open>grCh\<close>: enqueue all channels of the informer's store, in the slow lane.\<close>

definition grCh :: "(string set \<Rightarrow> string list) \<Rightarrow> indexer \<Rightarrow> controller_process \<Rightarrow> controller_process" where
  "grCh ord ix = upd_impl (GlobalResync (\<lambda>kc. \<lparr>nn_Namespace = kc_Namespace kc, nn_Name = kc_Name kc\<rparr>) (store_List ord ix))"

definition channelHandler :: "KafkaTopicChannel resource_event \<Rightarrow> controller_process \<Rightarrow> controller_process" where
  "channelHandler = handle (HandleAll impl_Enqueue)"

text \<open>The same handler serves the deployments, the services and the endpoints.\<close>

definition ownedHandler ::
  "(string set \<Rightarrow> string list) \<Rightarrow> indexer \<Rightarrow> ObjectMeta resource_event \<Rightarrow> controller_process \<Rightarrow> controller_process" where
  "ownedHandler ord ix = FilteringResourceEventHandler (filter_object ownedFilter) (HandleAll (\<lambda>_. grCh ord ix))"

text \<open>
  Where the handler of the pods looks for the dispatcher's pods, and the orders in which it ranges
  over addresses and over the probed subscriptions.
\<close>

record pod_source =
  po_endpoints :: EndpointsLister
  po_ips :: "ip set \<Rightarrow> ip list"
  po_visits :: "uid list"

fun getPodInformerEventHandler ::
  "(string set \<Rightarrow> string list) \<Rightarrow> indexer \<Rightarrow> pod_source \<Rightarrow> ObjectMeta informer_obj \<Rightarrow> controller_process \<Rightarrow> controller_process" where
  "getPodInformerEventHandler ord ix src (Object pod) cp =
     grCh ord ix (cp\<lparr>cp_statusManager :=
       RefreshPodProbing (po_ips src) (ListProbeTargets (po_endpoints src)) (po_visits src) (cp_statusManager cp)\<rparr>)"
| "getPodInformerEventHandler ord ix src (DeletedFinalStateUnknown pod) cp = cp"

definition podHandler ::
  "(string set \<Rightarrow> string list) \<Rightarrow> indexer \<Rightarrow> pod_source \<Rightarrow> ObjectMeta resource_event \<Rightarrow> controller_process \<Rightarrow> controller_process" where
  "podHandler ord ix src = FilteringResourceEventHandler (filter_object podFilter)
     \<lparr>AddFunc = getPodInformerEventHandler ord ix src, UpdateFunc = (\<lambda>_ _ cp. cp),
      DeleteFunc = getPodInformerEventHandler ord ix src\<rparr>"

text \<open>The callback that the prober calls for a channel and a subscription that became ready.\<close>

definition readyCallback :: "ready_call \<Rightarrow> controller_process \<Rightarrow> controller_process" where
  "readyCallback call = upd_impl (EnqueueKey \<lparr>nn_Namespace = kc_Namespace (rc_ch call), nn_Name = kc_Name (rc_ch call)\<rparr>)"

text \<open>The prober makes a step, and the calls that it made in it run.\<close>

definition prober_progress :: "Prober \<Rightarrow> controller_process \<Rightarrow> controller_process" where
  "prober_progress m cp =
     fold readyCallback (drop (length (p_calls (cp_statusManager cp))) (p_calls m)) (cp\<lparr>cp_statusManager := m\<rparr>)"

text \<open>The key string that a worker passes to \<open>Reconcile\<close>.\<close>

definition safeKey :: "NamespacedName \<Rightarrow> string" where
  "safeKey key = (if nn_Namespace key = '''' then nn_Name key else nn_Namespace key @ ''/'' @ nn_Name key)"

section \<open>Properties\<close>

lemma safeKey_split:
  assumes "named kc"
  shows "SplitMetaNamespaceKey (safeKey (kc_ref kc)) = Inr (kc_Namespace kc, kc_Name kc)"
  using assms by (simp add: safeKey_def SplitMetaNamespaceKey_def go_split_append go_split_no_sep named_def)

lemma upd_impl_simps [simp]:
  "cp_impl (upd_impl f cp) = f (cp_impl cp)" "cp_statusManager (upd_impl f cp) = cp_statusManager cp"
  by (simp_all add: upd_impl_def)

lemma cp_impl_callbacks:
  "cp_impl (fold readyCallback calls cp) = fold EnqueueKey (map (\<lambda>call. kc_ref (rc_ch call)) calls) (cp_impl cp)"
  by (induction calls arbitrary: cp) (simp_all add: readyCallback_def)

lemma grCh_queued:
  assumes "im_inv n (cp_impl cp)" "ix_inv ix" "go_range ord"
  shows "queued k (cp_impl (grCh ord ix cp)) \<longleftrightarrow> k \<in> kc_ref ` ran (ix_items ix) \<or> queued k (cp_impl cp)"
  using store_List_set(1) [OF assms(2,3)]
  by (simp add: grCh_def GlobalResync_eq [OF assms(1)] slow_sink.enqueue_all_waits [OF assms(1)])

fun event_object :: "'o resource_event \<Rightarrow> 'o" where
  "event_object (Added obj) = DeletionHandlingAccessor obj"
| "event_object (Updated old new) = DeletionHandlingAccessor new"
| "event_object (Deleted obj) = DeletionHandlingAccessor obj"

fun passes :: "('o \<Rightarrow> bool) \<Rightarrow> 'o resource_event \<Rightarrow> bool" where
  "passes f (Added obj) \<longleftrightarrow> filter_object f obj"
| "passes f (Updated old new) \<longleftrightarrow> filter_object f old \<or> filter_object f new"
| "passes f (Deleted obj) \<longleftrightarrow> filter_object f obj"

text \<open>The pods that a dispatcher deployment makes, as far as an event is about them.\<close>

fun about_pods_of :: "Deployment \<Rightarrow> ObjectMeta resource_event \<Rightarrow> bool" where
  "about_pods_of d (Added obj) \<longleftrightarrow> (\<exists>name. DeletionHandlingAccessor obj = pod_of d name)"
| "about_pods_of d (Updated old new) \<longleftrightarrow>
     (\<exists>name. DeletionHandlingAccessor old = pod_of d name \<and> DeletionHandlingAccessor new = pod_of d name)"
| "about_pods_of d (Deleted obj) \<longleftrightarrow> (\<exists>name. DeletionHandlingAccessor obj = pod_of d name)"

lemma filter_object_pod: "DeletionHandlingAccessor obj = pod_of (MakeDispatcher args) name \<Longrightarrow> \<not> filter_object podFilter obj"
  by (cases obj) (simp_all add: podFilter_dispatcher)

lemma podHandler_dispatcher: "about_pods_of (MakeDispatcher args) ev \<Longrightarrow> podHandler ord ix src ev cp = cp"
  by (cases ev) (auto simp: podHandler_def Let_def dest: filter_object_pod)

lemma ownedHandler_eq: "ownedHandler ord ix ev cp = (if passes ownedFilter ev then grCh ord ix cp else cp)"
  by (cases ev) (auto simp: ownedHandler_def HandleAll_def Let_def)

text \<open>
  C18: What an event makes the controller look at again. An event of a channel, also a deletion that
  the informer had missed, queues exactly the key of this channel; an event of a deployment, service
  or endpoints object queues every channel of the informer's store if the object is owned by a channel,
  before or after an update, and nothing otherwise; every callback of the prober queues the key of its channel;
  but the events of the pods of a dispatcher deployment change nothing at all.
\<close>

theorem controller_events:
  assumes "impl_reachable n (cp_impl cp)" and "ix_reachable ix" and "go_range ord"
  shows "(queued k (cp_impl (channelHandler cev cp)) \<longleftrightarrow> k = kc_ref (event_object cev) \<or> queued k (cp_impl cp)) \<and>
         (queued k (cp_impl (ownedHandler ord ix ev cp)) \<longleftrightarrow>
            passes ownedFilter ev \<and> k \<in> kc_ref ` ran (ix_items ix) \<or> queued k (cp_impl cp)) \<and>
         (queued k (cp_impl (prober_progress m cp)) \<longleftrightarrow>
            (\<exists>call \<in> set (drop (length (p_calls (cp_statusManager cp))) (p_calls m)). k = kc_ref (rc_ch call)) \<or> queued k (cp_impl cp)) \<and>
         (about_pods_of (MakeDispatcher args) pev \<longrightarrow> podHandler ord ix src pev cp = cp)"
proof -
  note inv = impl_reachable_inv [OF assms(1)] and ix = ix_reachable_inv [OF assms(2)]
  have "queued k (cp_impl (channelHandler cev cp)) \<longleftrightarrow> k = kc_ref (event_object cev) \<or> queued k (cp_impl cp)"
    by (cases cev) (simp_all add: channelHandler_def HandleAll_def impl_Enqueue_def Let_def fast_sink.enqueue_waits [OF inv])
  moreover have "queued k (cp_impl (ownedHandler ord ix ev cp)) \<longleftrightarrow>
      passes ownedFilter ev \<and> k \<in> kc_ref ` ran (ix_items ix) \<or> queued k (cp_impl cp)"
    using grCh_queued [OF inv ix assms(3)] by (simp add: ownedHandler_eq)
  moreover have "queued k (cp_impl (prober_progress m cp)) \<longleftrightarrow>
      (\<exists>call \<in> set (drop (length (p_calls (cp_statusManager cp))) (p_calls m)). k = kc_ref (rc_ch call)) \<or> queued k (cp_impl cp)"
    by (auto simp: prober_progress_def cp_impl_callbacks fast_sink.enqueue_all_waits [OF inv])
  ultimately show ?thesis using podHandler_dispatcher by blast
qed

text \<open>A process that was started with its environment, and the owned object and channel of a sample.\<close>

definition sample_process :: controller_process where
  "sample_process = \<lparr>cp_systemNamespace = ''knative-eventing'', cp_dispatcherImage = ''img'',
     cp_dispatcherServiceAccount = ''kt-channel-dispatcher'', cp_impl = new_Impl 2, cp_statusManager = sample_prober\<rparr>"

definition sample_source :: pod_source where
  "sample_source = \<lparr>po_endpoints = (\<lambda>_ _. Inr [[''10.0.0.1'']]), po_ips = sorted_list_of_set, po_visits = []\<rparr>"

theorem controller_events_witness:
  "queued \<lparr>nn_Namespace = ''ns'', nn_Name = ''ch''\<rparr>
     (cp_impl (channelHandler (Deleted (DeletedFinalStateUnknown (sample_channel 1 []))) sample_process)) \<and>
   podHandler sorted_list_of_set new_indexer sample_source (Added (Object (pod_of (MakeDispatcher sample_args) ''p''))) sample_process = sample_process"
proof -
  have r: "impl_reachable 2 (cp_impl sample_process)" by (simp add: sample_process_def impl_reachable.new)
  from controller_events [OF r ix_reachable.start sorted_range.go_range_axioms, where
      k = "\<lparr>nn_Namespace = ''ns'', nn_Name = ''ch''\<rparr>" and cev = "Deleted (DeletedFinalStateUnknown (sample_channel 1 []))" and
      pev = "Added (Object (pod_of (MakeDispatcher sample_args) ''p''))" and args = sample_args and src = sample_source]
  show ?thesis by (auto simp: sample_defs)
qed

end
