(* ===== verification/Endpoint.thy ===== *)
theory Endpoint
  imports Dispatcher
begin

text \<open>
  The HTTP endpoint on which the dispatcher serves the readiness of its subscriptions to the
  controller's prober (\<open>subscription_endpoint.go\<close>).
\<close>

record Request =
  r_Method :: string
  r_RequestURI :: string

text \<open>What the handler wrote: the status code (200 unless \<open>WriteHeader\<close> was called), headers and body.\<close>

record 'b Response =
  w_Code :: nat
  w_Header :: "string \<rightharpoonup> string"
  w_Body :: "'b option"

definition dispatcherReadySubHeader :: string where
  "dispatcherReadySubHeader = ''K-Subscriber-Status''"

text \<open>\<open>json.Marshal\<close> of the map is the argument \<open>marshal\<close>.\<close>

definition ready_lists :: "KafkaSubscription \<Rightarrow> uid \<rightharpoonup> int list" where
  "ready_lists ks = (\<lambda>s. map_option sorted_list_of_set (ks_channelReadySubscriptions ks s))"

definition ServeHTTP ::
  "((uid \<rightharpoonup> int list) \<Rightarrow> go_error + 'b) \<Rightarrow> KafkaDispatcher \<Rightarrow> Request \<Rightarrow> 'b Response" where
  "ServeHTTP marshal d r =
     (let status = (\<lambda>code. \<lparr>w_Code = code, w_Header = Map.empty, w_Body = None\<rparr>) in
      if r_Method r \<noteq> ''GET'' then status 405
      else
        (let uriSplit = go_split CHR ''/'' (r_RequestURI r) in
         if length uriSplit \<noteq> 3 then status 404
         else
           (let channelRef = \<lparr>nn_Namespace = uriSplit ! 1, nn_Name = uriSplit ! 2\<rparr> in
            case d_channelSubscriptions d channelRef of
              None \<Rightarrow> status 404
            | Some p \<Rightarrow>
                (let w = \<lparr>w_Code = 200, w_Header = [dispatcherReadySubHeader \<mapsto> nn_Name channelRef], w_Body = None\<rparr> in
                 case marshal (ready_lists (d_store d p)) of
                   Inl err \<Rightarrow> w
                 | Inr jsonResult \<Rightarrow> w\<lparr>w_Body := Some jsonResult\<rparr>))))"

text \<open>The path of a channel's readiness.\<close>

definition channel_uri :: "NamespacedName \<Rightarrow> string" where
  "channel_uri c = ''/'' @ nn_Namespace c @ ''/'' @ nn_Name c"

lemma go_split_channel_uri:
  assumes "CHR ''/'' \<notin> set (nn_Namespace c)" "CHR ''/'' \<notin> set (nn_Name c)"
  shows "go_split CHR ''/'' (channel_uri c) = ['''', nn_Namespace c, nn_Name c]"
  using assms go_split_append [of "CHR ''/''" "nn_Namespace c" "nn_Name c"]
  by (simp add: channel_uri_def go_split_no_sep)

lemma ServeHTTP_channel:
  assumes "CHR ''/'' \<notin> set (nn_Namespace c)" "CHR ''/'' \<notin> set (nn_Name c)"
  shows "ServeHTTP Inr d \<lparr>r_Method = ''GET'', r_RequestURI = channel_uri c\<rparr> =
    (case d_channelSubscriptions d c of
       None \<Rightarrow> \<lparr>w_Code = 404, w_Header = Map.empty, w_Body = None\<rparr>
     | Some p \<Rightarrow> \<lparr>w_Code = 200, w_Header = [dispatcherReadySubHeader \<mapsto> nn_Name c],
                   w_Body = Some (ready_lists (d_store d p))\<rparr>)"
  using assms by (cases c) (simp add: ServeHTTP_def go_split_channel_uri Let_def split: option.splits)

lemma ready_lists_pairs:
  assumes "ks_wf ks"
  shows "(\<exists>ps. ready_lists ks u = Some ps \<and> p \<in> set ps) \<longleftrightarrow> (u, p) \<in> ready_pairs ks"
    and "ready_lists ks u = Some ps \<Longrightarrow> sorted ps \<and> distinct ps \<and> ps \<noteq> []"
  using assms by (fastforce simp: ready_lists_def ready_pairs_def ks_wf_def)+

section \<open>Main properties\<close>

lemma go_split_3_iff:
  "(\<exists>pre. go_split CHR ''/'' uri = [pre, ns, name]) \<longleftrightarrow>
     (\<exists>pre. uri = pre @ ''/'' @ ns @ ''/'' @ name \<and> CHR ''/'' \<notin> set pre \<union> set ns \<union> set name)"
proof
  assume "\<exists>pre. go_split CHR ''/'' uri = [pre, ns, name]"
  then obtain pre where sp: "go_split CHR ''/'' uri = [pre, ns, name]" by blast
  have "uri = pre @ ''/'' @ ns @ ''/'' @ name" using go_join_split [of "CHR ''/''" uri] by (simp add: sp)
  moreover have "CHR ''/'' \<notin> set pre \<union> set ns \<union> set name"
    using go_split_elem_no_sep [of _ "CHR ''/''" uri] by (auto simp: sp)
  ultimately show "\<exists>pre. uri = pre @ ''/'' @ ns @ ''/'' @ name \<and> CHR ''/'' \<notin> set pre \<union> set ns \<union> set name" by blast
next
  assume "\<exists>pre. uri = pre @ ''/'' @ ns @ ''/'' @ name \<and> CHR ''/'' \<notin> set pre \<union> set ns \<union> set name"
  then show "\<exists>pre. go_split CHR ''/'' uri = [pre, ns, name]" by (auto simp: go_split_append go_split_no_sep)
qed

definition names_channel :: "KafkaDispatcher \<Rightarrow> string \<Rightarrow> bool" where
  "names_channel d uri \<longleftrightarrow> (\<exists>pre c. uri = pre @ channel_uri c \<and> CHR ''/'' \<notin> set pre \<union> set (nn_Namespace c) \<union> set (nn_Name c) \<and>
     d_channelSubscriptions d c \<noteq> None)"

lemma names_channel_split:
  "names_channel d uri \<longleftrightarrow> (length (go_split CHR ''/'' uri) = 3 \<and>
     d_channelSubscriptions d \<lparr>nn_Namespace = go_split CHR ''/'' uri ! 1, nn_Name = go_split CHR ''/'' uri ! 2\<rparr> \<noteq> None)"
proof -
  have "names_channel d uri \<longleftrightarrow> (\<exists>ns name. (\<exists>pre. go_split CHR ''/'' uri = [pre, ns, name]) \<and>
      d_channelSubscriptions d \<lparr>nn_Namespace = ns, nn_Name = name\<rparr> \<noteq> None)"
    unfolding go_split_3_iff names_channel_def channel_uri_def
  proof (intro iffI)
    assume "\<exists>pre c. uri = pre @ ''/'' @ nn_Namespace c @ ''/'' @ nn_Name c \<and>
      CHR ''/'' \<notin> set pre \<union> set (nn_Namespace c) \<union> set (nn_Name c) \<and> d_channelSubscriptions d c \<noteq> None"
    then obtain pre c where "uri = pre @ ''/'' @ nn_Namespace c @ ''/'' @ nn_Name c"
      "CHR ''/'' \<notin> set pre \<union> set (nn_Namespace c) \<union> set (nn_Name c)" "d_channelSubscriptions d c \<noteq> None" by blast
    then show "\<exists>ns name. (\<exists>pre. uri = pre @ ''/'' @ ns @ ''/'' @ name \<and> CHR ''/'' \<notin> set pre \<union> set ns \<union> set name) \<and>
        d_channelSubscriptions d \<lparr>nn_Namespace = ns, nn_Name = name\<rparr> \<noteq> None"
      by - (rule exI [of _ "nn_Namespace c"], rule exI [of _ "nn_Name c"], cases c, auto)
  next
    assume "\<exists>ns name. (\<exists>pre. uri = pre @ ''/'' @ ns @ ''/'' @ name \<and> CHR ''/'' \<notin> set pre \<union> set ns \<union> set name) \<and>
        d_channelSubscriptions d \<lparr>nn_Namespace = ns, nn_Name = name\<rparr> \<noteq> None"
    then obtain pre ns name where "uri = pre @ ''/'' @ ns @ ''/'' @ name" "CHR ''/'' \<notin> set pre \<union> set ns \<union> set name"
      "d_channelSubscriptions d \<lparr>nn_Namespace = ns, nn_Name = name\<rparr> \<noteq> None" by blast
    then show "\<exists>pre c. uri = pre @ ''/'' @ nn_Namespace c @ ''/'' @ nn_Name c \<and>
      CHR ''/'' \<notin> set pre \<union> set (nn_Namespace c) \<union> set (nn_Name c) \<and> d_channelSubscriptions d c \<noteq> None"
      by - (rule exI [of _ pre], rule exI [of _ "\<lparr>nn_Namespace = ns, nn_Name = name\<rparr>"], simp)
  qed
  also have "\<dots> \<longleftrightarrow> (length (go_split CHR ''/'' uri) = 3 \<and>
     d_channelSubscriptions d \<lparr>nn_Namespace = go_split CHR ''/'' uri ! 1, nn_Name = go_split CHR ''/'' uri ! 2\<rparr> \<noteq> None)"
    by (auto simp: length_Suc_conv eval_nat_numeral)
  finally show ?thesis .
qed

text \<open>
  The status codes of the endpoint: 405 for anything but a GET, 200 exactly for a path of two parts
  (after whatever precedes the first slash) that name a channel with a readiness object, and 404
  otherwise; a body is written only with 200, and a failure to marshal leaves a 200 without a body.
\<close>

lemma endpoint_status_codes:
  "w_Code (ServeHTTP marshal d r) =
     (if r_Method r \<noteq> ''GET'' then 405 else if names_channel d (r_RequestURI r) then 200 else 404) \<and>
   (w_Body (ServeHTTP marshal d r) = None \<longleftrightarrow>
      w_Code (ServeHTTP marshal d r) \<noteq> 200 \<or>
      (\<forall>p. d_channelSubscriptions d \<lparr>nn_Namespace = go_split CHR ''/'' (r_RequestURI r) ! 1,
                                     nn_Name = go_split CHR ''/'' (r_RequestURI r) ! 2\<rparr> = Some p \<longrightarrow>
           isl (marshal (ready_lists (d_store d p)))))"
  unfolding names_channel_split
  by (simp add: ServeHTTP_def Let_def split: option.splits sum.splits)

text \<open>
  The endpoint reports the readiness of a channel faithfully: for a channel that the dispatcher
  serves, the lists in the body hold exactly the pairs of a subscription and a partition that its
  consumer groups have marked ready, each list sorted, without duplicates and not empty.
\<close>

lemma endpoint_reports_readiness:
  assumes "disp_reachable d" and "CHR ''/'' \<notin> set (nn_Namespace c)" and "CHR ''/'' \<notin> set (nn_Name c)"
    and "d_channelSubscriptions d c = Some p"
  shows "\<exists>body. ServeHTTP Inr d \<lparr>r_Method = ''GET'', r_RequestURI = channel_uri c\<rparr> =
           \<lparr>w_Code = 200, w_Header = [dispatcherReadySubHeader \<mapsto> nn_Name c], w_Body = Some body\<rparr> \<and>
           {(u, q). \<exists>ps. body u = Some ps \<and> q \<in> set ps} = ready_pairs (d_store d p) \<and>
           (\<forall>u ps. body u = Some ps \<longrightarrow> sorted ps \<and> distinct ps \<and> ps \<noteq> [])"
proof -
  have wf: "ks_wf (d_store d p)"
    using disp_reachable_inv [OF assms(1)] by (simp add: disp_inv_def store_inv_def)
  have "{(u, q). \<exists>ps. ready_lists (d_store d p) u = Some ps \<and> q \<in> set ps} = ready_pairs (d_store d p)"
    using ready_lists_pairs(1) [OF wf] by auto
  with ready_lists_pairs(2) [OF wf] ServeHTTP_channel [OF assms(2,3), of d] show ?thesis
    by (simp add: assms(4))
qed

end
