(* ===== verification/Assembly.thy ===== *)
theory Assembly
  imports ControllerProcess Endpoint
begin

text \<open>
  The components put together: the generated reconciler around the channel controller and around the
  reconciler of the dispatcher, and what the prober sees of the dispatcher's endpoint. The lemmas here
  say what a pass of the controller keeps and logs; the properties that rest on them are in the root
  theory. The last section runs the first pass over a new channel.
\<close>

section \<open>The controller keeps the reported subscribers\<close>

text \<open>\<open>kept s s'\<close>: the name, the generation and the list of subscribers in the status are those of before.\<close>

definition kept :: "rstate \<Rightarrow> rstate \<Rightarrow> bool" where
  "kept s s' \<longleftrightarrow> st_Subscribers (rs_status s') = st_Subscribers (rs_status s) \<and>
     om_Generation (kc_Meta (rs_kc s')) = om_Generation (kc_Meta (rs_kc s)) \<and>
     kc_Namespace (rs_kc s') = kc_Namespace (rs_kc s) \<and> kc_Name (rs_kc s') = kc_Name (rs_kc s)"

lemma kept_refl [simp]: "kept s s"
  by (simp add: kept_def)

lemma kept_trans: "kept s s1 \<Longrightarrow> kept s1 s2 \<Longrightarrow> kept s s2"
  by (simp add: kept_def)

lemma kept_same_kc: "rs_kc s' = rs_kc s \<Longrightarrow> kept s s'"
  by (simp add: kept_def)

lemma kept_emit [simp]: "kept s (emit e s') = kept s s'"
  by (simp add: kept_def)

lemma kept_store [simp]: "kept s (store_deployment ns n d s') = kept s s'"
  by (simp add: kept_def)

lemma st_Subscribers_marks [simp]:
  "st_Subscribers (MarkDispatcherFailed now r m st) = st_Subscribers st"
  "st_Subscribers (MarkDispatcherUnknown now r m st) = st_Subscribers st"
  "st_Subscribers (MarkServiceFailed now r m st) = st_Subscribers st"
  "st_Subscribers (MarkServiceUnknown now r m st) = st_Subscribers st"
  "st_Subscribers (MarkServiceTrue now st) = st_Subscribers st"
  "st_Subscribers (MarkChannelServiceFailed now r m st) = st_Subscribers st"
  "st_Subscribers (MarkChannelServiceTrue now st) = st_Subscribers st"
  "st_Subscribers (MarkEndpointsFailed now r m st) = st_Subscribers st"
  "st_Subscribers (MarkEndpointsTrue now st) = st_Subscribers st"
  "st_Subscribers (MarkTopicTrue now st) = st_Subscribers st"
  "st_Subscribers (MarkConfigTrue now st) = st_Subscribers st"
  "st_Subscribers (st_InitializeConditions now st) = st_Subscribers st"
  "st_Subscribers (SetAddress now (Some u) st) = st_Subscribers st"
  by (simp_all add: lifecycle_defs st_InitializeConditions_def SetAddress_eq markTrue_def markFalse_def markUnknown_def)

lemma kept_mark [simp]:
  "(\<And>now st. st_Subscribers (f now st) = st_Subscribers st) \<Longrightarrow> kept s (mark_status env f s') = kept s s'"
  by (simp add: kept_def mark_status_def)

lemma kept_propagate [simp]: "kept s (propagate_deployment env d s') = kept s s'"
  by (simp add: propagate_deployment_def PropagateDispatcherStatus_marks run_marks_frame)

lemma kept_update_deployment [simp]: "kept s (fst (update_deployment env d s')) = kept s s'"
  by (simp add: update_deployment_def Let_def split: sum.split)

lemma kept_service_account: "kept s (fst (reconcileServiceAccount env ns s))"
  by (auto simp: reconcileServiceAccount_def Let_def split: sum.split)

lemma kept_role_binding: "kept s (fst (reconcileRoleBinding env n ns role sa s))"
  by (auto simp: reconcileRoleBinding_def Let_def split: sum.split)

lemma kept_deployment: "kept s (fst (reconcile_deployment env ns s))"
  by (simp add: reconcile_deployment_def Let_def split: sum.split option.split)

lemma kept_dispatcher: "kept s (fst (reconcileDispatcher env ns s))"
proof -
  have "kept s s1" if "reconcileServiceAccount env ns s = (s1, r)" for s1 r
    using kept_service_account [of s env ns] that by simp
  moreover have "kept s1 s2" if "reconcileRoleBinding env n ns' role sa s1 = (s2, r)" for s1 s2 r n ns' role sa
    using kept_role_binding [of s1 env n ns' role sa] that by simp
  ultimately show ?thesis
    by (auto simp: reconcileDispatcher_def split: prod.split sum.split) (meson kept_trans kept_deployment)+
qed

lemma kept_dispatcher_service: "kept s (fst (reconcileDispatcherService env ns s))"
  by (auto simp: reconcileDispatcherService_def Let_def split: sum.split)

lemma kept_channel_service: "kept s (fst (reconcileChannelService env ns s))"
  by (simp add: reconcileChannelService_def check_owner_def Let_def split: sum.split)

lemma kept_subscribers: "kept s' (fst (reconcileSubscribers env s'))"
  by (rule kept_same_kc) (rule reconcileSubscribers_kc)

lemma kept_address: "kept s (fst (reconcile_address env ns s))"
proof -
  obtain s1 r where c: "reconcileChannelService env ns s = (s1, r)" by fastforce
  have k: "kept s s1" using kept_channel_service [of s env ns] c by simp
  have "kept s (fst (reconcileSubscribers env s3))" if "kept s s3" for s3
    using kept_trans [OF that kept_subscribers] .
  then show ?thesis
    using k by (simp add: reconcile_address_def c Let_def split_def split: sum.split option.split)
qed

lemma ReconcileKind_kept: "kept s (fst (ReconcileKind env s))"
proof -
  let ?s2 = "mark_status env st_InitializeConditions s\<lparr>rs_kc := SetDefaults (rs_kc (mark_status env st_InitializeConditions s))\<rparr>"
  have k2: "kept s ?s2" by (simp add: kept_def mark_status_def SetDefaults_def Let_def)
  have k5: "kept s (fst (reconcileDispatcher env ns s4))" if "kept s s4" for ns s4
    using kept_trans [OF that kept_dispatcher] .
  have k6: "kept s (fst (reconcileDispatcherService env ns s5))" if "kept s s5" for ns s5
    using kept_trans [OF that kept_dispatcher_service] .
  have k7: "kept s (fst (reconcile_address env ns s6))" if "kept s s6" for ns s6
    using kept_trans [OF that kept_address] .
  have k8: "kept s (fst (reconcile_endpoints env ns s6))" if "kept s s6" for ns s6
    using that k7 by (simp add: reconcile_endpoints_def Let_def split: sum.split)
  show ?thesis
    unfolding ReconcileKind_def
    using k2 k5 k6 k8 by (simp add: Let_def split_def split: sum.split option.split)
qed

section \<open>The controller as the business logic\<close>

text \<open>
  The controller's reconciler under the generated one (\<open>NewController\<close> passes it to \<open>NewImpl\<close> without
  options). Its own state goes from pass to pass except for the channel, which is the one it is called with.
\<close>

definition controller_business :: "env \<Rightarrow> rstate business" where
  "controller_business env =
     \<lparr>bz_ReconcileKind = (\<lambda>kc w. case ReconcileKind env (w\<lparr>rs_kc := kc\<rparr>) of (s, e) \<Rightarrow> (s, rs_kc s, Some e)),
      bz_FinalizeKind = Some (\<lambda>kc w. case FinalizeKind (w\<lparr>rs_kc := kc\<rparr>) of (s, e) \<Rightarrow> (s, rs_kc s, Some e)),
      bz_ObserveKind = None, bz_ObserveFinalizeKind = None, bz_ObserveDeletion = None\<rparr>"

lemma PreProcess_meta [simp]:
  "om_Generation (kc_Meta (PreProcessReconcile now kc)) = om_Generation (kc_Meta kc)"
  "kc_Namespace (PreProcessReconcile now kc) = kc_Namespace kc" "kc_Name (PreProcessReconcile now kc) = kc_Name kc"
  "st_Subscribers (kc_Status (PreProcessReconcile now kc)) = st_Subscribers (kc_Status kc)"
  by (simp_all add: PreProcessReconcile_def SetDefaults_def Let_def markUnknown_def)

lemma PostProcess_meta [simp]: "kc_Meta (PostProcessReconcile now kc old) = kc_Meta kc"
  "st_Subscribers (kc_Status (PostProcessReconcile now kc old)) = st_Subscribers (kc_Status kc)"
  "st_ObservedGeneration (kc_Status (PostProcessReconcile now kc old)) = om_Generation (kc_Meta kc)"
  by (simp_all add: PostProcessReconcile_def groomConditionsTransitionTime_def)

text \<open>The leader's pass over a channel that has the finalizer, up to the status update.\<close>

lemma controller_run_method:
  assumes "ri_reconciler r = controller_business env" "\<not> ri_skipStatusUpdates r"
    and "s_isLeader s" "om_DeletionTimestamp (kc_Meta original) = None"
    and "ri_Lister r (kc_Namespace original) (kc_Name original) = Inr original"
    and "ri_finalizerName r \<in> set (om_Finalizers (kc_Meta original))"
  defines "pre \<equiv> PreProcessReconcile (ri_preTime r)
    (with_finalizers (sorted_list_of_set (set (om_Finalizers (kc_Meta original)))) original)"
  assumes "ReconcileKind env ((g_world g)\<lparr>rs_kc := pre\<rparr>) = (w, e)"
  shows "run_method r s original g =
    (g\<lparr>g_world := w, g_log := g_log g @ [Called DoReconcileKind pre]\<rparr>,
     Inr (PostProcessReconcile (ri_postTime r) (rs_kc w) original, Some e))"
proof -
  have meth: "reconcileMethodFor r s original = (DoReconcileKind, Some (bz_ReconcileKind (controller_business env)))"
    using assms(1,3,4) by (simp add: reconcileMethodFor_def Let_def)
  have set: "setFinalizerIfFinalizer r original g =
      (g, Inr (with_finalizers (sorted_list_of_set (set (om_Finalizers (kc_Meta original)))) original))"
    using assms(1,4,5,6)
    by (simp add: setFinalizerIfFinalizer_def updateFinalizersFiltered_def controller_business_def with_finalizers_def insert_absorb Let_def)
  show ?thesis
    unfolding run_method_def meth by (simp add: set assms(2) pre_def [symmetric] call_method_def controller_business_def assms(8))
qed

lemma PreProcess_valid: "Validate (SetDefaults (PreProcessReconcile now (with_finalizers fs kc))) = None \<longleftrightarrow> Validate (SetDefaults kc) = None"
proof -
  let ?kc = "PreProcessReconcile now (with_finalizers fs kc)"
  have pp: "kc_Spec ?kc = kc_Spec (SetDefaults kc)" "om_Annotations (kc_Meta ?kc) = om_Annotations (kc_Meta (SetDefaults kc))"
    by (simp_all add: PreProcessReconcile_def SetDefaults_def with_finalizers_def Let_def)
  have "kc_Spec (SetDefaults ?kc) = kc_Spec (SetDefaults (SetDefaults kc))"
    using pp(1) by (simp add: SetDefaults_def [of ?kc] SetDefaults_def [of "SetDefaults kc"] Let_def)
  then have "kc_Spec (SetDefaults ?kc) = kc_Spec (SetDefaults kc)" by (simp add: SetDefaults_idempotent)
  moreover have "bad_scope (SetDefaults ?kc) = bad_scope (SetDefaults kc)"
    using pp(2) by (simp add: SetDefaults_scope [of ?kc]) (simp add: bad_scope_def)
  ultimately show ?thesis by (simp add: Validate_None_iff)
qed

lemma groom_fields [simp]:
  "c_Type (groom_condition now old c) = c_Type c" "c_Status (groom_condition now old c) = c_Status c"
proof -
  have "\<exists>t. groom_condition now old c = c\<lparr>c_LastTransitionTime := t\<rparr>"
    by (auto simp: groom_condition_def Let_def intro: sym split: option.split)
  then show "c_Type (groom_condition now old c) = c_Type c" "c_Status (groom_condition now old c) = c_Status c" by auto
qed

lemma groom_status_of: "status_of (map (groom_condition now old) conds) t = status_of conds t"
  by (induction conds) (simp_all add: status_of_def GetCondition_def)

lemma PostProcess_IsReady [simp]: "IsReady_status (kc_Status (PostProcessReconcile now kc old)) = IsReady_status (kc_Status kc)"
  by (simp add: IsReady_status_def IsHappy_def IsTrue_status_of PostProcessReconcile_def groomConditionsTransitionTime_def groom_status_of)

lemma updateStatus_first:
  assumes ne: "\<not> Semantic_DeepEqual (kc_Status existing) (kc_Status desired)" and "updateStatus r existing desired g = (h, e)"
  shows "\<exists>kc new. g_log h = g_log g @ UpdateStatus kc # new"
proof -
  let ?kc = "existing\<lparr>kc_Status := kc_Status desired\<rparr>" and ?u = "update_attempt r existing desired"
  have first: "?u 0 g = (g_emit (UpdateStatus ?kc) g, ri_updateStatus r (g_log g) ?kc)"
    using ne by (simp add: update_attempt_def Let_def)
  have "logs (\<lambda>_. True) (g_emit (UpdateStatus ?kc) g) (fst (RetryUpdateConflicts ?u 4 1 (g_emit (UpdateStatus ?kc) g)))"
    by (rule retry_logs) (rule logs_mono [OF update_attempt_logs], simp)
  moreover have "h = g_emit (UpdateStatus ?kc) g \<or> h = fst (RetryUpdateConflicts ?u 4 1 (g_emit (UpdateStatus ?kc) g))"
    using assms(2) first unfolding updateStatus_def
    by (auto simp: eval_nat_numeral split: option.splits if_splits)
  ultimately show ?thesis by (auto simp: logs_def)
qed

text \<open>What a leading controller logs for a channel that has the finalizer.\<close>

lemma controller_pass:
  assumes "SplitMetaNamespaceKey key = Inr (ns, name)" and "ri_IsLeaderFor r \<lparr>nn_Namespace = ns, nn_Name = name\<rparr>"
    and "ri_Lister r ns name = Inr original" and "kc_Namespace original = ns" and "kc_Name original = name"
    and "om_DeletionTimestamp (kc_Meta original) = None" and "ri_finalizerName r \<in> set (om_Finalizers (kc_Meta original))"
    and "ri_reconciler r = controller_business env" and "\<not> ri_skipStatusUpdates r"
  obtains pre w e g1 where
    "pre = PreProcessReconcile (ri_preTime r) (with_finalizers (sorted_list_of_set (set (om_Finalizers (kc_Meta original)))) original)"
    "ReconcileKind env ((g_world g)\<lparr>rs_kc := pre\<rparr>) = (w, e)"
    "g_log g1 = g_log g @ [Called DoReconcileKind pre]"
    "logs (\<lambda>c. is_status_call (kc_Status (PostProcessReconcile (ri_postTime r) (rs_kc w) original)) c) g1 (fst (Reconcile r key g))"
    "\<not> Semantic_DeepEqual (kc_Status original) (kc_Status (PostProcessReconcile (ri_postTime r) (rs_kc w) original)) \<Longrightarrow>
       \<exists>kc. UpdateStatus kc \<in> set (drop (length (g_log g1)) (g_log (fst (Reconcile r key g))))"
proof -
  from newState_Inr [OF assms(1), of r] assms(2) obtain s where s: "newState key r = Inr s" "s_isLeader s" "s_namespace s = ns" "s_name s = name"
    by auto
  have lead: "\<not> isNotLeaderNorObserver s" using s(2) by (simp add: isNotLeaderNorObserver_def)
  have lst: "ri_Lister r (s_namespace s) (s_name s) = Inr original" using s assms(3) by simp
  define pre where "pre = PreProcessReconcile (ri_preTime r) (with_finalizers (sorted_list_of_set (set (om_Finalizers (kc_Meta original)))) original)"
  obtain w e where run: "ReconcileKind env ((g_world g)\<lparr>rs_kc := pre\<rparr>) = (w, e)" by fastforce
  let ?post = "PostProcessReconcile (ri_postTime r) (rs_kc w) original"
  define g1 where "g1 = g\<lparr>g_world := w, g_log := g_log g @ [Called DoReconcileKind pre]\<rparr>"
  have rm: "run_method r s original g = (g1, Inr (?post, Some e))"
    using controller_run_method [OF assms(8,9) s(2) assms(6) _ assms(7), of g w e] assms(3-5) run by (simp add: pre_def g1_def)
  obtain g2 se where sy: "sync_status r s original ?post g1 = (g2, se)" by fastforce
  have eq: "fst (Reconcile r key g) = (case se of Some _ \<Rightarrow> g2 | None \<Rightarrow> fst (report_event (Some e) g2))"
    by (simp add: Reconcile_found [OF s(1) lead lst rm] sy split: option.split)
  have l2: "logs (is_status_call (kc_Status ?post)) g1 g2"
    using sync_status_logs [of ?post g1 r s original] sy by simp
  have "logs (is_status_call (kc_Status ?post)) g2 (fst (report_event (Some e) g2))"
    using report_event_logs by (rule logs_mono) (case_tac c; simp)
  with l2 have tail: "logs (is_status_call (kc_Status ?post)) g1 (fst (Reconcile r key g))"
    by (auto simp: eq intro: logs_trans split: option.split)
  have "\<exists>kc. UpdateStatus kc \<in> set (drop (length (g_log g1)) (g_log (fst (Reconcile r key g))))"
    if ne: "\<not> Semantic_DeepEqual (kc_Status original) (kc_Status ?post)"
  proof -
    obtain h e1 where u: "updateStatus r original ?post g1 = (h, e1)" by fastforce
    have "\<exists>kc new. g_log h = g_log g1 @ UpdateStatus kc # new"
      using updateStatus_first [OF ne u] .
    moreover have "logs (\<lambda>_. True) h (fst (Reconcile r key g))"
      using sy u assms(9) ne s(2) report_event_logs [of g2 "Some e"]
      by (auto simp: eq sync_status_def intro: logs_mono logs_trans [OF logs_emit] logs_emit split: option.splits)
    ultimately show ?thesis by (auto simp: logs_def)
  qed
  then show ?thesis using that [OF pre_def run _ tail] by (simp add: g1_def)
qed

text \<open>A channel \<open>ns/ch\<close> as the API server has it after a change: generation 2, not yet observed.\<close>

definition sample_stored :: "int32 \<Rightarrow> KafkaTopicChannel" where
  "sample_stored n =
     (let kc = with_finalizers [defaultFinalizerName] (sample_channel n []) in
      kc\<lparr>kc_Meta := (kc_Meta kc)\<lparr>om_Generation := 2\<rparr>, kc_Status := sample_initial_status\<rparr>)"

definition sample_store :: "int32 \<Rightarrow> indexer" where
  "sample_store n = store_Add (sample_stored n) new_indexer"

definition sample_controller :: "int32 \<Rightarrow> rstate reconcilerImpl" where
  "sample_controller n =
     \<lparr>ri_IsLeaderFor = (\<lambda>_. True), ri_get = (\<lambda>_ _ _. Inr (sample_stored n)), ri_updateStatus = (\<lambda>_ _. None),
      ri_patch = (\<lambda>_ _ _ fs _. Inr (with_finalizers fs (sample_stored n))), ri_marshalPatch = (\<lambda>_ _. None),
      ri_Lister = (\<lambda>ns name. namespace_Get ns name (sample_store n)), ri_reconciler = controller_business sample_env,
      ri_finalizerName = defaultFinalizerName, ri_skipStatusUpdates = False, ri_preTime = 1, ri_postTime = 1\<rparr>"

definition sample_controller_state :: "rstate gstate" where
  "sample_controller_state = \<lparr>g_world = sample_state (sample_channel 1 []) sample_prober, g_log = []\<rparr>"

lemma sample_stored_simps [simp]:
  "kc_Namespace (sample_stored n) = ''ns''" "kc_Name (sample_stored n) = ''ch''"
  "om_DeletionTimestamp (kc_Meta (sample_stored n)) = None" "om_Finalizers (kc_Meta (sample_stored n)) = [defaultFinalizerName]"
  "om_Generation (kc_Meta (sample_stored n)) = 2" "kc_Status (sample_stored n) = sample_initial_status"
  by (simp_all add: sample_stored_def with_finalizers_def sample_defs)

lemma sample_controller_simps [simp]:
  "ri_IsLeaderFor (sample_controller n) k" "ri_Lister (sample_controller n) = (\<lambda>ns name. namespace_Get ns name (sample_store n))"
  "ri_finalizerName (sample_controller n) = defaultFinalizerName" "\<not> ri_skipStatusUpdates (sample_controller n)"
  "ri_reconciler (sample_controller n) = controller_business sample_env"
  by (simp_all add: sample_controller_def)

lemma sample_store_simps [simp]: "ix_reachable (sample_store n)" "namespace_Get ''ns'' ''ch'' (sample_store n) = Inr (sample_stored n)"
proof -
  have "named (sample_stored n)" by (simp add: named_def)
  then show "ix_reachable (sample_store n)" unfolding sample_store_def by (intro ix_reachable.intros)
  show "namespace_Get ''ns'' ''ch'' (sample_store n) = Inr (sample_stored n)"
    by (simp add: sample_store_def namespace_Get_def store_Add_def MetaNamespaceKeyFunc_def Let_def)
qed

lemma sample_initial_fields [simp]:
  "st_ObservedGeneration sample_initial_status = 0" "st_Subscribers sample_initial_status = []"
  by (simp_all add: sample_initial_status_def st_InitializeConditions_def sample_status_def)

section \<open>The dispatcher's reconciler as the business logic\<close>

text \<open>
  \<open>NewController\<close> of the dispatcher passes its reconciler to \<open>NewImpl\<close> with \<open>SkipStatusUpdates\<close>. It
  implements \<open>ReconcileKind\<close> and \<open>ObserveKind\<close>. Its state is the dispatcher, or \<open>Panics\<close> once the
  process has crashed.
\<close>

definition sync_method ::
  "(KafkaTopicChannel \<Rightarrow> KafkaDispatcher \<Rightarrow> (KafkaDispatcher \<times> go_error option) outcome) \<Rightarrow> KafkaDispatcher outcome doReconcile" where
  "sync_method sync kc w =
     (case w of
        Panics \<Rightarrow> (Panics, kc, None)
      | Returns d \<Rightarrow> (case sync kc d of Panics \<Rightarrow> (Panics, kc, None) | Returns (d', e) \<Rightarrow> (Returns d', kc, e)))"

definition dispatcher_business ::
  "(string \<Rightarrow> go_error + int) \<Rightarrow> start_fun \<Rightarrow> close_fun \<Rightarrow> string \<Rightarrow> (uid set \<Rightarrow> uid list) \<Rightarrow> (uid set \<Rightarrow> uid list) \<Rightarrow>
   KafkaDispatcher outcome business" where
  "dispatcher_business pp startCG closeCG topic ordAdd ordRemove =
     \<lparr>bz_ReconcileKind = sync_method (sync_ReconcileKind pp startCG closeCG topic ordAdd ordRemove),
      bz_FinalizeKind = None,
      bz_ObserveKind = Some (sync_method (ObserveKind pp startCG closeCG topic ordAdd ordRemove)),
      bz_ObserveFinalizeKind = None, bz_ObserveDeletion = None\<rparr>"

definition dispatcher_options :: "Options list" where
  "dispatcher_options = [\<lparr>op_FinalizerName = '''', op_AgentName = '''', op_SkipStatusUpdates = True\<rparr>]"

lemma syncChannel_no_event:
  "syncChannel pp startCG closeCG topic ordAdd ordRemove kc d = Returns (d', Some e) \<Longrightarrow> EventAs e = None"
  by (auto simp: syncChannel_def RegisterChannelHost_def Let_def split: if_splits outcome.splits prod.splits option.splits)

definition sample_replica :: "bool \<Rightarrow> KafkaDispatcher outcome reconcilerImpl" where
  "sample_replica leader =
     \<lparr>ri_IsLeaderFor = (\<lambda>_. leader), ri_get = (\<lambda>_ _ _. Inr (sample_served_channel [])), ri_updateStatus = (\<lambda>_ _. None),
      ri_patch = (\<lambda>_ _ _ fs _. Inr (sample_served_channel [])), ri_marshalPatch = (\<lambda>_ _. None),
      ri_Lister = (\<lambda>_ _. Inr (sample_served_channel [])),
      ri_reconciler = dispatcher_business (\<lambda>_. Inr 0) (\<lambda>_ _ _. None) (\<lambda>_ _. None) ''topic'' sorted_list_of_set sorted_list_of_set,
      ri_finalizerName = defaultFinalizerName, ri_skipStatusUpdates = True, ri_preTime = 1, ri_postTime = 1\<rparr>"

section \<open>Probing a dispatcher\<close>

text \<open>What the prober sees of an answer of the endpoint.\<close>

definition wire :: "(uid \<rightharpoonup> int list) Response \<Rightarrow> probe_response" where
  "wire w = HttpResponse (w_Code w) (w_Body w)"

text \<open>The pairs of a subscription and a partition that the dispatcher has ready for a channel.\<close>

definition channel_ready :: "KafkaDispatcher \<Rightarrow> NamespacedName \<Rightarrow> (uid \<times> int) set" where
  "channel_ready d c = (case d_channelSubscriptions d c of None \<Rightarrow> {} | Some p \<Rightarrow> ready_pairs (d_store d p))"

section \<open>The first pass over a new channel\<close>

text \<open>
  An environment in which nothing exists yet, every object is created on request, and the dispatcher's
  deployment is available at once.
\<close>

definition sample_available :: "DeploymentCondition list" where
  "sample_available = [\<lparr>dc_Type = ''Available'', dc_Status = ConditionTrue, dc_Reason = '''', dc_Message = ''''\<rparr>]"

definition fresh_env :: env where
  "fresh_env = sample_env\<lparr>env_createDeployment := (\<lambda>d. Inr (d\<lparr>dp_Conditions := sample_available\<rparr>))\<rparr>"

definition fresh_rstate :: rstate where
  "fresh_rstate = (sample_state (sample_channel 1 []) sample_prober)\<lparr>rs_deployments := (\<lambda>_ _. Inl (ApiNotFound ''''))\<rparr>"

lemmas fresh_defs = fresh_env_def fresh_rstate_def sample_env_def sample_state_def

lemma fresh_dispatcher:
  "rs_deployments s = rs_deployments fresh_rstate \<Longrightarrow> \<exists>es d. reconcileDispatcher fresh_env ns s =
     (mark_status fresh_env (\<lambda>now. PropagateDispatcherStatus now sample_available) (s\<lparr>rs_effects := es\<rparr>), Inr d)"
  by (auto simp: reconcileDispatcher_def reconcileServiceAccount_def reconcileRoleBinding_def reconcile_deployment_def
      Let_def propagate_deployment_def emit_def fresh_defs)

lemma fresh_service:
  "\<exists>es d. reconcileDispatcherService fresh_env ns s = (mark_status fresh_env MarkServiceTrue (s\<lparr>rs_effects := es\<rparr>), Inr d)"
  by (auto simp: reconcileDispatcherService_def fresh_defs Let_def emit_def)

lemma fresh_channel_service: "\<exists>es d. reconcileChannelService fresh_env ns s = (s\<lparr>rs_effects := es\<rparr>, Inr d)"
  by (auto simp: reconcileChannelService_def MakeK8sService_def ExternalService_def fresh_defs Let_def emit_def split: sum.splits)

lemma fresh_endpoints:
  assumes "sp_Subscribers (kc_Spec (rs_kc s)) = []"
  shows "\<exists>es m u. reconcile_endpoints fresh_env ns s =
    ((mark_status fresh_env (\<lambda>now. SetAddress now (Some u)) (mark_status fresh_env MarkChannelServiceTrue
        (mark_status fresh_env MarkEndpointsTrue s)))\<lparr>rs_effects := es, rs_statusManager := m\<rparr>,
     newReconciledNormal (kc_Namespace (rs_kc s)) (kc_Name (rs_kc s)))"
proof -
  obtain es d where c: "reconcileChannelService fresh_env ns (mark_status fresh_env MarkEndpointsTrue s) =
      ((mark_status fresh_env MarkEndpointsTrue s)\<lparr>rs_effects := es\<rparr>, Inr d)" using fresh_channel_service by blast
  have e: "env_endpointsLister fresh_env ns n = Inr [[''10.0.0.1'']]" for n by (simp add: fresh_defs)
  have subs: "reconcileSubscribers fresh_env s3 = (s3, None)" if "sp_Subscribers (kc_Spec (rs_kc s3)) = []" for s3
    using that by (simp add: reconcileSubscribers_def fresh_defs Let_def)
  let ?m = "mark_status fresh_env" and ?u = "\<lparr>url_Scheme = ''http'', url_Host = GetServiceHostname (env_clusterDomain fresh_env)
    (om_Name (sv_Meta d)) (om_Namespace (sv_Meta d)), url_Path = ''''\<rparr>"
  let ?s3 = "?m (\<lambda>now. SetAddress now (Some ?u)) (?m MarkChannelServiceTrue ((?m MarkEndpointsTrue s)\<lparr>rs_effects := es\<rparr>))"
  have s3: "sp_Subscribers (kc_Spec (rs_kc ?s3)) = []" using assms by (simp add: mark_status_def)
  have "reconcile_endpoints fresh_env ns s = (?s3, newReconciledNormal (kc_Namespace (rs_kc ?s3)) (kc_Name (rs_kc ?s3)))"
    by (simp add: reconcile_endpoints_def reconcile_address_def Let_def e c subs [OF s3])
  also have "\<dots> = ((?m (\<lambda>now. SetAddress now (Some ?u)) (?m MarkChannelServiceTrue (?m MarkEndpointsTrue s)))\<lparr>rs_effects := es,
      rs_statusManager := rs_statusManager s\<rparr>, newReconciledNormal (kc_Namespace (rs_kc s)) (kc_Name (rs_kc s)))"
    by (simp add: mark_status_def)
  finally show ?thesis by blast
qed

text \<open>The channel as the first pass leaves it.\<close>

definition fresh_conditions :: "KafkaTopicChannelStatus" where
  "fresh_conditions = MarkChannelServiceTrue 6 (MarkEndpointsTrue 5 (MarkServiceTrue 4
     (PropagateDispatcherStatus 3 sample_available
        (MarkTopicTrue 2 (MarkConfigTrue 1 (st_InitializeConditions 0 sample_status))))))"

lemma fresh_pass:
  "\<exists>s' u. ReconcileKind fresh_env fresh_rstate = (s', newReconciledNormal ''ns'' ''ch'') \<and>
     rs_kc s' = (SetDefaults (sample_channel 1 []))\<lparr>kc_Status := SetAddress 7 (Some u) fresh_conditions\<rparr>"
proof -
  let ?m = "mark_status fresh_env"
  let ?s2 = "?m st_InitializeConditions fresh_rstate"
  let ?s4 = "?m MarkTopicTrue (?m MarkConfigTrue (?s2\<lparr>rs_kc := SetDefaults (rs_kc ?s2)\<rparr>))"
  have v: "Validate (SetDefaults (rs_kc ?s2)) = None"
    by (simp add: Validate_None_iff SetDefaults_def spec_SetDefaults_def mark_status_def fresh_defs sample_defs bad_scope_def)
  have n: "kc_Namespace (rs_kc ?s4) = ''ns''" "kc_Name (rs_kc ?s4) = ''ch''" "sp_Subscribers (kc_Spec (rs_kc ?s4)) = []"
    "rs_deployments ?s4 = rs_deployments fresh_rstate"
    by (simp_all add: SetDefaults_def spec_SetDefaults_def mark_status_def fresh_defs sample_defs)
  obtain es5 d5 where d5: "reconcileDispatcher fresh_env ''ns'' ?s4 =
      (?m (\<lambda>now. PropagateDispatcherStatus now sample_available) (?s4\<lparr>rs_effects := es5\<rparr>), Inr d5)" (is "_ = (?s5, _)")
    using fresh_dispatcher [OF n(4)] by blast
  obtain es6 d6 where d6: "reconcileDispatcherService fresh_env ''ns'' ?s5 = (?m MarkServiceTrue (?s5\<lparr>rs_effects := es6\<rparr>), Inr d6)"
      (is "_ = (?s6, _)")
    using fresh_service by blast
  have n6: "sp_Subscribers (kc_Spec (rs_kc ?s6)) = []" "kc_Namespace (rs_kc ?s6) = ''ns''" "kc_Name (rs_kc ?s6) = ''ch''"
    using n by (simp_all add: mark_status_def)
  from fresh_endpoints [OF n6(1), of "''ns''"] obtain es m u where d7: "reconcile_endpoints fresh_env ''ns'' ?s6 =
    ((?m (\<lambda>now. SetAddress now (Some u)) (?m MarkChannelServiceTrue (?m MarkEndpointsTrue ?s6)))\<lparr>rs_effects := es, rs_statusManager := m\<rparr>,
     newReconciledNormal ''ns'' ''ch'')" (is "_ = (?s7, _)") unfolding n6 by blast
  have run: "ReconcileKind fresh_env fresh_rstate = (?s7, newReconciledNormal ''ns'' ''ch'')"
    unfolding ReconcileKind_def Let_def using v n d5 d6 d7 by simp
  have "rs_kc ?s7 = (SetDefaults (sample_channel 1 []))\<lparr>kc_Status := SetAddress 7 (Some u) fresh_conditions\<rparr>"
    by (simp add: fresh_conditions_def mark_status_def fresh_defs SetDefaults_def sample_channel_def Let_def)
  with run show ?thesis by blast
qed

lemma fresh_ready: "IsReady_status (SetAddress 7 (Some u) fresh_conditions)"
proof -
  have "IsReady_status (markTrue 7 Addressable fresh_conditions)" by code_simp
  then show ?thesis by (simp add: SetAddress_eq)
qed

text \<open>The dispatcher accepts the channel as the first pass leaves it.\<close>

lemma fresh_sync:
  assumes "kc = (SetDefaults (sample_channel 1 []))\<lparr>kc_Status := SetAddress 7 (Some u) fresh_conditions\<rparr>"
  shows "\<exists>d'. syncChannel pp startCG closeCG topic sorted_list_of_set sorted_list_of_set kc NewDispatcher = Returns (d', None)"
proof -
  have "IsReady_status (kc_Status kc)" using fresh_ready by (simp add: assms)
  moreover have "st_Address (kc_Status kc) = Some (Some u)" by (simp add: assms SetAddress_eq)
  moreover have "sp_Subscribers (kc_Spec kc) = []" by (simp add: assms SetDefaults_def spec_SetDefaults_def sample_defs)
  ultimately show ?thesis
    by (simp add: syncChannel_def newConfigFromKafkaChannel_def RegisterChannelHost_def ReconcileConsumers_def
        NewDispatcher_def SubscriptionsUIDs_def Let_def)
qed

section \<open>After a callback\<close>

lemma prober_runs_evolve: "prober_step\<^sup>*\<^sup>* m m' \<Longrightarrow> prober_inv m \<Longrightarrow> prober_inv m' \<and> evolves m m'"
  by (induction rule: rtranclp_induct) (auto dest: prober_step_spec intro: evolves_trans)

text \<open>A state that a callback was made for answers True as long as it is the one of its subscription.\<close>

lemma called_is_ready:
  assumes "prober_inv m" "call \<in> set (p_calls m)" "prober_step\<^sup>*\<^sup>* m m'"
    and "p_targetStates m' (ss_UID (rc_sub call)) = Some (rc_state call)" "lister ch = Inr target"
  shows "snd (IsReady ord lister ch (rc_sub call) m') = Inr True"
proof -
  have c: "rc_state call < p_nextState m" "ts_ready (p_states m (rc_state call))" "rc_sub call = ts_sub (p_states m (rc_state call))"
    using assms(1,2) by (auto simp: prober_inv_def calls_inv_def)
  from prober_runs_evolve [OF assms(3,1)] c have "ts_ready (p_states m' (rc_state call))" "ts_sub (p_states m' (rc_state call)) = rc_sub call"
    by (auto simp: evolves_def state_le_def)
  then show ?thesis using assms(4,5) by (simp add: IsReady_def isOutdatedTargetState_def checkReadiness_def state_check_def)
qed

end
