(* ===== verification/DeepCopy.thy ===== *)
theory DeepCopy
  imports ApiTypes
begin

text \<open>
  The generated deep copies of the API types (\<open>zz_generated.deepcopy.go\<close>) on an explicit heap. Elsewhere in the
  development a channel is an immutable value; here it is a structure whose pointers, slices and maps are
  addresses of cells, and a copy has to allocate cells of its own. The value of a structure is what it reads as.
\<close>

section \<open>Memory\<close>

text \<open>
  A \<open>ptr\<close> is a possibly nil pointer, slice or map. Structures inside a cell are tuples of their fields.
\<close>

type_synonym ptr = "nat option"
type_synonym delivery_fields = "ptr \<times> ptr \<times> ptr \<times> ptr"
type_synonym subscriber_fields = "(uid \<times> int) \<times> ptr \<times> ptr \<times> ptr"
type_synonym owner_fields = "(string \<times> string \<times> string \<times> uid) \<times> ptr"

datatype cell =
    StringsCell "string list"
  | MapCell "string \<rightharpoonup> string"
  | UrlCell Url
  | PtrCell ptr
  | Int32Cell int32
  | TextCell string
  | BoolCell bool
  | TimeCell time
  | SecretCell SecretKeySelector
  | DeliveryCell delivery_fields
  | SubscribersCell "subscriber_fields list"
  | OwnersCell "owner_fields list"
  | ConditionsCell "Condition list"
  | StatusesCell "SubscriberStatus list"

record mem =
  m_cells :: "nat \<Rightarrow> cell"
  m_next :: nat

definition new :: "cell \<Rightarrow> mem \<Rightarrow> mem \<times> nat" where
  "new c h = (h\<lparr>m_cells := (m_cells h)(m_next h := c), m_next := Suc (m_next h)\<rparr>, m_next h)"

text \<open>
  The contract of a deep copy: \<open>reach\<close> are the addresses a structure leads to, \<open>view\<close> is what it reads as. A
  copy leaves the old cells alone, reads as the original, and leads only to new cells.
\<close>

locale copyable =
  fixes reach :: "mem \<Rightarrow> 'a \<Rightarrow> nat set" and copy :: "'a \<Rightarrow> mem \<Rightarrow> mem \<times> 'a" and view :: "mem \<Rightarrow> 'a \<Rightarrow> 'v"
  assumes local: "(\<And>a. a \<in> reach h x \<Longrightarrow> m_cells h' a = m_cells h a) \<Longrightarrow> reach h' x = reach h x \<and> view h' x = view h x"
    and copied: "reach h x \<subseteq> {..<m_next h} \<Longrightarrow> copy x h = (h', y) \<Longrightarrow>
      m_next h \<le> m_next h' \<and> (\<forall>a < m_next h. m_cells h' a = m_cells h a) \<and>
      reach h' y \<subseteq> {m_next h..<m_next h'} \<and> view h' y = view h x"
begin

lemma copy_keeps:
  assumes "reach h x \<subseteq> {..<m_next h}" "copy x h = (h', y)"
  shows "reach h' x = reach h x" "view h' x = view h x" "reach h' x \<inter> reach h' y = {}"
proof -
  note c = copied [OF assms]
  have "m_cells h' a = m_cells h a" if "a \<in> reach h x" for a using that assms(1) c by auto
  then show r: "reach h' x = reach h x" and "view h' x = view h x" using local by blast+
  show "reach h' x \<inter> reach h' y = {}" using r assms(1) c by fastforce
qed

text \<open>Whatever is written through the copy does not show in the original, and the other way round.\<close>

lemma independent:
  assumes "reach h x \<subseteq> {..<m_next h}" "copy x h = (h', y)"
  shows "(\<And>a. a \<notin> reach h' y \<Longrightarrow> m_cells h'' a = m_cells h' a) \<Longrightarrow> view h'' x = view h x"
    and "(\<And>a. a \<notin> reach h' x \<Longrightarrow> m_cells h'' a = m_cells h' a) \<Longrightarrow> view h'' y = view h x"
proof -
  note k = copy_keeps [OF assms]
  show "view h'' x = view h x" if w: "\<And>a. a \<notin> reach h' y \<Longrightarrow> m_cells h'' a = m_cells h' a"
  proof -
    have "reach h'' x = reach h' x \<and> view h'' x = view h' x" by (rule local) (rule w, use k(3) in auto)
    then show ?thesis using k(2) by simp
  qed
  show "view h'' y = view h x" if w: "\<And>a. a \<notin> reach h' x \<Longrightarrow> m_cells h'' a = m_cells h' a"
  proof -
    have "reach h'' y = reach h' y \<and> view h'' y = view h' y" by (rule local) (rule w, use k(3) in auto)
    then show ?thesis using copied [OF assms] by simp
  qed
qed

end

section \<open>Copies of plain values, pairs, pointers and slices\<close>

definition reach_pair where "reach_pair ra rb h p = ra h (fst p) \<union> rb h (snd p)"
definition view_pair where "view_pair va vb h p = (va h (fst p), vb h (snd p))"

definition copy_pair where
  "copy_pair ca cb p h = (case ca (fst p) h of (h1, x) \<Rightarrow> case cb (snd p) h1 of (h2, y) \<Rightarrow> (h2, (x, y)))"

definition reach_ptr where
  "reach_ptr ra get h p = (case p of None \<Rightarrow> {} | Some a \<Rightarrow> insert a (ra h (get (m_cells h a))))"
definition view_ptr where "view_ptr va get h p = map_option (\<lambda>a. va h (get (m_cells h a))) p"

text \<open>\<open>if in != nil\<close>: copy what the pointer leads to into a new cell.\<close>

definition copy_ptr where
  "copy_ptr ca get put p h =
     (case p of
        None \<Rightarrow> (h, None)
      | Some a \<Rightarrow> (case ca (get (m_cells h a)) h of (h1, x) \<Rightarrow> case new (put x) h1 of (h2, b) \<Rightarrow> (h2, Some b)))"

definition reach_list where "reach_list ra h xs = \<Union> (set (map (ra h) xs))"
definition view_list where "view_list va h xs = map (va h) xs"

fun copy_list where
  "copy_list ca [] h = (h, [])"
| "copy_list ca (x # xs) h = (case ca x h of (h1, y) \<Rightarrow> case copy_list ca xs h1 of (h2, ys) \<Rightarrow> (h2, y # ys))"

definition reach_plain :: "mem \<Rightarrow> 'a \<Rightarrow> nat set" where "reach_plain h x = {}"
definition view_plain :: "mem \<Rightarrow> 'a \<Rightarrow> 'a" where "view_plain h x = x"
definition copy_plain :: "'a \<Rightarrow> mem \<Rightarrow> mem \<times> 'a" where "copy_plain x h = (h, x)"

lemma copyable_plain [intro]: "copyable reach_plain copy_plain view_plain"
  by unfold_locales (auto simp: reach_plain_def copy_plain_def view_plain_def)

lemma copyable_pair [intro]:
  assumes "copyable ra ca va" "copyable rb cb vb"
  shows "copyable (reach_pair ra rb) (copy_pair ca cb) (view_pair va vb)"
proof -
  note A = assms(1) and B = assms(2)
  show ?thesis
  proof
    fix h h' :: mem and x :: "'a \<times> 'c"
    assume eq: "\<And>a. a \<in> reach_pair ra rb h x \<Longrightarrow> m_cells h' a = m_cells h a"
    show "reach_pair ra rb h' x = reach_pair ra rb h x \<and> view_pair va vb h' x = view_pair va vb h x"
      using copyable.local [OF A, of h "fst x" h'] copyable.local [OF B, of h "snd x" h'] eq
      by (auto simp: reach_pair_def view_pair_def)
  next
    fix h h' :: mem and x y :: "'a \<times> 'c"
    assume r: "reach_pair ra rb h x \<subseteq> {..<m_next h}" and c: "copy_pair ca cb x h = (h', y)"
    from c obtain h1 y1 y2 where c1: "ca (fst x) h = (h1, y1)" and c2: "cb (snd x) h1 = (h', y2)" and y: "y = (y1, y2)"
      by (auto simp: copy_pair_def split: prod.splits)
    have ra: "ra h (fst x) \<subseteq> {..<m_next h}" and rb: "rb h (snd x) \<subseteq> {..<m_next h}" using r by (auto simp: reach_pair_def)
    note a = copyable.copied [OF A ra c1]
    have same: "rb h1 (snd x) = rb h (snd x)" "vb h1 (snd x) = vb h (snd x)"
      using copyable.local [OF B, of h "snd x" h1] rb a by auto
    then have "rb h1 (snd x) \<subseteq> {..<m_next h1}" using rb a by auto
    note b = copyable.copied [OF B this c2]
    have "ra h' y1 = ra h1 y1 \<and> va h' y1 = va h1 y1" by (rule copyable.local [OF A]) (use a b in auto)
    then show "m_next h \<le> m_next h' \<and> (\<forall>a < m_next h. m_cells h' a = m_cells h a) \<and>
        reach_pair ra rb h' y \<subseteq> {m_next h..<m_next h'} \<and> view_pair va vb h' y = view_pair va vb h x"
      using a b same by (auto simp: y reach_pair_def view_pair_def)
  qed
qed

lemma copyable_ptr [intro]:
  assumes A: "copyable ra ca va" and get: "\<And>x. get (put x) = x"
  shows "copyable (reach_ptr ra get) (copy_ptr ca get put) (view_ptr va get)"
proof
  fix h h' :: mem and p :: ptr
  assume eq: "\<And>a. a \<in> reach_ptr ra get h p \<Longrightarrow> m_cells h' a = m_cells h a"
  show "reach_ptr ra get h' p = reach_ptr ra get h p \<and> view_ptr va get h' p = view_ptr va get h p"
  proof (cases p)
    case (Some a)
    then have "m_cells h' a = m_cells h a" using eq by (simp add: reach_ptr_def)
    then show ?thesis using copyable.local [OF A, of h "get (m_cells h a)" h'] eq Some by (simp add: reach_ptr_def view_ptr_def)
  qed (simp add: reach_ptr_def view_ptr_def)
next
  fix h h' :: mem and p q :: ptr
  assume r: "reach_ptr ra get h p \<subseteq> {..<m_next h}" and c: "copy_ptr ca get put p h = (h', q)"
  show "m_next h \<le> m_next h' \<and> (\<forall>a < m_next h. m_cells h' a = m_cells h a) \<and>
      reach_ptr ra get h' q \<subseteq> {m_next h..<m_next h'} \<and> view_ptr va get h' q = view_ptr va get h p"
  proof (cases p)
    case None
    then show ?thesis using c by (auto simp: copy_ptr_def reach_ptr_def view_ptr_def)
  next
    case (Some a)
    let ?x = "get (m_cells h a)"
    obtain h1 y where c1: "ca ?x h = (h1, y)" and h': "h' = h1\<lparr>m_cells := (m_cells h1)(m_next h1 := put y), m_next := Suc (m_next h1)\<rparr>"
      and q: "q = Some (m_next h1)" using c Some by (auto simp: copy_ptr_def new_def split: prod.splits)
    have "ra h ?x \<subseteq> {..<m_next h}" using r Some by (simp add: reach_ptr_def)
    note a = copyable.copied [OF A this c1]
    have "ra h' y = ra h1 y \<and> va h' y = va h1 y" by (rule copyable.local [OF A]) (use a in \<open>auto simp: h'\<close>)
    moreover have "get (m_cells h' (m_next h1)) = y" by (simp add: h' get)
    ultimately show ?thesis using a by (auto simp: q reach_ptr_def view_ptr_def Some) (auto simp: h')
  qed
qed

lemma copyable_list [intro]:
  assumes A: "copyable ra ca va"
  shows "copyable (reach_list ra) (copy_list ca) (view_list va)"
proof
  fix h h' :: mem and xs :: "'a list"
  assume eq: "\<And>a. a \<in> reach_list ra h xs \<Longrightarrow> m_cells h' a = m_cells h a"
  have "ra h' x = ra h x \<and> va h' x = va h x" if "x \<in> set xs" for x
    by (rule copyable.local [OF A]) (use eq that in \<open>auto simp: reach_list_def\<close>)
  then show "reach_list ra h' xs = reach_list ra h xs \<and> view_list va h' xs = view_list va h xs"
    by (simp add: reach_list_def view_list_def)
next
  fix h h' :: mem and xs ys :: "'a list"
  assume "reach_list ra h xs \<subseteq> {..<m_next h}" "copy_list ca xs h = (h', ys)"
  then show "m_next h \<le> m_next h' \<and> (\<forall>a < m_next h. m_cells h' a = m_cells h a) \<and>
      reach_list ra h' ys \<subseteq> {m_next h..<m_next h'} \<and> view_list va h' ys = view_list va h xs"
  proof (induction xs arbitrary: h ys)
    case Nil
    then show ?case by (simp add: reach_list_def view_list_def)
  next
    case (Cons x xs)
    from Cons.prems(2) obtain h1 y zs where c1: "ca x h = (h1, y)" and c2: "copy_list ca xs h1 = (h', zs)" and ys: "ys = y # zs"
      by (auto split: prod.splits)
    have r: "ra h x \<subseteq> {..<m_next h}" "\<And>z. z \<in> set xs \<Longrightarrow> ra h z \<subseteq> {..<m_next h}"
      using Cons.prems(1) by (auto simp: reach_list_def)
    note a = copyable.copied [OF A r(1) c1]
    have same: "ra h1 z = ra h z \<and> va h1 z = va h z" if "z \<in> set xs" for z
      by (rule copyable.local [OF A]) (use r(2) [OF that] a in auto)
    have "reach_list ra h1 xs \<subseteq> {..<m_next h1}" using r(2) same a by (fastforce simp: reach_list_def)
    note b = Cons.IH [OF this c2]
    have "ra h' y = ra h1 y \<and> va h' y = va h1 y" by (rule copyable.local [OF A]) (use a b in auto)
    then show ?case using a b same by (auto simp: ys reach_list_def view_list_def)
  qed
qed

text \<open>The three functions of a type together, with the combinations above.\<close>

record ('a, 'v) copier =
  cp_reach :: "mem \<Rightarrow> 'a \<Rightarrow> nat set"
  cp_copy :: "'a \<Rightarrow> mem \<Rightarrow> mem \<times> 'a"
  cp_view :: "mem \<Rightarrow> 'a \<Rightarrow> 'v"

abbreviation good :: "('a, 'v) copier \<Rightarrow> bool" where
  "good C \<equiv> copyable (cp_reach C) (cp_copy C) (cp_view C)"

definition plainC :: "('a, 'a) copier" where
  "plainC = \<lparr>cp_reach = reach_plain, cp_copy = copy_plain, cp_view = view_plain\<rparr>"

definition pairC :: "('a, 'v) copier \<Rightarrow> ('b, 'w) copier \<Rightarrow> ('a \<times> 'b, 'v \<times> 'w) copier" where
  "pairC A B = \<lparr>cp_reach = reach_pair (cp_reach A) (cp_reach B), cp_copy = copy_pair (cp_copy A) (cp_copy B),
     cp_view = view_pair (cp_view A) (cp_view B)\<rparr>"

definition ptrC :: "(cell \<Rightarrow> 'a) \<Rightarrow> ('a \<Rightarrow> cell) \<Rightarrow> ('a, 'v) copier \<Rightarrow> (ptr, 'v option) copier" where
  "ptrC get put A = \<lparr>cp_reach = reach_ptr (cp_reach A) get, cp_copy = copy_ptr (cp_copy A) get put,
     cp_view = view_ptr (cp_view A) get\<rparr>"

definition listC :: "('a, 'v) copier \<Rightarrow> ('a list, 'v list) copier" where
  "listC A = \<lparr>cp_reach = reach_list (cp_reach A), cp_copy = copy_list (cp_copy A), cp_view = view_list (cp_view A)\<rparr>"

text \<open>A structure that is copied through the tuple of its fields and read through \<open>g\<close>.\<close>

definition structC :: "('r \<Rightarrow> 'a) \<Rightarrow> ('a \<Rightarrow> 'r) \<Rightarrow> ('v \<Rightarrow> 'w) \<Rightarrow> ('a, 'v) copier \<Rightarrow> ('r, 'w) copier" where
  "structC parts build g A = \<lparr>cp_reach = (\<lambda>h x. cp_reach A h (parts x)),
     cp_copy = (\<lambda>x h. case cp_copy A (parts x) h of (h1, t) \<Rightarrow> (h1, build t)), cp_view = (\<lambda>h x. g (cp_view A h (parts x)))\<rparr>"

lemma good_plain [simp]: "good plainC"
  by (simp add: plainC_def copyable_plain)

lemma good_pair [simp]: "good A \<Longrightarrow> good B \<Longrightarrow> good (pairC A B)"
  by (simp add: pairC_def copyable_pair)

lemma good_ptr [simp]: "good A \<Longrightarrow> (\<And>x. get (put x) = x) \<Longrightarrow> good (ptrC get put A)"
  by (simp add: ptrC_def copyable_ptr)

lemma good_list [simp]: "good A \<Longrightarrow> good (listC A)"
  by (simp add: listC_def copyable_list)

lemma good_struct:
  assumes A: "good A" and "\<And>t. parts (build t) = t"
  shows "good (structC parts build g A)"
proof
  fix h h' :: mem and x
  assume "\<And>a. a \<in> cp_reach (structC parts build g A) h x \<Longrightarrow> m_cells h' a = m_cells h a"
  then show "cp_reach (structC parts build g A) h' x = cp_reach (structC parts build g A) h x \<and>
      cp_view (structC parts build g A) h' x = cp_view (structC parts build g A) h x"
    using copyable.local [OF A, of h "parts x" h'] by (simp add: structC_def)
next
  fix h h' :: mem and x y
  assume "cp_reach (structC parts build g A) h x \<subseteq> {..<m_next h}" and "cp_copy (structC parts build g A) x h = (h', y)"
  then show "m_next h \<le> m_next h' \<and> (\<forall>a < m_next h. m_cells h' a = m_cells h a) \<and>
      cp_reach (structC parts build g A) h' y \<subseteq> {m_next h..<m_next h'} \<and>
      cp_view (structC parts build g A) h' y = cp_view (structC parts build g A) h x"
    using copyable.copied [OF A, of h "parts x" h'] assms(2) by (auto simp: structC_def split: prod.splits)
qed

section \<open>The embedded types\<close>

text \<open>What the cells hold; a cell of another kind is never read.\<close>

primrec the_strings where "the_strings (StringsCell x) = x"
primrec the_map where "the_map (MapCell x) = x"
primrec the_url where "the_url (UrlCell x) = x"
primrec the_ptr where "the_ptr (PtrCell x) = x"
primrec the_int32 where "the_int32 (Int32Cell x) = x"
primrec the_text where "the_text (TextCell x) = x"
primrec the_bool where "the_bool (BoolCell x) = x"
primrec the_time where "the_time (TimeCell x) = x"
primrec the_secret where "the_secret (SecretCell x) = x"
primrec the_delivery where "the_delivery (DeliveryCell x) = x"
primrec the_subscribers where "the_subscribers (SubscribersCell x) = x"
primrec the_owners where "the_owners (OwnersCell x) = x"
primrec the_conditions where "the_conditions (ConditionsCell x) = x"
primrec the_statuses where "the_statuses (StatusesCell x) = x"

text \<open>
  The vendored copies: pointers and maps to plain values, then the structures made of them. A nil slice or
  map reads as the empty one.
\<close>

definition or_empty :: "'a list option \<Rightarrow> 'a list" where "or_empty x = (case x of None \<Rightarrow> [] | Some xs \<Rightarrow> xs)"
definition or_none :: "('a \<rightharpoonup> 'b) option \<Rightarrow> ('a \<rightharpoonup> 'b)" where "or_none x = (case x of None \<Rightarrow> Map.empty | Some m \<Rightarrow> m)"

definition stringsC :: "(ptr, string list) copier" where
  "stringsC = structC id id or_empty (ptrC the_strings StringsCell plainC)"
definition mapC :: "(ptr, (string \<rightharpoonup> string) option) copier" where
  "mapC = ptrC the_map MapCell plainC"
definition urlC :: "(ptr, Url option) copier" where
  "urlC = ptrC the_url UrlCell plainC"
definition addressC :: "(ptr, Url option option) copier" where
  "addressC = ptrC the_ptr PtrCell urlC"
definition int32C :: "(ptr, int32 option) copier" where
  "int32C = ptrC the_int32 Int32Cell plainC"
definition textC :: "(ptr, string option) copier" where
  "textC = ptrC the_text TextCell plainC"
definition boolC :: "(ptr, bool option) copier" where
  "boolC = ptrC the_bool BoolCell plainC"
definition timeC :: "(ptr, time option) copier" where
  "timeC = ptrC the_time TimeCell plainC"
definition secretC :: "(ptr, SecretKeySelector option) copier" where
  "secretC = ptrC the_secret SecretCell plainC"
definition conditionsC :: "(ptr, Condition list) copier" where
  "conditionsC = structC id id or_empty (ptrC the_conditions ConditionsCell plainC)"
definition statusesC :: "(ptr, SubscriberStatus list) copier" where
  "statusesC = structC id id or_empty (ptrC the_statuses StatusesCell plainC)"

definition DeliverySpecC :: "(delivery_fields, DeliverySpec) copier" where
  "DeliverySpecC = structC id id
     (\<lambda>(sink, retry, policy, delay). \<lparr>ds_DeadLetterSinkURI = (case sink of None \<Rightarrow> None | Some uri \<Rightarrow> uri), ds_Retry = retry,
        ds_BackoffPolicy = policy, ds_BackoffDelay = delay\<rparr>)
     (pairC addressC (pairC int32C (pairC textC textC)))"

definition deliveryC :: "(ptr, DeliverySpec option) copier" where
  "deliveryC = ptrC the_delivery DeliveryCell DeliverySpecC"

definition SubscriberSpecC :: "(subscriber_fields, SubscriberSpec) copier" where
  "SubscriberSpecC = structC id id
     (\<lambda>((u, g), s, r, d). \<lparr>ss_UID = u, ss_Generation = g, ss_SubscriberURI = s, ss_ReplyURI = r, ss_Delivery = d\<rparr>)
     (pairC plainC (pairC urlC (pairC urlC deliveryC)))"

definition subscribersC :: "(ptr, SubscriberSpec list) copier" where
  "subscribersC = structC id id or_empty (ptrC the_subscribers SubscribersCell (listC SubscriberSpecC))"

definition OwnerReferenceC :: "(owner_fields, OwnerReference) copier" where
  "OwnerReferenceC = structC id id
     (\<lambda>((v, k, n, u), c). \<lparr>or_APIVersion = v, or_Kind = k, or_Name = n, or_UID = u, or_Controller = (c = Some True)\<rparr>)
     (pairC plainC boolC)"

definition ownersC :: "(ptr, OwnerReference list) copier" where
  "ownersC = structC id id or_empty (ptrC the_owners OwnersCell (listC OwnerReferenceC))"

text \<open>The pointer fields that no code of the program reads (managed fields, the grace period of a deletion) are left out of the object meta.\<close>

type_synonym meta_fields = "(string \<times> string \<times> uid \<times> string \<times> int) \<times> ptr \<times> ptr \<times> ptr \<times> ptr \<times> ptr"

definition ObjectMetaC :: "(meta_fields, ObjectMeta) copier" where
  "ObjectMetaC = structC id id
     (\<lambda>((n, ns, u, rv, g), del, labels, ann, owners, fs).
        \<lparr>om_Name = n, om_Namespace = ns, om_UID = u, om_ResourceVersion = rv, om_Generation = g, om_DeletionTimestamp = del,
         om_Labels = or_none labels, om_Annotations = ann, om_OwnerReferences = owners, om_Finalizers = fs\<rparr>)
     (pairC plainC (pairC timeC (pairC mapC (pairC mapC (pairC ownersC stringsC)))))"

type_synonym auth_fields = "ptr \<times> (bool \<times> ptr \<times> ptr \<times> ptr) \<times> (bool \<times> ptr \<times> ptr \<times> ptr)"

definition KafkaAuthSpecC :: "(auth_fields, string list \<times> KafkaSASLSpec \<times> KafkaTLSSpec) copier" where
  "KafkaAuthSpecC = pairC stringsC (pairC
     (structC id id (\<lambda>(e, u, p, t). \<lparr>sasl_Enable = e, sasl_User = u, sasl_Password = p, sasl_Type = t\<rparr>)
        (pairC plainC (pairC secretC (pairC secretC secretC))))
     (structC id id (\<lambda>(e, c, k, ca). \<lparr>tls_Enable = e, tls_Cert = c, tls_Key = k, tls_CACert = ca\<rparr>)
        (pairC plainC (pairC secretC (pairC secretC secretC)))))"

definition ChannelableSpecC :: "(ptr \<times> ptr, SubscriberSpec list \<times> DeliverySpec option) copier" where
  "ChannelableSpecC = pairC subscribersC deliveryC"

type_synonym status_fields = "int \<times> ptr \<times> ptr \<times> ptr \<times> ptr"

definition ChannelableStatusC :: "(status_fields, KafkaTopicChannelStatus) copier" where
  "ChannelableStatusC = structC id id
     (\<lambda>(g, conds, ann, addr, subs). \<lparr>st_ObservedGeneration = g, st_Conditions = conds, st_Annotations = or_none ann,
        st_Address = addr, st_Subscribers = subs\<rparr>)
     (pairC plainC (pairC conditionsC (pairC mapC (pairC addressC statusesC))))"

lemmas cell_copiers = stringsC_def mapC_def urlC_def addressC_def int32C_def textC_def boolC_def timeC_def secretC_def conditionsC_def
  statusesC_def deliveryC_def subscribersC_def ownersC_def

lemmas struct_copiers = DeliverySpecC_def SubscriberSpecC_def OwnerReferenceC_def ObjectMetaC_def KafkaAuthSpecC_def ChannelableSpecC_def
  ChannelableStatusC_def

lemma good_embedded [simp]: "good ObjectMetaC" "good KafkaAuthSpecC" "good ChannelableSpecC" "good ChannelableStatusC"
  by (simp_all add: struct_copiers cell_copiers good_struct)

section \<open>The generated copies\<close>

record spec_mem =
  sm_NumPartitions :: int32
  sm_ReplicationFactor :: int16
  sm_KafkaAuthSpec :: auth_fields
  sm_Topic :: string
  sm_ChannelableSpec :: "ptr \<times> ptr"

record status_mem =
  stm_ChannelableStatus :: status_fields

record channel_mem =
  cm_ObjectMeta :: meta_fields
  cm_Spec :: spec_mem
  cm_Status :: status_mem

record list_mem =
  lm_ListMeta :: string
  lm_Items :: "channel_mem list option"

definition KafkaTopicChannelSpec_DeepCopyInto :: "spec_mem \<Rightarrow> mem \<Rightarrow> mem \<times> spec_mem" where
  "KafkaTopicChannelSpec_DeepCopyInto inn h =
     (let out = inn in
      case cp_copy KafkaAuthSpecC (sm_KafkaAuthSpec inn) h of (h1, auth) \<Rightarrow>
      case cp_copy ChannelableSpecC (sm_ChannelableSpec inn) h1 of (h2, channelable) \<Rightarrow>
        (h2, out\<lparr>sm_KafkaAuthSpec := auth, sm_ChannelableSpec := channelable\<rparr>))"

definition KafkaTopicChannelStatus_DeepCopyInto :: "status_mem \<Rightarrow> mem \<Rightarrow> mem \<times> status_mem" where
  "KafkaTopicChannelStatus_DeepCopyInto inn h =
     (let out = inn in
      case cp_copy ChannelableStatusC (stm_ChannelableStatus inn) h of (h1, channelable) \<Rightarrow>
        (h1, out\<lparr>stm_ChannelableStatus := channelable\<rparr>))"

definition KafkaTopicChannel_DeepCopyInto :: "channel_mem \<Rightarrow> mem \<Rightarrow> mem \<times> channel_mem" where
  "KafkaTopicChannel_DeepCopyInto inn h =
     (let out = inn in
      case cp_copy ObjectMetaC (cm_ObjectMeta inn) h of (h1, meta) \<Rightarrow>
      case KafkaTopicChannelSpec_DeepCopyInto (cm_Spec inn) h1 of (h2, spec) \<Rightarrow>
      case KafkaTopicChannelStatus_DeepCopyInto (cm_Status inn) h2 of (h3, status) \<Rightarrow>
        (h3, out\<lparr>cm_ObjectMeta := meta, cm_Spec := spec, cm_Status := status\<rparr>))"

definition KafkaTopicChannelList_DeepCopyInto :: "list_mem \<Rightarrow> mem \<Rightarrow> mem \<times> list_mem" where
  "KafkaTopicChannelList_DeepCopyInto inn h =
     (let out = inn in
      case lm_Items inn of
        None \<Rightarrow> (h, out)
      | Some items \<Rightarrow>
          (case copy_list KafkaTopicChannel_DeepCopyInto items h of (h1, items') \<Rightarrow> (h1, out\<lparr>lm_Items := Some items'\<rparr>)))"

text \<open>\<open>DeepCopy\<close> of a possibly nil pointer.\<close>

definition deep_copy_of :: "('a \<Rightarrow> mem \<Rightarrow> mem \<times> 'a) \<Rightarrow> 'a option \<Rightarrow> mem \<Rightarrow> mem \<times> 'a option" where
  "deep_copy_of deepCopyInto inn h =
     (case inn of None \<Rightarrow> (h, None) | Some x \<Rightarrow> (case deepCopyInto x h of (h1, out) \<Rightarrow> (h1, Some out)))"

definition KafkaTopicChannel_DeepCopy :: "channel_mem option \<Rightarrow> mem \<Rightarrow> mem \<times> channel_mem option" where
  "KafkaTopicChannel_DeepCopy = deep_copy_of KafkaTopicChannel_DeepCopyInto"

definition KafkaTopicChannelList_DeepCopy :: "list_mem option \<Rightarrow> mem \<Rightarrow> mem \<times> list_mem option" where
  "KafkaTopicChannelList_DeepCopy = deep_copy_of KafkaTopicChannelList_DeepCopyInto"

definition KafkaTopicChannelSpec_DeepCopy :: "spec_mem option \<Rightarrow> mem \<Rightarrow> mem \<times> spec_mem option" where
  "KafkaTopicChannelSpec_DeepCopy = deep_copy_of KafkaTopicChannelSpec_DeepCopyInto"

definition KafkaTopicChannelStatus_DeepCopy :: "status_mem option \<Rightarrow> mem \<Rightarrow> mem \<times> status_mem option" where
  "KafkaTopicChannelStatus_DeepCopy = deep_copy_of KafkaTopicChannelStatus_DeepCopyInto"

text \<open>\<open>DeepCopyObject\<close> wraps a non-nil copy into an interface and returns a nil interface for a nil copy.\<close>

definition DeepCopyObject :: "('a option \<Rightarrow> mem \<Rightarrow> mem \<times> 'a option) \<Rightarrow> 'a option \<Rightarrow> mem \<Rightarrow> mem \<times> 'a option" where
  "DeepCopyObject deepCopy inn h = (case deepCopy inn h of (h1, Some c) \<Rightarrow> (h1, Some c) | (h1, None) \<Rightarrow> (h1, None))"

section \<open>What a channel reads as\<close>

definition SpecC :: "(spec_mem, KafkaTopicChannelSpec) copier" where
  "SpecC = structC (\<lambda>s. ((sm_NumPartitions s, sm_ReplicationFactor s, sm_Topic s), sm_KafkaAuthSpec s, sm_ChannelableSpec s))
     (\<lambda>((n, r, t), a, c). \<lparr>sm_NumPartitions = n, sm_ReplicationFactor = r, sm_KafkaAuthSpec = a, sm_Topic = t, sm_ChannelableSpec = c\<rparr>)
     (\<lambda>((n, r, t), (servers, sasl, tls), (subs, delivery)).
        \<lparr>sp_NumPartitions = n, sp_ReplicationFactor = r, sp_BootstrapServers = servers, sp_SASL = sasl, sp_TLS = tls, sp_Topic = t,
         sp_Subscribers = subs, sp_Delivery = delivery\<rparr>)
     (pairC plainC (pairC KafkaAuthSpecC ChannelableSpecC))"

definition StatusC :: "(status_mem, KafkaTopicChannelStatus) copier" where
  "StatusC = structC stm_ChannelableStatus (\<lambda>s. \<lparr>stm_ChannelableStatus = s\<rparr>) id ChannelableStatusC"

definition ChannelC :: "(channel_mem, KafkaTopicChannel) copier" where
  "ChannelC = structC (\<lambda>c. (cm_ObjectMeta c, cm_Spec c, cm_Status c))
     (\<lambda>(m, s, t). \<lparr>cm_ObjectMeta = m, cm_Spec = s, cm_Status = t\<rparr>)
     (\<lambda>(m, s, t). \<lparr>kc_Meta = m, kc_Spec = s, kc_Status = t\<rparr>)
     (pairC ObjectMetaC (pairC SpecC StatusC))"

lemma good_parts [simp]: "good SpecC" "good StatusC"
  by (auto simp: SpecC_def StatusC_def intro!: good_struct)

lemma good_channel: "good ChannelC"
  by (auto simp: ChannelC_def intro!: good_struct)

lemma DeepCopyInto_parts:
  "KafkaTopicChannelSpec_DeepCopyInto = cp_copy SpecC" "KafkaTopicChannelStatus_DeepCopyInto = cp_copy StatusC"
  by (auto simp: fun_eq_iff KafkaTopicChannelSpec_DeepCopyInto_def KafkaTopicChannelStatus_DeepCopyInto_def SpecC_def StatusC_def
      structC_def pairC_def plainC_def copy_pair_def copy_plain_def split: prod.splits)

lemma DeepCopyInto_channel: "KafkaTopicChannel_DeepCopyInto = cp_copy ChannelC"
  by (auto simp: fun_eq_iff KafkaTopicChannel_DeepCopyInto_def DeepCopyInto_parts ChannelC_def structC_def [of "\<lambda>c. (cm_ObjectMeta c, cm_Spec c, cm_Status c)"]
      pairC_def copy_pair_def split: prod.splits)

interpretation channel_copy: copyable "cp_reach ChannelC" KafkaTopicChannel_DeepCopyInto "cp_view ChannelC"
  unfolding DeepCopyInto_channel by (rule good_channel)

interpretation channels_copy: copyable "cp_reach (listC ChannelC)" "copy_list KafkaTopicChannel_DeepCopyInto" "cp_view (listC ChannelC)"
  unfolding DeepCopyInto_channel using good_list [OF good_channel] by (simp add: listC_def)

section \<open>Main property\<close>

text \<open>
  C20: A deep copy of a channel shares nothing with the original: it reads as the same channel, the original
  reads as before, and whatever is later written to the cells that the copy leads to (also to new ones) does not
  show in the original, nor the other way round. This is what keeps the informer's cache apart from the object
  that a pass modifies. A nil channel is copied to nil.
\<close>

theorem deep_copy_independent:
  assumes "cp_reach ChannelC h x \<subseteq> {..<m_next h}"
  shows "\<exists>h' y. KafkaTopicChannel_DeepCopy (Some x) h = (h', Some y) \<and>
      cp_view ChannelC h' y = cp_view ChannelC h x \<and> cp_view ChannelC h' x = cp_view ChannelC h x \<and>
      (\<forall>h''. (\<forall>a. a \<notin> cp_reach ChannelC h' y \<longrightarrow> a < m_next h' \<longrightarrow> m_cells h'' a = m_cells h' a) \<longrightarrow>
         cp_view ChannelC h'' x = cp_view ChannelC h x) \<and>
      (\<forall>h''. (\<forall>a. a \<notin> cp_reach ChannelC h' x \<longrightarrow> a < m_next h' \<longrightarrow> m_cells h'' a = m_cells h' a) \<longrightarrow>
         cp_view ChannelC h'' y = cp_view ChannelC h x) \<and>
      KafkaTopicChannel_DeepCopy None h = (h, None)"
proof -
  obtain h' y where c: "KafkaTopicChannel_DeepCopyInto x h = (h', y)" by fastforce
  note k = channel_copy.copy_keeps [OF assms c] and d = channel_copy.copied [OF assms c]
  have x: "cp_reach ChannelC h' x \<subseteq> {..<m_next h'}" using k(1) assms d by fastforce
  have y: "cp_reach ChannelC h' y \<subseteq> {..<m_next h'}" using d by auto
  have "cp_view ChannelC h'' x = cp_view ChannelC h x"
    if "\<forall>a. a \<notin> cp_reach ChannelC h' y \<longrightarrow> a < m_next h' \<longrightarrow> m_cells h'' a = m_cells h' a" for h''
  proof -
    have "cp_view ChannelC h'' x = cp_view ChannelC h' x"
      by (rule conjunct2 [OF channel_copy.local]) (use that k(3) x in auto)
    then show ?thesis using k(2) by simp
  qed
  moreover have "cp_view ChannelC h'' y = cp_view ChannelC h x"
    if "\<forall>a. a \<notin> cp_reach ChannelC h' x \<longrightarrow> a < m_next h' \<longrightarrow> m_cells h'' a = m_cells h' a" for h''
  proof -
    have "cp_view ChannelC h'' y = cp_view ChannelC h' y"
      by (rule conjunct2 [OF channel_copy.local]) (use that k(3) y in auto)
    then show ?thesis using d by simp
  qed
  ultimately show ?thesis using c k(2) d by (auto simp: KafkaTopicChannel_DeepCopy_def deep_copy_of_def)
qed

text \<open>A channel with a finalizer and a bootstrap server, in a heap of two cells.\<close>

definition sample_mem :: mem where
  "sample_mem = \<lparr>m_cells = (\<lambda>a. if a = 0 then StringsCell [''fin''] else StringsCell [''kafka:9092'']), m_next = 2\<rparr>"

definition sample_channel_mem :: channel_mem where
  "sample_channel_mem =
     \<lparr>cm_ObjectMeta = ((''ch'', ''ns'', ''u'', '''', 1), None, None, None, None, Some 0),
      cm_Spec = \<lparr>sm_NumPartitions = 1, sm_ReplicationFactor = 1,
        sm_KafkaAuthSpec = (Some 1, (False, None, None, None), (False, None, None, None)), sm_Topic = ''t'',
        sm_ChannelableSpec = (None, None)\<rparr>,
      cm_Status = \<lparr>stm_ChannelableStatus = (0, None, None, None, None)\<rparr>\<rparr>"

lemmas copier_defs = structC_def pairC_def ptrC_def listC_def plainC_def reach_pair_def view_pair_def reach_ptr_def view_ptr_def
  reach_plain_def view_plain_def reach_list_def view_list_def

theorem deep_copy_independent_witness:
  "\<exists>h' y. KafkaTopicChannel_DeepCopy (Some sample_channel_mem) sample_mem = (h', Some y) \<and>
     om_Finalizers (kc_Meta (cp_view ChannelC h' y)) = [''fin''] \<and> sp_BootstrapServers (kc_Spec (cp_view ChannelC h' y)) = [''kafka:9092'']"
proof -
  have r: "cp_reach ChannelC sample_mem sample_channel_mem \<subseteq> {..<m_next sample_mem}"
    by (simp add: ChannelC_def SpecC_def StatusC_def struct_copiers cell_copiers copier_defs sample_mem_def sample_channel_mem_def)
  have v: "om_Finalizers (kc_Meta (cp_view ChannelC sample_mem sample_channel_mem)) = [''fin'']"
    "sp_BootstrapServers (kc_Spec (cp_view ChannelC sample_mem sample_channel_mem)) = [''kafka:9092'']"
    by (simp_all add: ChannelC_def SpecC_def StatusC_def struct_copiers cell_copiers copier_defs or_empty_def sample_mem_def sample_channel_mem_def)
  from deep_copy_independent [OF r] v show ?thesis by auto
qed

end
