(* ===== verification/FakeClient.thy ===== *)
theory FakeClient
  imports Lister "HOL-Library.Product_Lexorder"
begin

text \<open>
  The fake client of the API server (\<open>pkg/client/clientset/versioned/fake\<close>, \<open>typed/.../fake\<close>) that the tests of the
  reconcilers run against: its operations record an action and pass it along a chain of reactors, the last of which
  is a tracker of objects with watchers (vendored \<open>client-go/testing\<close>: \<open>fake.go\<close>, \<open>fixture.go\<close>, and \<open>watch.go\<close>). Only
  the one resource of this API is tracked; a tracker that has no map for it yet answers like one with an empty map.
  The parsers of selectors and the application of a patch to an object are arguments.
\<close>

section \<open>The tracker\<close>

abbreviation ref_of :: "KafkaTopicChannel \<Rightarrow> NamespacedName" where
  "ref_of kc \<equiv> \<lparr>nn_Namespace = kc_Namespace kc, nn_Name = kc_Name kc\<rparr>"

datatype watch_event = Added KafkaTopicChannel | Modified KafkaTopicChannel | Deleted KafkaTopicChannel

text \<open>A \<open>RaceFreeFakeWatcher\<close>: the unread events in its channel, and the namespace that it was registered for.\<close>

record watcher =
  fw_ns :: string
  fw_result :: "watch_event list"
  fw_Stopped :: bool

record tracker =
  tr_objects :: "NamespacedName \<rightharpoonup> KafkaTopicChannel"
  tr_watchers :: "watcher list"

datatype tracker_error =
    NotFound string
  | AlreadyExists string
  | NamespaceMismatch string string
  | PatchFailed go_error
  | PatchTypeNotSupported
  | NoReaction
  | Injected go_error

definition NewObjectTracker :: tracker where
  "NewObjectTracker = \<lparr>tr_objects = Map.empty, tr_watchers = []\<rparr>"

definition DefaultChanSize :: nat where "DefaultChanSize = 100"

text \<open>\<open>Add\<close>, \<open>Modify\<close> and \<open>Delete\<close> of a watcher: a full channel is a panic.\<close>

definition send :: "watch_event \<Rightarrow> watcher \<Rightarrow> watcher outcome" where
  "send event w =
     (if fw_Stopped w then Returns w
      else if length (fw_result w) < DefaultChanSize then Returns (w\<lparr>fw_result := fw_result w @ [event]\<rparr>)
      else Panics)"

definition watches :: "string \<Rightarrow> watcher \<Rightarrow> bool" where
  "watches ns w \<longleftrightarrow> fw_ns w = ns \<or> fw_ns w = ''''"

text \<open>The loops over \<open>getWatches\<close>: the watchers of the namespace and those of all namespaces.\<close>

fun notify :: "string \<Rightarrow> watch_event \<Rightarrow> watcher list \<Rightarrow> watcher list outcome" where
  "notify ns event [] = Returns []"
| "notify ns event (w # ws) =
     (case (if watches ns w then send event w else Returns w) of
        Panics \<Rightarrow> Panics
      | Returns w1 \<Rightarrow> (case notify ns event ws of Panics \<Rightarrow> Panics | Returns ws1 \<Rightarrow> Returns (w1 # ws1)))"

definition with_namespace :: "string \<Rightarrow> KafkaTopicChannel \<Rightarrow> KafkaTopicChannel" where
  "with_namespace ns obj = (if length (kc_Namespace obj) = 0 then obj\<lparr>kc_Meta := (kc_Meta obj)\<lparr>om_Namespace := ns\<rparr>\<rparr> else obj)"

definition tracker_add :: "KafkaTopicChannel \<Rightarrow> string \<Rightarrow> bool \<Rightarrow> tracker \<Rightarrow> (tracker \<times> tracker_error option) outcome" where
  "tracker_add obj0 ns replaceExisting t =
     (let obj = with_namespace ns obj0 in
      if ns \<noteq> kc_Namespace obj then Returns (t, Some (NamespaceMismatch ns (kc_Namespace obj)))
      else
        (let namespacedName = \<lparr>nn_Namespace = kc_Namespace obj, nn_Name = kc_Name obj\<rparr> in
         if tr_objects t namespacedName \<noteq> None then
           (if replaceExisting then
              (case notify ns (Modified obj) (tr_watchers t) of
                 Panics \<Rightarrow> Panics
               | Returns ws \<Rightarrow> Returns (t\<lparr>tr_objects := (tr_objects t)(namespacedName \<mapsto> obj), tr_watchers := ws\<rparr>, None))
            else Returns (t, Some (AlreadyExists (kc_Name obj))))
         else if replaceExisting then Returns (t, Some (NotFound (kc_Name obj)))
         else
           (case notify ns (Added obj) (tr_watchers t) of
              Panics \<Rightarrow> Panics
            | Returns ws \<Rightarrow> Returns (t\<lparr>tr_objects := (tr_objects t)(namespacedName \<mapsto> obj), tr_watchers := ws\<rparr>, None))))"

definition tracker_Create :: "KafkaTopicChannel \<Rightarrow> string \<Rightarrow> tracker \<Rightarrow> (tracker \<times> tracker_error option) outcome" where
  "tracker_Create obj ns = tracker_add obj ns False"

definition tracker_Update :: "KafkaTopicChannel \<Rightarrow> string \<Rightarrow> tracker \<Rightarrow> (tracker \<times> tracker_error option) outcome" where
  "tracker_Update obj ns = tracker_add obj ns True"

definition tracker_Get :: "string \<Rightarrow> string \<Rightarrow> tracker \<Rightarrow> tracker_error + KafkaTopicChannel" where
  "tracker_Get ns name t =
     (case tr_objects t \<lparr>nn_Namespace = ns, nn_Name = name\<rparr> of None \<Rightarrow> Inl (NotFound name) | Some obj \<Rightarrow> Inr obj)"

text \<open>\<open>filterByNamespace\<close>: the order \<open>ord\<close> of the range over the map is lost in the sort.\<close>

definition filterByNamespace ::
  "(NamespacedName set \<Rightarrow> NamespacedName list) \<Rightarrow> (NamespacedName \<rightharpoonup> KafkaTopicChannel) \<Rightarrow> string \<Rightarrow> KafkaTopicChannel list" where
  "filterByNamespace ord objs ns =
     sort_key (\<lambda>obj. (kc_Namespace obj, kc_Name obj))
       (filter (\<lambda>obj. \<not> (ns \<noteq> '''' \<and> kc_Namespace obj \<noteq> ns)) (map (\<lambda>k. the (objs k)) (ord (dom objs))))"

definition tracker_List :: "(NamespacedName set \<Rightarrow> NamespacedName list) \<Rightarrow> string \<Rightarrow> tracker \<Rightarrow> KafkaTopicChannel list" where
  "tracker_List ord ns t = filterByNamespace ord (tr_objects t) ns"

definition tracker_Delete :: "string \<Rightarrow> string \<Rightarrow> tracker \<Rightarrow> (tracker \<times> tracker_error option) outcome" where
  "tracker_Delete ns name t =
     (let namespacedName = \<lparr>nn_Namespace = ns, nn_Name = name\<rparr> in
      case tr_objects t namespacedName of
        None \<Rightarrow> Returns (t, Some (NotFound name))
      | Some obj \<Rightarrow>
          (case notify ns (Deleted obj) (tr_watchers t) of
             Panics \<Rightarrow> Panics
           | Returns ws \<Rightarrow> Returns (t\<lparr>tr_objects := (tr_objects t)(namespacedName := None), tr_watchers := ws\<rparr>, None)))"

text \<open>The new watcher is named by its position.\<close>

definition tracker_Watch :: "string \<Rightarrow> tracker \<Rightarrow> tracker \<times> nat" where
  "tracker_Watch ns t =
     (t\<lparr>tr_watchers := tr_watchers t @ [\<lparr>fw_ns = ns, fw_result = [], fw_Stopped = False\<rparr>]\<rparr>, length (tr_watchers t))"

section \<open>Actions and reactors\<close>

record list_options =
  lopt_LabelSelector :: string
  lopt_FieldSelector :: string

datatype patch_type = JSONPatchType | MergePatchType | StrategicMergePatchType | OtherPatchType string

text \<open>The actions, with their namespace; the subresource of an update is empty or \<open>status\<close>.\<close>

datatype action =
    GetAction string string
  | ListAction string list_options
  | CreateAction string KafkaTopicChannel
  | UpdateAction string string KafkaTopicChannel
  | DeleteAction string string
  | DeleteCollectionAction string list_options
  | PatchAction string string patch_type string "string list"
  | WatchAction string list_options

fun GetVerb :: "action \<Rightarrow> string" where
  "GetVerb (GetAction _ _) = ''get''"
| "GetVerb (ListAction _ _) = ''list''"
| "GetVerb (CreateAction _ _) = ''create''"
| "GetVerb (UpdateAction _ _ _) = ''update''"
| "GetVerb (DeleteAction _ _) = ''delete''"
| "GetVerb (DeleteCollectionAction _ _) = ''delete-collection''"
| "GetVerb (PatchAction _ _ _ _ _) = ''patch''"
| "GetVerb (WatchAction _ _) = ''watch''"

definition kafkatopicchannelsResource :: string where
  "kafkatopicchannelsResource = ''kafkatopicchannels''"

text \<open>What a reaction returns as \<open>runtime.Object\<close>.\<close>

datatype robject = KafkaTopicChannelObject KafkaTopicChannel | KafkaTopicChannelListObject "KafkaTopicChannel list"

type_synonym reply = "robject option \<times> tracker_error option"

text \<open>A reaction may change the tracker; it returns whether it handled the action, and its reply.\<close>

record reactor =
  rx_Verb :: string
  rx_Resource :: string
  rx_Reaction :: "action \<Rightarrow> tracker \<Rightarrow> (tracker \<times> bool \<times> reply) outcome"

definition Handles :: "reactor \<Rightarrow> action \<Rightarrow> bool" where
  "Handles r a \<longleftrightarrow> (rx_Verb r = ''*'' \<or> rx_Verb r = GetVerb a) \<and> (rx_Resource r = ''*'' \<or> rx_Resource r = kafkatopicchannelsResource)"

record fake =
  fk_actions :: "action list"
  fk_ReactionChain :: "reactor list"
  fk_tracker :: tracker

definition AddReactor :: "reactor \<Rightarrow> fake \<Rightarrow> fake" where
  "AddReactor r c = c\<lparr>fk_ReactionChain := fk_ReactionChain c @ [r]\<rparr>"

definition PrependReactor :: "reactor \<Rightarrow> fake \<Rightarrow> fake" where
  "PrependReactor r c = c\<lparr>fk_ReactionChain := r # fk_ReactionChain c\<rparr>"

fun invoke_loop :: "reactor list \<Rightarrow> action \<Rightarrow> robject \<Rightarrow> tracker \<Rightarrow> (tracker \<times> reply) outcome" where
  "invoke_loop [] a defaultReturnObj t = Returns (t, Some defaultReturnObj, None)"
| "invoke_loop (r # rs) a defaultReturnObj t =
     (if \<not> Handles r a then invoke_loop rs a defaultReturnObj t
      else
        (case rx_Reaction r a t of
           Panics \<Rightarrow> Panics
         | Returns (t1, False, _) \<Rightarrow> invoke_loop rs a defaultReturnObj t1
         | Returns (t1, True, ret) \<Rightarrow> Returns (t1, ret)))"

definition Invokes :: "action \<Rightarrow> robject \<Rightarrow> fake \<Rightarrow> (fake \<times> reply) outcome" where
  "Invokes a defaultReturnObj c =
     (case invoke_loop (fk_ReactionChain c) a defaultReturnObj (fk_tracker c) of
        Panics \<Rightarrow> Panics
      | Returns (t, ret) \<Rightarrow> Returns (c\<lparr>fk_actions := fk_actions c @ [a], fk_tracker := t\<rparr>, ret))"

text \<open>\<open>tracker.Get\<close> as the reply of a reaction, and the replies of \<open>Create\<close> and \<open>Update\<close>, which read the object back.\<close>

definition get_reply :: "string \<Rightarrow> string \<Rightarrow> tracker \<Rightarrow> reply" where
  "get_reply ns name t = (case tracker_Get ns name t of Inl err \<Rightarrow> (None, Some err) | Inr obj \<Rightarrow> (Some (KafkaTopicChannelObject obj), None))"

definition read_back ::
  "string \<Rightarrow> string \<Rightarrow> (tracker \<times> tracker_error option) outcome \<Rightarrow> (tracker \<times> bool \<times> reply) outcome" where
  "read_back ns name r =
     (case r of
        Panics \<Rightarrow> Panics
      | Returns (t, Some err) \<Rightarrow> Returns (t, True, None, Some err)
      | Returns (t, None) \<Rightarrow> Returns (t, True, get_reply ns name t))"

text \<open>\<open>applyPatch\<close> is the encoding of the object, the patch and the decoding of the result.\<close>

definition patch_reaction ::
  "(patch_type \<Rightarrow> string \<Rightarrow> KafkaTopicChannel \<Rightarrow> go_error + KafkaTopicChannel) \<Rightarrow> string \<Rightarrow> string \<Rightarrow> patch_type \<Rightarrow> string \<Rightarrow>
   tracker \<Rightarrow> (tracker \<times> bool \<times> reply) outcome" where
  "patch_reaction applyPatch ns name pt patch t =
     (case tracker_Get ns name t of
        Inl err \<Rightarrow> Returns (t, True, None, Some err)
      | Inr old \<Rightarrow>
          (case pt of
             OtherPatchType _ \<Rightarrow> Returns (t, True, None, Some PatchTypeNotSupported)
           | _ \<Rightarrow>
               (case applyPatch pt patch old of
                  Inl err \<Rightarrow> Returns (t, True, None, Some (PatchFailed err))
                | Inr obj \<Rightarrow>
                    (case tracker_Update obj ns t of
                       Panics \<Rightarrow> Panics
                     | Returns (t1, Some err) \<Rightarrow> Returns (t1, True, None, Some err)
                     | Returns (t1, None) \<Rightarrow> Returns (t1, True, Some (KafkaTopicChannelObject obj), None)))))"

fun ObjectReaction ::
  "(NamespacedName set \<Rightarrow> NamespacedName list) \<Rightarrow> (patch_type \<Rightarrow> string \<Rightarrow> KafkaTopicChannel \<Rightarrow> go_error + KafkaTopicChannel) \<Rightarrow>
   action \<Rightarrow> tracker \<Rightarrow> (tracker \<times> bool \<times> reply) outcome" where
  "ObjectReaction ord applyPatch (ListAction ns _) t = Returns (t, True, Some (KafkaTopicChannelListObject (tracker_List ord ns t)), None)"
| "ObjectReaction ord applyPatch (GetAction ns name) t = Returns (t, True, get_reply ns name t)"
| "ObjectReaction ord applyPatch (CreateAction ns obj) t = read_back ns (kc_Name obj) (tracker_Create obj ns t)"
| "ObjectReaction ord applyPatch (UpdateAction ns _ obj) t = read_back ns (kc_Name obj) (tracker_Update obj ns t)"
| "ObjectReaction ord applyPatch (DeleteAction ns name) t =
     (case tracker_Delete ns name t of
        Panics \<Rightarrow> Panics
      | Returns (t1, err) \<Rightarrow> Returns (t1, True, None, err))"
| "ObjectReaction ord applyPatch (PatchAction ns name pt patch _) t = patch_reaction applyPatch ns name pt patch t"
| "ObjectReaction ord applyPatch _ t = Returns (t, False, None, Some NoReaction)"

section \<open>The clientset and its operations\<close>

text \<open>\<open>NewSimpleClientset\<close>: the objects are added first, and an error is a panic. A list is added item by item.\<close>

fun add_all :: "KafkaTopicChannel list \<Rightarrow> tracker \<Rightarrow> tracker outcome" where
  "add_all [] t = Returns t"
| "add_all (obj # objs) t =
     (case tracker_add obj (kc_Namespace obj) False t of
        Returns (t1, None) \<Rightarrow> add_all objs t1
      | _ \<Rightarrow> Panics)"

fun items_of :: "robject \<Rightarrow> KafkaTopicChannel list" where
  "items_of (KafkaTopicChannelObject obj) = [obj]"
| "items_of (KafkaTopicChannelListObject objs) = objs"

definition NewSimpleClientset ::
  "(NamespacedName set \<Rightarrow> NamespacedName list) \<Rightarrow> (patch_type \<Rightarrow> string \<Rightarrow> KafkaTopicChannel \<Rightarrow> go_error + KafkaTopicChannel) \<Rightarrow>
   robject list \<Rightarrow> fake outcome" where
  "NewSimpleClientset ord applyPatch objects =
     (case add_all (concat (map items_of objects)) NewObjectTracker of
        Panics \<Rightarrow> Panics
      | Returns o1 \<Rightarrow>
          Returns (AddReactor \<lparr>rx_Verb = ''*'', rx_Resource = ''*'', rx_Reaction = ObjectReaction ord applyPatch\<rparr>
            \<lparr>fk_actions = [], fk_ReactionChain = [], fk_tracker = o1\<rparr>))"

text \<open>
  The type assertion of a non-nil object panics on another type. \<open>zero\<close> is the empty channel that an operation passes
  as the default.
\<close>

definition as_channel :: "(fake \<times> reply) outcome \<Rightarrow> (fake \<times> KafkaTopicChannel option \<times> tracker_error option) outcome" where
  "as_channel r =
     (case r of
        Returns (c, None, err) \<Rightarrow> Returns (c, None, err)
      | Returns (c, Some (KafkaTopicChannelObject obj), err) \<Rightarrow> Returns (c, Some obj, err)
      | _ \<Rightarrow> Panics)"

definition only_error :: "(fake \<times> reply) outcome \<Rightarrow> (fake \<times> tracker_error option) outcome" where
  "only_error r = (case r of Panics \<Rightarrow> Panics | Returns (c, _, err) \<Rightarrow> Returns (c, err))"

definition fake_Get :: "KafkaTopicChannel \<Rightarrow> string \<Rightarrow> string \<Rightarrow> fake \<Rightarrow> (fake \<times> KafkaTopicChannel option \<times> tracker_error option) outcome" where
  "fake_Get zero ns name c = as_channel (Invokes (GetAction ns name) (KafkaTopicChannelObject zero) c)"

definition fake_Create :: "KafkaTopicChannel \<Rightarrow> string \<Rightarrow> KafkaTopicChannel \<Rightarrow> fake \<Rightarrow> (fake \<times> KafkaTopicChannel option \<times> tracker_error option) outcome" where
  "fake_Create zero ns kc c = as_channel (Invokes (CreateAction ns kc) (KafkaTopicChannelObject zero) c)"

definition fake_Update :: "KafkaTopicChannel \<Rightarrow> string \<Rightarrow> KafkaTopicChannel \<Rightarrow> fake \<Rightarrow> (fake \<times> KafkaTopicChannel option \<times> tracker_error option) outcome" where
  "fake_Update zero ns kc c = as_channel (Invokes (UpdateAction ns '''' kc) (KafkaTopicChannelObject zero) c)"

definition fake_UpdateStatus :: "KafkaTopicChannel \<Rightarrow> string \<Rightarrow> KafkaTopicChannel \<Rightarrow> fake \<Rightarrow> (fake \<times> KafkaTopicChannel option \<times> tracker_error option) outcome" where
  "fake_UpdateStatus zero ns kc c = as_channel (Invokes (UpdateAction ns ''status'' kc) (KafkaTopicChannelObject zero) c)"

definition fake_Patch ::
  "KafkaTopicChannel \<Rightarrow> string \<Rightarrow> string \<Rightarrow> patch_type \<Rightarrow> string \<Rightarrow> string list \<Rightarrow> fake \<Rightarrow> (fake \<times> KafkaTopicChannel option \<times> tracker_error option) outcome" where
  "fake_Patch zero ns name pt data subresources c = as_channel (Invokes (PatchAction ns name pt data subresources) (KafkaTopicChannelObject zero) c)"

definition fake_Delete :: "KafkaTopicChannel \<Rightarrow> string \<Rightarrow> string \<Rightarrow> fake \<Rightarrow> (fake \<times> tracker_error option) outcome" where
  "fake_Delete zero ns name c = only_error (Invokes (DeleteAction ns name) (KafkaTopicChannelObject zero) c)"

text \<open>\<open>ExtractFromListOptions\<close>: a selector that does not parse is a panic. \<open>parse\<close> parses the label selector, \<open>fieldOk\<close> the other.\<close>

definition ExtractFromListOptions :: "(string \<Rightarrow> selector option) \<Rightarrow> (string \<Rightarrow> bool) \<Rightarrow> list_options \<Rightarrow> selector outcome" where
  "ExtractFromListOptions parse fieldOk opts =
     (case parse (lopt_LabelSelector opts) of
        None \<Rightarrow> Panics
      | Some label \<Rightarrow> if fieldOk (lopt_FieldSelector opts) then Returns label else Panics)"

definition fake_List ::
  "(string \<Rightarrow> selector option) \<Rightarrow> (string \<Rightarrow> bool) \<Rightarrow> string \<Rightarrow> list_options \<Rightarrow> fake \<Rightarrow>
   (fake \<times> KafkaTopicChannel list option \<times> tracker_error option) outcome" where
  "fake_List parse fieldOk ns opts c =
     (case ExtractFromListOptions parse fieldOk opts of
        Panics \<Rightarrow> Panics
      | Returns label \<Rightarrow>
          (case Invokes (ListAction ns opts) (KafkaTopicChannelListObject []) c of
             Returns (c1, None, err) \<Rightarrow> Returns (c1, None, err)
           | Returns (c1, Some (KafkaTopicChannelListObject objs), err) \<Rightarrow>
               Returns (c1, Some (filter (\<lambda>item. sel_Matches label (om_Labels (kc_Meta item))) objs), err)
           | _ \<Rightarrow> Panics))"

definition fake_DeleteCollection ::
  "(string \<Rightarrow> selector option) \<Rightarrow> (string \<Rightarrow> bool) \<Rightarrow> string \<Rightarrow> list_options \<Rightarrow> fake \<Rightarrow> (fake \<times> tracker_error option) outcome" where
  "fake_DeleteCollection parse fieldOk ns listOpts c =
     (case ExtractFromListOptions parse fieldOk listOpts of
        Panics \<Rightarrow> Panics
      | Returns _ \<Rightarrow> only_error (Invokes (DeleteCollectionAction ns listOpts) (KafkaTopicChannelListObject []) c))"

text \<open>\<open>Watch\<close> with the one watch reactor that \<open>NewSimpleClientset\<close> installs; it never fails.\<close>

definition fake_Watch ::
  "(string \<Rightarrow> selector option) \<Rightarrow> (string \<Rightarrow> bool) \<Rightarrow> string \<Rightarrow> list_options \<Rightarrow> fake \<Rightarrow> (fake \<times> nat) outcome" where
  "fake_Watch parse fieldOk ns opts c =
     (case ExtractFromListOptions parse fieldOk opts of
        Panics \<Rightarrow> Panics
      | Returns _ \<Rightarrow>
          (case tracker_Watch ns (fk_tracker c) of
             (t, w) \<Rightarrow> Returns (c\<lparr>fk_actions := fk_actions c @ [WatchAction ns opts], fk_tracker := t\<rparr>, w)))"

section \<open>Reference: a map of channels\<close>

text \<open>The operations of a client, what they return, and the reference for them on a plain map.\<close>

datatype api_op =
    OpGet string string
  | OpList string list_options
  | OpCreate string KafkaTopicChannel
  | OpUpdate string KafkaTopicChannel
  | OpUpdateStatus string KafkaTopicChannel
  | OpDelete string string
  | OpDeleteCollection string list_options
  | OpPatch string string patch_type string "string list"

datatype api_result =
    ObjectResult "KafkaTopicChannel option" "tracker_error option"
  | ListResult "KafkaTopicChannel list option" "tracker_error option"
  | ErrorResult "tracker_error option"

definition to_object :: "(fake \<times> KafkaTopicChannel option \<times> tracker_error option) outcome \<Rightarrow> (fake \<times> api_result) outcome" where
  "to_object r = (case r of Panics \<Rightarrow> Panics | Returns (c, x, e) \<Rightarrow> Returns (c, ObjectResult x e))"

definition to_list :: "(fake \<times> KafkaTopicChannel list option \<times> tracker_error option) outcome \<Rightarrow> (fake \<times> api_result) outcome" where
  "to_list r = (case r of Panics \<Rightarrow> Panics | Returns (c, x, e) \<Rightarrow> Returns (c, ListResult x e))"

definition to_error :: "(fake \<times> tracker_error option) outcome \<Rightarrow> (fake \<times> api_result) outcome" where
  "to_error r = (case r of Panics \<Rightarrow> Panics | Returns (c, e) \<Rightarrow> Returns (c, ErrorResult e))"

fun run_op :: "KafkaTopicChannel \<Rightarrow> (string \<Rightarrow> selector option) \<Rightarrow> (string \<Rightarrow> bool) \<Rightarrow> api_op \<Rightarrow> fake \<Rightarrow> (fake \<times> api_result) outcome" where
  "run_op zero parse fieldOk (OpGet ns name) c = to_object (fake_Get zero ns name c)"
| "run_op zero parse fieldOk (OpList ns opts) c = to_list (fake_List parse fieldOk ns opts c)"
| "run_op zero parse fieldOk (OpCreate ns kc) c = to_object (fake_Create zero ns kc c)"
| "run_op zero parse fieldOk (OpUpdate ns kc) c = to_object (fake_Update zero ns kc c)"
| "run_op zero parse fieldOk (OpUpdateStatus ns kc) c = to_object (fake_UpdateStatus zero ns kc c)"
| "run_op zero parse fieldOk (OpDelete ns name) c = to_error (fake_Delete zero ns name c)"
| "run_op zero parse fieldOk (OpDeleteCollection ns opts) c = to_error (fake_DeleteCollection parse fieldOk ns opts c)"
| "run_op zero parse fieldOk (OpPatch ns name pt data subs) c = to_object (fake_Patch zero ns name pt data subs c)"

fun run_ops :: "KafkaTopicChannel \<Rightarrow> (string \<Rightarrow> selector option) \<Rightarrow> (string \<Rightarrow> bool) \<Rightarrow> api_op list \<Rightarrow> fake \<Rightarrow> (fake \<times> api_result list) outcome" where
  "run_ops zero parse fieldOk [] c = Returns (c, [])"
| "run_ops zero parse fieldOk (op # ops) c =
     (case run_op zero parse fieldOk op c of
        Panics \<Rightarrow> Panics
      | Returns (c1, r) \<Rightarrow>
          (case run_ops zero parse fieldOk ops c1 of Panics \<Rightarrow> Panics | Returns (c2, rs) \<Rightarrow> Returns (c2, r # rs)))"

type_synonym channels = "NamespacedName \<rightharpoonup> KafkaTopicChannel"

definition spec_write :: "bool \<Rightarrow> string \<Rightarrow> KafkaTopicChannel \<Rightarrow> channels \<Rightarrow> channels \<times> tracker_error option" where
  "spec_write existing ns kc m =
     (let obj = with_namespace ns kc in
      if kc_Namespace obj \<noteq> ns then (m, Some (NamespaceMismatch ns (kc_Namespace obj)))
      else if existing \<and> ref_of obj \<notin> dom m then (m, Some (NotFound (kc_Name kc)))
      else if \<not> existing \<and> ref_of obj \<in> dom m then (m, Some (AlreadyExists (kc_Name kc)))
      else (m(ref_of obj \<mapsto> obj), None))"

definition spec_object :: "KafkaTopicChannel \<Rightarrow> channels \<times> tracker_error option \<Rightarrow> channels \<times> api_result" where
  "spec_object obj r = (case r of (m, None) \<Rightarrow> (m, ObjectResult (Some obj) None) | (m, Some err) \<Rightarrow> (m, ObjectResult None (Some err)))"

text \<open>The channels of a namespace (of all, for the empty one) in the order of namespace and name.\<close>

definition spec_list :: "string \<Rightarrow> channels \<Rightarrow> KafkaTopicChannel list" where
  "spec_list ns m =
     map (\<lambda>(n, name). the (m \<lparr>nn_Namespace = n, nn_Name = name\<rparr>))
       (sorted_list_of_set ((\<lambda>k. (nn_Namespace k, nn_Name k)) ` {k \<in> dom m. ns = '''' \<or> nn_Namespace k = ns}))"

fun spec_op ::
  "(patch_type \<Rightarrow> string \<Rightarrow> KafkaTopicChannel \<Rightarrow> go_error + KafkaTopicChannel) \<Rightarrow> (string \<Rightarrow> selector option) \<Rightarrow> api_op \<Rightarrow> channels \<Rightarrow>
   channels \<times> api_result" where
  "spec_op applyPatch parse (OpGet ns name) m =
     (m, case m \<lparr>nn_Namespace = ns, nn_Name = name\<rparr> of None \<Rightarrow> ObjectResult None (Some (NotFound name)) | Some kc \<Rightarrow> ObjectResult (Some kc) None)"
| "spec_op applyPatch parse (OpList ns opts) m =
     (m, ListResult (Some (filter (\<lambda>kc. sel_Matches (the (parse (lopt_LabelSelector opts))) (om_Labels (kc_Meta kc))) (spec_list ns m))) None)"
| "spec_op applyPatch parse (OpCreate ns kc) m = spec_object (with_namespace ns kc) (spec_write False ns kc m)"
| "spec_op applyPatch parse (OpUpdate ns kc) m = spec_object (with_namespace ns kc) (spec_write True ns kc m)"
| "spec_op applyPatch parse (OpUpdateStatus ns kc) m = spec_object (with_namespace ns kc) (spec_write True ns kc m)"
| "spec_op applyPatch parse (OpDelete ns name) m =
     (if \<lparr>nn_Namespace = ns, nn_Name = name\<rparr> \<in> dom m then (m(\<lparr>nn_Namespace = ns, nn_Name = name\<rparr> := None), ErrorResult None)
      else (m, ErrorResult (Some (NotFound name))))"
| "spec_op applyPatch parse (OpDeleteCollection ns opts) m = (m, ErrorResult None)"
| "spec_op applyPatch parse (OpPatch ns name pt data subs) m =
     (case m \<lparr>nn_Namespace = ns, nn_Name = name\<rparr> of
        None \<Rightarrow> (m, ObjectResult None (Some (NotFound name)))
      | Some old \<Rightarrow>
          if pt \<notin> {JSONPatchType, MergePatchType, StrategicMergePatchType} then (m, ObjectResult None (Some PatchTypeNotSupported))
          else
            (case applyPatch pt data old of
               Inl err \<Rightarrow> (m, ObjectResult None (Some (PatchFailed err)))
             | Inr kc \<Rightarrow> spec_object kc (spec_write True ns kc m)))"

fun spec_ops ::
  "(patch_type \<Rightarrow> string \<Rightarrow> KafkaTopicChannel \<Rightarrow> go_error + KafkaTopicChannel) \<Rightarrow> (string \<Rightarrow> selector option) \<Rightarrow> api_op list \<Rightarrow> channels \<Rightarrow>
   channels \<times> api_result list" where
  "spec_ops applyPatch parse [] m = (m, [])"
| "spec_ops applyPatch parse (op # ops) m =
     (case spec_op applyPatch parse op m of (m1, r) \<Rightarrow> case spec_ops applyPatch parse ops m1 of (m2, rs) \<Rightarrow> (m2, r # rs))"

section \<open>The fake client implements the reference\<close>

text \<open>The objects of a tracker are stored under their own names.\<close>

definition objects_ok :: "channels \<Rightarrow> bool" where
  "objects_ok m \<longleftrightarrow> finite (dom m) \<and> (\<forall>k kc. m k = Some kc \<longrightarrow> ref_of kc = k)"

lemma with_namespace_simps [simp]:
  "kc_Name (with_namespace ns kc) = kc_Name kc" "kc_Namespace (with_namespace ns kc) = (if kc_Namespace kc = '''' then ns else kc_Namespace kc)"
  by (auto simp: with_namespace_def)

lemma spec_write_ok: "objects_ok m \<Longrightarrow> spec_write existing ns kc m = (m', e) \<Longrightarrow> objects_ok m'"
  by (auto simp: spec_write_def objects_ok_def Let_def split: if_splits)

lemma spec_op_ok:
  assumes "objects_ok m" "spec_op applyPatch parse op m = (m', r)"
  shows "objects_ok m'"
proof (cases op)
  case (OpDelete ns name)
  then show ?thesis using assms by (auto simp: objects_ok_def split: if_splits)
qed (use assms in \<open>auto simp: spec_object_def dest: spec_write_ok split: prod.splits option.splits sum.splits if_splits\<close>)

text \<open>The list is the same for every order of the range over the map.\<close>

lemma filterByNamespace_spec:
  assumes "objects_ok m" "go_range ord"
  shows "filterByNamespace ord m ns = spec_list ns m"
proof -
  let ?f = "\<lambda>kc. (kc_Namespace kc, kc_Name kc)" and ?g = "\<lambda>(n, name). the (m \<lparr>nn_Namespace = n, nn_Name = name\<rparr>)"
  let ?S = "{k \<in> dom m. ns = '''' \<or> nn_Namespace k = ns}"
  let ?xs = "filterByNamespace ord m ns"
  have fin: "finite (dom m)" and self: "\<And>k kc. m k = Some kc \<Longrightarrow> ref_of kc = k" using assms(1) by (auto simp: objects_ok_def)
  have o: "set (ord (dom m)) = dom m" "distinct (ord (dom m))" using assms(2) fin by (auto simp: go_range.set_ord go_range.distinct_ord)
  have key: "?f (the (m k)) = (nn_Namespace k, nn_Name k)" if "k \<in> dom m" for k using that self by fastforce
  have set_xs: "set ?xs = (\<lambda>k. the (m k)) ` ?S"
    using o(1) key by (force simp: filterByNamespace_def)
  then have "?f ` set ?xs = (\<lambda>k. (nn_Namespace k, nn_Name k)) ` ?S"
    unfolding image_image set_xs by (intro image_cong) (use key in auto)
  moreover have "sorted (map ?f ?xs)" by (simp add: filterByNamespace_def)
  moreover have "distinct (map ?f ?xs)"
  proof -
    have "distinct (map ?f (map (\<lambda>k. the (m k)) (ord (dom m))))"
      using o key by (simp add: distinct_map comp_def inj_on_def)
    then show ?thesis by (auto simp: filterByNamespace_def distinct_map inj_on_def)
  qed
  ultimately have "map ?f ?xs = sorted_list_of_set ((\<lambda>k. (nn_Namespace k, nn_Name k)) ` ?S)"
    using fin by (metis (no_types, lifting) list.set_map sorted_list_of_set.idem_if_sorted_distinct)
  then have "spec_list ns m = map ?g (map ?f ?xs)" by (simp add: spec_list_def)
  also have "\<dots> = ?xs"
  proof -
    have "?g (?f kc) = kc" if "kc \<in> set ?xs" for kc using that self unfolding set_xs by fastforce
    then show ?thesis by (simp add: map_idI)
  qed
  finally show ?thesis by simp
qed

definition clean ::
  "(NamespacedName set \<Rightarrow> NamespacedName list) \<Rightarrow> (patch_type \<Rightarrow> string \<Rightarrow> KafkaTopicChannel \<Rightarrow> go_error + KafkaTopicChannel) \<Rightarrow> fake \<Rightarrow> bool" where
  "clean ord applyPatch c \<longleftrightarrow>
     fk_ReactionChain c = [\<lparr>rx_Verb = ''*'', rx_Resource = ''*'', rx_Reaction = ObjectReaction ord applyPatch\<rparr>] \<and>
     objects_ok (tr_objects (fk_tracker c))"

lemma Invokes_clean:
  assumes "clean ord applyPatch c"
  shows "Invokes a obj c =
    (case ObjectReaction ord applyPatch a (fk_tracker c) of
       Panics \<Rightarrow> Panics
     | Returns (t, handled, ret) \<Rightarrow>
         Returns (c\<lparr>fk_actions := fk_actions c @ [a], fk_tracker := t\<rparr>, if handled then ret else (Some obj, None)))"
  using assms by (auto simp: clean_def Invokes_def Handles_def split: outcome.splits prod.splits bool.splits)

lemma tracker_add_spec:
  "tracker_add kc ns existing t = Returns (t', e) \<Longrightarrow> spec_write existing ns kc (tr_objects t) = (tr_objects t', e)"
  by (auto simp: tracker_add_def spec_write_def Let_def domIff split: if_splits outcome.splits)

lemma spec_write_stored:
  "spec_write existing ns kc m = (m', None) \<Longrightarrow> m' \<lparr>nn_Namespace = ns, nn_Name = kc_Name kc\<rparr> = Some (with_namespace ns kc)"
  by (auto simp: spec_write_def Let_def split: if_splits)

lemma read_back_spec:
  assumes "read_back ns (kc_Name kc) (tracker_add kc ns existing t) = Returns (t', handled, x, e)"
  shows "handled \<and> spec_object (with_namespace ns kc) (spec_write existing ns kc (tr_objects t)) =
    (tr_objects t', case x of Some (KafkaTopicChannelObject obj) \<Rightarrow> ObjectResult (Some obj) e | _ \<Rightarrow> ObjectResult None e) \<and> (\<forall>l. x \<noteq> Some (KafkaTopicChannelListObject l))"
proof -
  obtain t1 e1 where a: "tracker_add kc ns existing t = Returns (t1, e1)"
    using assms by (cases "tracker_add kc ns existing t") (auto simp: read_back_def)
  note w = tracker_add_spec [OF a]
  show ?thesis
  proof (cases e1)
    case None
    from spec_write_stored [OF w [unfolded None]] assms show ?thesis
      by (auto simp: a read_back_def None w get_reply_def tracker_Get_def spec_object_def)
  next
    case (Some err)
    with assms show ?thesis by (auto simp: a read_back_def w spec_object_def)
  qed
qed

lemma patch_spec:
  assumes "patch_reaction applyPatch ns name pt data t = Returns (t', handled, x, e)"
  shows "handled \<and> spec_op applyPatch parse (OpPatch ns name pt data subs) (tr_objects t) =
    (tr_objects t', case x of Some (KafkaTopicChannelObject obj) \<Rightarrow> ObjectResult (Some obj) e | _ \<Rightarrow> ObjectResult None e) \<and> (\<forall>l. x \<noteq> Some (KafkaTopicChannelListObject l))"
  using assms
  by (auto simp: patch_reaction_def tracker_Get_def tracker_Update_def spec_object_def
      dest!: tracker_add_spec split: option.splits patch_type.splits sum.splits outcome.splits prod.splits)

lemma run_op_refines:
  assumes c: "clean ord applyPatch c" and "go_range ord" and run: "run_op zero parse fieldOk op c = Returns (c', r)"
  shows "spec_op applyPatch parse op (tr_objects (fk_tracker c)) = (tr_objects (fk_tracker c'), r) \<and> clean ord applyPatch c'"
proof -
  have ok: "objects_ok (tr_objects (fk_tracker c))" using c by (simp add: clean_def)
  note I = Invokes_clean [OF c]
  have s: "spec_op applyPatch parse op (tr_objects (fk_tracker c)) = (tr_objects (fk_tracker c'), r) \<and> fk_ReactionChain c' = fk_ReactionChain c"
  proof (cases op)
    case (OpCreate ns kc)
    then show ?thesis using run read_back_spec [of ns kc False "fk_tracker c"]
      by (auto simp: to_object_def fake_Create_def as_channel_def I tracker_Create_def split: outcome.splits prod.splits option.splits robject.splits if_splits)
  next
    case (OpUpdate ns kc)
    then show ?thesis using run read_back_spec [of ns kc True "fk_tracker c"]
      by (auto simp: to_object_def fake_Update_def as_channel_def I tracker_Update_def split: outcome.splits prod.splits option.splits robject.splits if_splits)
  next
    case (OpUpdateStatus ns kc)
    then show ?thesis using run read_back_spec [of ns kc True "fk_tracker c"]
      by (auto simp: to_object_def fake_UpdateStatus_def as_channel_def I tracker_Update_def split: outcome.splits prod.splits option.splits robject.splits if_splits)
  next
    case (OpPatch ns name pt data subs)
    then show ?thesis using run patch_spec [of applyPatch ns name pt data "fk_tracker c" _ _ _ _ parse subs]
      by (auto simp: to_object_def fake_Patch_def as_channel_def I simp del: spec_op.simps split: outcome.splits prod.splits option.splits robject.splits if_splits)
  next
    case (OpGet ns name)
    then show ?thesis using run
      by (auto simp: to_object_def fake_Get_def as_channel_def I get_reply_def tracker_Get_def split: option.splits)
  next
    case (OpList ns opts)
    then show ?thesis using run
      by (auto simp: to_list_def fake_List_def I ExtractFromListOptions_def tracker_List_def filterByNamespace_spec [OF ok assms(2)]
          split: option.splits if_splits)
  next
    case (OpDelete ns name)
    then show ?thesis using run
      by (auto simp: to_error_def fake_Delete_def only_error_def I tracker_Delete_def Let_def split: option.splits outcome.splits)
  next
    case (OpDeleteCollection ns opts)
    then show ?thesis using run
      by (auto simp: to_error_def fake_DeleteCollection_def only_error_def I ExtractFromListOptions_def split: option.splits if_splits)
  qed
  then have "objects_ok (tr_objects (fk_tracker c'))" using spec_op_ok [OF ok] by blast
  then show ?thesis using s c by (simp add: clean_def)
qed

lemma run_ops_refines:
  assumes "go_range ord" "clean ord applyPatch c" "run_ops zero parse fieldOk ops c = Returns (c', rs)"
  shows "spec_ops applyPatch parse ops (tr_objects (fk_tracker c)) = (tr_objects (fk_tracker c'), rs)"
  using assms(2,3)
proof (induction ops arbitrary: c rs)
  case (Cons op ops)
  then obtain c1 r rs1 where 1: "run_op zero parse fieldOk op c = Returns (c1, r)" "run_ops zero parse fieldOk ops c1 = Returns (c', rs1)"
    "rs = r # rs1" by (auto split: outcome.splits)
  then show ?case using run_op_refines [OF Cons.prems(1) assms(1) 1(1)] Cons.IH by simp
qed simp

text \<open>No operation panics while every watcher has room and the selectors parse.\<close>

definition roomy :: "nat \<Rightarrow> tracker \<Rightarrow> bool" where
  "roomy n t \<longleftrightarrow> (\<forall>w \<in> set (tr_watchers t). fw_Stopped w \<or> length (fw_result w) + n \<le> DefaultChanSize)"

fun selectable :: "(string \<Rightarrow> selector option) \<Rightarrow> (string \<Rightarrow> bool) \<Rightarrow> api_op \<Rightarrow> bool" where
  "selectable parse fieldOk (OpList ns opts) \<longleftrightarrow> parse (lopt_LabelSelector opts) \<noteq> None \<and> fieldOk (lopt_FieldSelector opts)"
| "selectable parse fieldOk (OpDeleteCollection ns opts) \<longleftrightarrow> parse (lopt_LabelSelector opts) \<noteq> None \<and> fieldOk (lopt_FieldSelector opts)"
| "selectable parse fieldOk _ \<longleftrightarrow> True"

fun action_of :: "api_op \<Rightarrow> action" where
  "action_of (OpGet ns name) = GetAction ns name"
| "action_of (OpList ns opts) = ListAction ns opts"
| "action_of (OpCreate ns kc) = CreateAction ns kc"
| "action_of (OpUpdate ns kc) = UpdateAction ns '''' kc"
| "action_of (OpUpdateStatus ns kc) = UpdateAction ns ''status'' kc"
| "action_of (OpDelete ns name) = DeleteAction ns name"
| "action_of (OpDeleteCollection ns opts) = DeleteCollectionAction ns opts"
| "action_of (OpPatch ns name pt data subs) = PatchAction ns name pt data subs"

lemma notify_room:
  assumes "\<forall>w \<in> set ws. fw_Stopped w \<or> length (fw_result w) + Suc n \<le> DefaultChanSize"
  shows "\<exists>ws'. notify ns ev ws = Returns ws' \<and> (\<forall>w \<in> set ws'. fw_Stopped w \<or> length (fw_result w) + n \<le> DefaultChanSize)"
  using assms
proof (induction ws)
  case (Cons w ws)
  then obtain ws' where "notify ns ev ws = Returns ws'" "\<forall>w \<in> set ws'. fw_Stopped w \<or> length (fw_result w) + n \<le> DefaultChanSize" by auto
  with Cons.prems show ?case by (auto simp: send_def)
qed simp

lemma roomy_mono: "roomy (Suc n) t \<Longrightarrow> roomy n t"
  by (auto simp: roomy_def)

lemma notify_roomy:
  assumes "roomy (Suc n) t"
  obtains ws where "notify ns ev (tr_watchers t) = Returns ws" "\<And>m. roomy n \<lparr>tr_objects = m, tr_watchers = ws\<rparr>"
  using notify_room [of "tr_watchers t" n ns ev] assms that by (auto simp: roomy_def)

lemma tracker_add_returns:
  assumes "roomy (Suc n) t"
  shows "\<exists>t' e. tracker_add kc ns existing t = Returns (t', e) \<and> roomy n t'"
proof -
  obtain wa where a: "notify ns (Added (with_namespace ns kc)) (tr_watchers t) = Returns wa" "\<And>m. roomy n \<lparr>tr_objects = m, tr_watchers = wa\<rparr>"
    using notify_roomy [OF assms] by blast
  obtain wm where m: "notify ns (Modified (with_namespace ns kc)) (tr_watchers t) = Returns wm" "\<And>m. roomy n \<lparr>tr_objects = m, tr_watchers = wm\<rparr>"
    using notify_roomy [OF assms] by blast
  show ?thesis using a m roomy_mono [OF assms] by (auto simp: tracker_add_def Let_def roomy_def simp del: with_namespace_simps)
qed

lemma reaction_returns:
  assumes "roomy (Suc n) t"
  shows "\<exists>t' h x e. ObjectReaction ord applyPatch (action_of op) t = Returns (t', h, x, e) \<and> roomy n t'"
proof (cases op)
  case (OpDelete ns name)
  obtain ws where "notify ns (Deleted (the (tr_objects t \<lparr>nn_Namespace = ns, nn_Name = name\<rparr>))) (tr_watchers t) = Returns ws"
    "\<And>m. roomy n \<lparr>tr_objects = m, tr_watchers = ws\<rparr>" using notify_roomy [OF assms] by blast
  then show ?thesis using OpDelete roomy_mono [OF assms] by (auto simp: tracker_Delete_def Let_def roomy_def split: option.splits)
next
  case (OpCreate ns kc)
  obtain t1 e where "tracker_add kc ns False t = Returns (t1, e)" "roomy n t1" using tracker_add_returns [OF assms] by blast
  then show ?thesis using OpCreate by (cases e) (auto simp: tracker_Create_def read_back_def)
next
  case (OpUpdate ns kc)
  obtain t1 e where "tracker_add kc ns True t = Returns (t1, e)" "roomy n t1" using tracker_add_returns [OF assms] by blast
  then show ?thesis using OpUpdate by (cases e) (auto simp: tracker_Update_def read_back_def)
next
  case (OpUpdateStatus ns kc)
  obtain t1 e where "tracker_add kc ns True t = Returns (t1, e)" "roomy n t1" using tracker_add_returns [OF assms] by blast
  then show ?thesis using OpUpdateStatus by (cases e) (auto simp: tracker_Update_def read_back_def)
next
  case (OpPatch ns name pt data subs)
  show ?thesis
  proof (cases "\<exists>old kc. tracker_Get ns name t = Inr old \<and> (\<forall>s. pt \<noteq> OtherPatchType s) \<and> applyPatch pt data old = Inr kc")
    case True
    then obtain old kc where k: "tracker_Get ns name t = Inr old" "\<forall>s. pt \<noteq> OtherPatchType s" "applyPatch pt data old = Inr kc" by blast
    obtain t1 e where "tracker_add kc ns True t = Returns (t1, e)" "roomy n t1" using tracker_add_returns [OF assms] by blast
    then show ?thesis using k OpPatch by (cases e; cases pt) (auto simp: patch_reaction_def tracker_Update_def)
  next
    case False
    then show ?thesis using OpPatch roomy_mono [OF assms] by (auto simp: patch_reaction_def split: sum.splits patch_type.splits)
  qed
qed (use roomy_mono [OF assms] in auto)

lemma reaction_kinds:
  assumes "ObjectReaction ord applyPatch (action_of op) t = Returns (t', h, x, e)"
  shows "(\<forall>ns opts. op \<noteq> OpList ns opts) \<Longrightarrow> x \<noteq> Some (KafkaTopicChannelListObject l)" "op = OpList ns opts \<Longrightarrow> h \<and> x = Some (KafkaTopicChannelListObject (tracker_List ord ns t))"
    "h \<longleftrightarrow> (\<forall>ns opts. op \<noteq> OpDeleteCollection ns opts)"
  using assms read_back_spec [of _ _ _ t t' h x e] patch_spec [of applyPatch _ _ _ _ t t' h x e parse subs]
  by (cases op; fastforce simp: tracker_Create_def tracker_Update_def get_reply_def split: sum.splits outcome.splits)+

lemma run_op_returns:
  assumes "clean ord applyPatch c" "roomy (Suc n) (fk_tracker c)" "selectable parse fieldOk op"
  shows "\<exists>c' r. run_op zero parse fieldOk op c = Returns (c', r) \<and> roomy n (fk_tracker c') \<and> fk_actions c' = fk_actions c @ [action_of op]"
proof -
  obtain t h x e where r: "ObjectReaction ord applyPatch (action_of op) (fk_tracker c) = Returns (t, h, x, e)" "roomy n t"
    using reaction_returns [OF assms(2)] by blast
  note k = reaction_kinds [OF r(1)] and I = Invokes_clean [OF assms(1)]
  show ?thesis
  proof (cases x)
    case None
    then show ?thesis using r k assms(3)
      by (cases op) (auto simp: to_object_def to_list_def to_error_def as_channel_def only_error_def I fake_Get_def fake_List_def fake_Create_def
          fake_Update_def fake_UpdateStatus_def fake_Delete_def fake_DeleteCollection_def fake_Patch_def ExtractFromListOptions_def)
  next
    case (Some obj)
    then show ?thesis using r k assms(3)
      by (cases op; cases obj) (auto simp: to_object_def to_list_def to_error_def as_channel_def only_error_def I fake_Get_def fake_List_def fake_Create_def
          fake_Update_def fake_UpdateStatus_def fake_Delete_def fake_DeleteCollection_def fake_Patch_def ExtractFromListOptions_def)
  qed
qed

lemma run_ops_returns:
  assumes "go_range ord" "clean ord applyPatch c" "roomy (length ops) (fk_tracker c)" "list_all (selectable parse fieldOk) ops"
  shows "\<exists>c' rs. run_ops zero parse fieldOk ops c = Returns (c', rs) \<and> fk_actions c' = fk_actions c @ map action_of ops"
  using assms(2-4)
proof (induction ops arbitrary: c)
  case (Cons op ops)
  then obtain c1 r where 1: "run_op zero parse fieldOk op c = Returns (c1, r)" "roomy (length ops) (fk_tracker c1)"
      "fk_actions c1 = fk_actions c @ [action_of op]" using run_op_returns [of ord applyPatch c "length ops" parse fieldOk op zero] by auto
  have "clean ord applyPatch c1" using run_op_refines [OF Cons.prems(1) assms(1) 1(1)] by blast
  from Cons.IH [OF this 1(2)] Cons.prems(3) 1 show ?case by auto
qed simp

text \<open>The initial objects.\<close>

definition put :: "KafkaTopicChannel \<Rightarrow> channels \<Rightarrow> channels" where
  "put kc m = m(ref_of kc \<mapsto> kc)"

lemma add_all_spec:
  assumes "tr_watchers t = []" "objects_ok (tr_objects t)"
  shows "add_all objs t = (if distinct (map ref_of objs) \<and> ref_of ` set objs \<inter> dom (tr_objects t) = {}
    then Returns \<lparr>tr_objects = fold put objs (tr_objects t), tr_watchers = []\<rparr> else Panics)"
  using assms
proof (induction objs arbitrary: t)
  case (Cons kc objs)
  have ns: "with_namespace (kc_Namespace kc) kc = kc" by (simp add: with_namespace_def)
  show ?case
  proof (cases "ref_of kc \<in> dom (tr_objects t)")
    case True
    then show ?thesis by (auto simp: tracker_add_def ns Let_def)
  next
    case False
    let ?t = "t\<lparr>tr_objects := put kc (tr_objects t)\<rparr>"
    have "tracker_add kc (kc_Namespace kc) False t = Returns (?t, None)" using False Cons.prems(1) by (simp add: tracker_add_def ns Let_def domIff put_def)
    note add = this
    have "objects_ok (tr_objects ?t)" using Cons.prems(2) by (auto simp: objects_ok_def put_def)
    then have ih: "add_all objs ?t = (if distinct (map ref_of objs) \<and> ref_of ` set objs \<inter> dom (tr_objects ?t) = {}
        then Returns \<lparr>tr_objects = fold put objs (tr_objects ?t), tr_watchers = []\<rparr> else Panics)"
      by (rule Cons.IH [rotated]) (simp add: Cons.prems(1))
    have "distinct (map ref_of objs) \<and> ref_of ` set objs \<inter> dom (tr_objects ?t) = {} \<longleftrightarrow>
        distinct (map ref_of (kc # objs)) \<and> ref_of ` set (kc # objs) \<inter> dom (tr_objects t) = {}" using False by (auto simp: put_def)
    then show ?thesis using ih add by simp
  qed
qed simp

lemma put_ok: "objects_ok m \<Longrightarrow> objects_ok (put kc m)"
  by (auto simp: objects_ok_def put_def)

lemma fold_channels_ok: "objects_ok m \<Longrightarrow> objects_ok (fold put objs m)"
  by (induction objs arbitrary: m) (simp_all add: put_ok)

lemma NewSimpleClientset_spec:
  "NewSimpleClientset ord applyPatch objects =
     (let items = concat (map items_of objects) in
      if distinct (map ref_of items) then
        Returns \<lparr>fk_actions = [], fk_ReactionChain = [\<lparr>rx_Verb = ''*'', rx_Resource = ''*'', rx_Reaction = ObjectReaction ord applyPatch\<rparr>],
          fk_tracker = \<lparr>tr_objects = fold put items Map.empty, tr_watchers = []\<rparr>\<rparr>
      else Panics)"
proof -
  have "objects_ok Map.empty" by (simp add: objects_ok_def)
  then show ?thesis using add_all_spec [of NewObjectTracker]
    by (simp add: NewSimpleClientset_def NewObjectTracker_def AddReactor_def Let_def)
qed

lemma NewSimpleClientset_clean:
  "NewSimpleClientset ord applyPatch objects = Returns c \<Longrightarrow> clean ord applyPatch c \<and> tr_watchers (fk_tracker c) = [] \<and> fk_actions c = []"
  using fold_channels_ok [of Map.empty "concat (map items_of objects)"]
  by (auto simp: NewSimpleClientset_spec clean_def Let_def objects_ok_def [of Map.empty] split: if_splits)

text \<open>
  C26: The fake client that the reconcilers are tested against implements a plain map of channels. A new one panics
  exactly if two of its objects have the same name, and holds its objects. After any sequence of operations whose
  selectors parse, the tracker holds what the reference map holds, every operation has returned what the reference
  returns, errors included and lists in the order of namespace and name whatever order a range over a map takes,
  and the recorded actions are those of the sequence. The reference keeps what a real API server would not do: updating the
  status replaces the whole object, and deleting a collection deletes nothing and returns no error. Deleting a channel
  that does not exist is an error, as the code has it; the comment of \<open>ObjectTracker.Delete\<close> (\<open>fixture.go\<close>) says that it is none.
\<close>

theorem fake_client_refines:
  assumes "go_range ord" "list_all (selectable parse fieldOk) ops"
  shows "if distinct (map ref_of (concat (map items_of objects))) then
      \<exists>c c' rs. NewSimpleClientset ord applyPatch objects = Returns c \<and>
        tr_objects (fk_tracker c) = fold put (concat (map items_of objects)) Map.empty \<and>
        run_ops zero parse fieldOk ops c = Returns (c', rs) \<and>
        spec_ops applyPatch parse ops (tr_objects (fk_tracker c)) = (tr_objects (fk_tracker c'), rs) \<and>
        fk_actions c' = map action_of ops
    else NewSimpleClientset ord applyPatch objects = Panics"
proof (cases "distinct (map ref_of (concat (map items_of objects)))")
  case True
  then obtain c where c: "NewSimpleClientset ord applyPatch objects = Returns c"
      "tr_objects (fk_tracker c) = fold put (concat (map items_of objects)) Map.empty"
    by (simp add: NewSimpleClientset_spec)
  note n = NewSimpleClientset_clean [OF c(1)]
  then have "roomy (length ops) (fk_tracker c)" by (simp add: roomy_def)
  with n obtain c' rs where r: "run_ops zero parse fieldOk ops c = Returns (c', rs)" "fk_actions c' = map action_of ops"
    using run_ops_returns [OF assms(1) _ _ assms(2), of applyPatch c zero] by auto
  have "spec_ops applyPatch parse ops (tr_objects (fk_tracker c)) = (tr_objects (fk_tracker c'), rs)"
    using n by (intro run_ops_refines [OF assms(1) _ r(1)]) simp
  then show ?thesis using True c r by (subst if_P) blast+
qed (auto simp: NewSimpleClientset_spec)

text \<open>Keys in the order of namespace and name: an order for a range over the tracker's map.\<close>

instantiation NamespacedName_ext :: (linorder) linorder
begin

definition less_eq_NamespacedName_ext :: "'a NamespacedName_ext \<Rightarrow> 'a NamespacedName_ext \<Rightarrow> bool" where
  "a \<le> b \<longleftrightarrow> (nn_Namespace a, nn_Name a, NamespacedName.more a) \<le> (nn_Namespace b, nn_Name b, NamespacedName.more b)"

definition less_NamespacedName_ext :: "'a NamespacedName_ext \<Rightarrow> 'a NamespacedName_ext \<Rightarrow> bool" where
  "a < b \<longleftrightarrow> (nn_Namespace a, nn_Name a, NamespacedName.more a) < (nn_Namespace b, nn_Name b, NamespacedName.more b)"

instance
proof
  fix x y z :: "'a NamespacedName_ext"
  show "x < y \<longleftrightarrow> x \<le> y \<and> \<not> y \<le> x" unfolding less_eq_NamespacedName_ext_def less_NamespacedName_ext_def by (rule less_le_not_le)
  show "x \<le> x" unfolding less_eq_NamespacedName_ext_def by (rule order_refl)
  show "x \<le> y \<Longrightarrow> y \<le> z \<Longrightarrow> x \<le> z" unfolding less_eq_NamespacedName_ext_def by (rule order_trans)
  show "x \<le> y \<Longrightarrow> y \<le> x \<Longrightarrow> x = y" unfolding less_eq_NamespacedName_ext_def by (drule (1) order_antisym) simp
  show "x \<le> y \<or> y \<le> x" unfolding less_eq_NamespacedName_ext_def by (rule linear)
qed

end

definition sample_ops :: "api_op list" where
  "sample_ops = [OpCreate ''ns'' (sample_channel 1 []), OpCreate ''ns'' (sample_channel 2 []), OpDelete ''ns'' ''ch'', OpGet ''ns'' ''ch'']"

theorem fake_client_refines_witness:
  "\<exists>c c'. NewSimpleClientset sorted_list_of_set (\<lambda>_ _ kc. Inr kc) [] = Returns c \<and>
     run_ops (sample_channel 1 []) (\<lambda>_. None) (\<lambda>_. True) sample_ops c = Returns (c',
       [ObjectResult (Some (sample_channel 1 [])) None, ObjectResult None (Some (AlreadyExists ''ch'')), ErrorResult None,
        ObjectResult None (Some (NotFound ''ch''))])"
proof -
  have "snd (spec_ops (\<lambda>_ _ kc. Inr kc) (\<lambda>_. None) sample_ops Map.empty) =
     [ObjectResult (Some (sample_channel 1 [])) None, ObjectResult None (Some (AlreadyExists ''ch'')), ErrorResult None,
      ObjectResult None (Some (NotFound ''ch''))]"
    by (simp add: sample_ops_def spec_object_def spec_write_def with_namespace_def Let_def sample_defs)
  moreover have "list_all (selectable (\<lambda>_. None) (\<lambda>_. True)) sample_ops" by (simp add: sample_ops_def)
  ultimately show ?thesis
    using fake_client_refines [OF sorted_range.go_range_axioms, of "\<lambda>_. None" "\<lambda>_. True" sample_ops "[]" "\<lambda>_ _ kc. Inr kc" "sample_channel 1 []"]
    by auto
qed


end
