(* ===== verification/DeltaQueue.thy ===== *)
theory DeltaQueue
  imports FakeClient
begin

text \<open>
  The queue between the reflector of an informer and its cache (vendored \<open>client-go/tools/cache\<close>: \<open>delta_fifo.go\<close>, and
  \<open>HandleDeltas\<close> of \<open>shared_informer.go\<close>): for every key the changes since the key was last handled, in a queue of keys. An
  informer gives the queue its cache as the known objects and asks for \<open>Replaced\<close> deltas. The two fields that only
  \<open>HasSynced\<close> reads are left out, as is \<open>Close\<close>. What the changes will make of the cache is \<open>settle\<close>.
\<close>

section \<open>The queue\<close>

text \<open>A deletion that was only noticed by a new list is a \<open>DeletedFinalStateUnknown\<close> with the key and the last known object.\<close>

datatype deleted_object = LastValue KafkaTopicChannel | FinalStateUnknown string "KafkaTopicChannel option"

datatype Delta =
    DeltaAdded KafkaTopicChannel
  | DeltaUpdated KafkaTopicChannel
  | DeltaReplaced KafkaTopicChannel
  | DeltaSync KafkaTopicChannel
  | DeltaDeleted deleted_object

record DeltaFIFO =
  df_items :: "string \<rightharpoonup> Delta list"
  df_queue :: "string list"

definition NewDeltaFIFO :: DeltaFIFO where
  "NewDeltaFIFO = \<lparr>df_items = Map.empty, df_queue = []\<rparr>"

fun KeyOf :: "Delta \<Rightarrow> string" where
  "KeyOf (DeltaAdded obj) = MetaNamespaceKeyFunc obj"
| "KeyOf (DeltaUpdated obj) = MetaNamespaceKeyFunc obj"
| "KeyOf (DeltaReplaced obj) = MetaNamespaceKeyFunc obj"
| "KeyOf (DeltaSync obj) = MetaNamespaceKeyFunc obj"
| "KeyOf (DeltaDeleted (LastValue obj)) = MetaNamespaceKeyFunc obj"
| "KeyOf (DeltaDeleted (FinalStateUnknown key obj)) = key"

fun isDeletionDup :: "Delta \<Rightarrow> Delta \<Rightarrow> Delta option" where
  "isDeletionDup (DeltaDeleted a) (DeltaDeleted (FinalStateUnknown _ _)) = Some (DeltaDeleted a)"
| "isDeletionDup (DeltaDeleted a) (DeltaDeleted b) = Some (DeltaDeleted b)"
| "isDeletionDup _ _ = None"

definition dedupDeltas :: "Delta list \<Rightarrow> Delta list" where
  "dedupDeltas deltas =
     (if length deltas < 2 then deltas
      else
        (let n = length deltas in
         case isDeletionDup (deltas ! (n - 1)) (deltas ! (n - 2)) of
           Some out \<Rightarrow> take (n - 2) deltas @ [out]
         | None \<Rightarrow> deltas))"

definition queueActionLocked :: "Delta \<Rightarrow> DeltaFIFO \<Rightarrow> DeltaFIFO" where
  "queueActionLocked d f =
     (let i = KeyOf d;
          newDeltas = dedupDeltas ((case df_items f i of None \<Rightarrow> [] | Some ds \<Rightarrow> ds) @ [d])
      in if length newDeltas > 0
         then \<lparr>df_items = (df_items f)(i \<mapsto> newDeltas), df_queue = (if df_items f i = None then df_queue f @ [i] else df_queue f)\<rparr>
         else f\<lparr>df_items := (df_items f)(i := None)\<rparr>)"

definition fifo_Add :: "KafkaTopicChannel \<Rightarrow> DeltaFIFO \<Rightarrow> DeltaFIFO" where
  "fifo_Add obj f = queueActionLocked (DeltaAdded obj) f"

definition fifo_Update :: "KafkaTopicChannel \<Rightarrow> DeltaFIFO \<Rightarrow> DeltaFIFO" where
  "fifo_Update obj f = queueActionLocked (DeltaUpdated obj) f"

text \<open>\<open>knownObjects\<close> is the cache.\<close>

definition fifo_Delete :: "indexer \<Rightarrow> KafkaTopicChannel \<Rightarrow> DeltaFIFO \<Rightarrow> DeltaFIFO" where
  "fifo_Delete knownObjects obj f =
     (let i = MetaNamespaceKeyFunc obj in
      if ix_items knownObjects i = None \<and> df_items f i = None then f
      else queueActionLocked (DeltaDeleted (LastValue obj)) f)"

definition fifo_Replace :: "(string set \<Rightarrow> string list) \<Rightarrow> indexer \<Rightarrow> KafkaTopicChannel list \<Rightarrow> DeltaFIFO \<Rightarrow> DeltaFIFO" where
  "fifo_Replace ord knownObjects objs f =
     (let f1 = fold (\<lambda>item. queueActionLocked (DeltaReplaced item)) objs f;
          keys = MetaNamespaceKeyFunc ` set objs
      in fold (\<lambda>k f. if k \<in> keys then f else queueActionLocked (DeltaDeleted (FinalStateUnknown k (ix_items knownObjects k))) f)
           (ord (dom (ix_items knownObjects))) f1)"

text \<open>The periodic resynchronisation queues a known object again unless something about it is queued.\<close>

definition syncKeyLocked :: "indexer \<Rightarrow> string \<Rightarrow> DeltaFIFO \<Rightarrow> DeltaFIFO" where
  "syncKeyLocked knownObjects key f =
     (case ix_items knownObjects key of
        None \<Rightarrow> f
      | Some obj \<Rightarrow>
          (case df_items f (MetaNamespaceKeyFunc obj) of
             Some (d # ds) \<Rightarrow> f
           | _ \<Rightarrow> queueActionLocked (DeltaSync obj) f))"

definition fifo_Resync :: "(string set \<Rightarrow> string list) \<Rightarrow> indexer \<Rightarrow> DeltaFIFO \<Rightarrow> DeltaFIFO" where
  "fifo_Resync ord knownObjects f = fold (syncKeyLocked knownObjects) (ord (dom (ix_items knownObjects))) f"

text \<open>\<open>Pop\<close>: a key without deltas is skipped; \<open>None\<close> is the wait on an empty queue. The deltas are then handled under the same lock.\<close>

fun pop_loop :: "(string \<rightharpoonup> Delta list) \<Rightarrow> string list \<Rightarrow> (Delta list \<times> DeltaFIFO) option" where
  "pop_loop items [] = None"
| "pop_loop items (i # queue) =
     (case items i of
        None \<Rightarrow> pop_loop items queue
      | Some item \<Rightarrow> Some (item, \<lparr>df_items = items(i := None), df_queue = queue\<rparr>))"

definition Pop :: "DeltaFIFO \<Rightarrow> (Delta list \<times> DeltaFIFO) option" where
  "Pop f = pop_loop (df_items f) (df_queue f)"

section \<open>Handling deltas\<close>

text \<open>The deletion of a key from the cache, which looks into a \<open>DeletedFinalStateUnknown\<close> for the key only.\<close>

definition delete_key :: "string \<Rightarrow> indexer \<Rightarrow> indexer" where
  "delete_key key ix =
     (case ix_items ix key of
        None \<Rightarrow> ix
      | Some old \<Rightarrow> \<lparr>ix_items = (ix_items ix)(key := None), ix_index = deleteFromIndices old key (ix_index ix)\<rparr>)"

text \<open>\<open>Add\<close> and \<open>Update\<close> of the indexer are the same operation.\<close>

fun handle_delta :: "Delta \<Rightarrow> indexer \<Rightarrow> indexer" where
  "handle_delta (DeltaAdded obj) ix = store_Add obj ix"
| "handle_delta (DeltaUpdated obj) ix = store_Add obj ix"
| "handle_delta (DeltaReplaced obj) ix = store_Add obj ix"
| "handle_delta (DeltaSync obj) ix = store_Add obj ix"
| "handle_delta (DeltaDeleted obj) ix = delete_key (KeyOf (DeltaDeleted obj)) ix"

definition HandleDeltas :: "Delta list \<Rightarrow> indexer \<Rightarrow> indexer" where
  "HandleDeltas deltas ix = fold handle_delta deltas ix"

section \<open>What the queue will make of the cache\<close>

fun delta_effect :: "Delta \<Rightarrow> KafkaTopicChannel option \<Rightarrow> KafkaTopicChannel option" where
  "delta_effect (DeltaAdded obj) _ = Some obj"
| "delta_effect (DeltaUpdated obj) _ = Some obj"
| "delta_effect (DeltaReplaced obj) _ = Some obj"
| "delta_effect (DeltaSync obj) _ = Some obj"
| "delta_effect (DeltaDeleted _) _ = None"

definition pending :: "DeltaFIFO \<Rightarrow> string \<Rightarrow> Delta list" where
  "pending f key = (case df_items f key of None \<Rightarrow> [] | Some ds \<Rightarrow> ds)"

definition settle :: "DeltaFIFO \<Rightarrow> indexer \<Rightarrow> string \<rightharpoonup> KafkaTopicChannel" where
  "settle f ix key = fold delta_effect (pending f key) (ix_items ix key)"

fun delta_named :: "Delta \<Rightarrow> bool" where
  "delta_named (DeltaAdded obj) \<longleftrightarrow> named obj"
| "delta_named (DeltaUpdated obj) \<longleftrightarrow> named obj"
| "delta_named (DeltaReplaced obj) \<longleftrightarrow> named obj"
| "delta_named (DeltaSync obj) \<longleftrightarrow> named obj"
| "delta_named (DeltaDeleted _) \<longleftrightarrow> True"

text \<open>Every key with deltas is queued, and its deltas are about the key.\<close>

definition fifo_ok :: "DeltaFIFO \<Rightarrow> bool" where
  "fifo_ok f \<longleftrightarrow> dom (df_items f) \<subseteq> set (df_queue f) \<and> (\<forall>key. \<forall>d \<in> set (pending f key). KeyOf d = key \<and> delta_named d)"

lemma fifo_ok_new: "fifo_ok NewDeltaFIFO" "settle NewDeltaFIFO ix = ix_items ix"
  by (simp_all add: fifo_ok_def NewDeltaFIFO_def settle_def pending_def fun_eq_iff)

text \<open>Deduplication merges two deletions and changes nothing else.\<close>

lemma dedupDeltas_snoc2:
  "dedupDeltas (ds @ [b, a]) = (case isDeletionDup a b of Some out \<Rightarrow> ds @ [out] | None \<Rightarrow> ds @ [b, a])"
  by (simp add: dedupDeltas_def nth_append Let_def split: option.split)

lemma dedup_cases:
  obtains "dedupDeltas (ds @ [d]) = ds @ [d]"
  | ds' a b x where "ds = ds' @ [DeltaDeleted b]" "d = DeltaDeleted a" "x \<in> {a, b}" "dedupDeltas (ds @ [d]) = ds' @ [DeltaDeleted x]"
proof (cases ds rule: rev_cases)
  case Nil
  then show ?thesis using that(1) by (simp add: dedupDeltas_def)
next
  case (snoc ds' b)
  show ?thesis
  proof (cases "isDeletionDup d b")
    case None
    then show ?thesis using that(1) snoc dedupDeltas_snoc2 [of ds' b d] by simp
  next
    case (Some out)
    then obtain a b' x where "d = DeltaDeleted a" "b = DeltaDeleted b'" "out = DeltaDeleted x" "x \<in> {a, b'}"
      by (cases "(d, b)" rule: isDeletionDup.cases) auto
    then show ?thesis using that(2) snoc Some dedupDeltas_snoc2 [of ds' b d] by auto
  qed
qed

lemma dedup_effect: "fold delta_effect (dedupDeltas (ds @ [d])) x = delta_effect d (fold delta_effect ds x)"
  by (rule dedup_cases [of ds d]) simp_all

lemma dedup_nonempty: "dedupDeltas (ds @ [d]) \<noteq> []"
  by (rule dedup_cases [of ds d]) simp_all

lemma dedup_set: "set (dedupDeltas (ds @ [d])) \<subseteq> set ds \<union> {d}"
  by (rule dedup_cases [of ds d]) auto

lemma pending_queueAction:
  "pending (queueActionLocked d f) key = (if key = KeyOf d then dedupDeltas (pending f key @ [d]) else pending f key)"
  using dedup_nonempty [of "pending f (KeyOf d)" d] by (simp add: queueActionLocked_def Let_def pending_def)

lemma queueAction_settle: "settle (queueActionLocked d f) ix = (settle f ix)(KeyOf d := delta_effect d (settle f ix (KeyOf d)))"
  by (simp add: fun_eq_iff settle_def pending_queueAction dedup_effect)

lemma queueAction_ok:
  assumes "fifo_ok f" "delta_named d"
  shows "fifo_ok (queueActionLocked d f)"
proof -
  have "dom (df_items (queueActionLocked d f)) \<subseteq> set (df_queue (queueActionLocked d f))"
    using assms(1) dedup_nonempty [of "pending f (KeyOf d)" d] by (auto simp: fifo_ok_def queueActionLocked_def Let_def pending_def)
  moreover have "KeyOf x = key \<and> delta_named x" if "x \<in> set (pending (queueActionLocked d f) key)" for x key
    using that assms dedup_set [of "pending f key" d] by (fastforce simp: pending_queueAction fifo_ok_def split: if_splits)
  ultimately show ?thesis by (simp add: fifo_ok_def)
qed

text \<open>The events that a reflector hands to the queue.\<close>

fun watchHandler :: "indexer \<Rightarrow> watch_event \<Rightarrow> DeltaFIFO \<Rightarrow> DeltaFIFO" where
  "watchHandler store (Added obj) f = fifo_Add obj f"
| "watchHandler store (Modified obj) f = fifo_Update obj f"
| "watchHandler store (Deleted obj) f = fifo_Delete store obj f"

fun item_effect :: "watch_event \<Rightarrow> (string \<rightharpoonup> KafkaTopicChannel) \<Rightarrow> (string \<rightharpoonup> KafkaTopicChannel)" where
  "item_effect (Added obj) items = items(MetaNamespaceKeyFunc obj \<mapsto> obj)"
| "item_effect (Modified obj) items = items(MetaNamespaceKeyFunc obj \<mapsto> obj)"
| "item_effect (Deleted obj) items = items(MetaNamespaceKeyFunc obj := None)"

fun event_channel :: "watch_event \<Rightarrow> KafkaTopicChannel" where
  "event_channel (Added obj) = obj"
| "event_channel (Modified obj) = obj"
| "event_channel (Deleted obj) = obj"

lemma watchHandler_settle: "settle (watchHandler ix ev f) ix = item_effect ev (settle f ix)"
proof (cases ev)
  case (Deleted obj)
  have "settle f ix (MetaNamespaceKeyFunc obj) = None"
    if "ix_items ix (MetaNamespaceKeyFunc obj) = None" "df_items f (MetaNamespaceKeyFunc obj) = None"
    using that by (simp add: settle_def pending_def)
  then show ?thesis using Deleted by (auto simp: fifo_Delete_def Let_def queueAction_settle)
qed (simp_all add: fifo_Add_def fifo_Update_def queueAction_settle)

lemma watchHandler_ok: "fifo_ok f \<Longrightarrow> named (event_channel ev) \<Longrightarrow> fifo_ok (watchHandler ix ev f)"
  by (cases ev) (simp_all add: fifo_Add_def fifo_Update_def fifo_Delete_def Let_def queueAction_ok)

text \<open>A resynchronisation changes nothing in what the queue and the cache come to.\<close>

lemma syncKey_spec:
  assumes "ix_inv ix" "fifo_ok f"
  shows "settle (syncKeyLocked ix key f) ix = settle f ix" "fifo_ok (syncKeyLocked ix key f)"
proof -
  have "settle (syncKeyLocked ix key f) ix = settle f ix \<and> fifo_ok (syncKeyLocked ix key f)"
  proof (cases "ix_items ix key")
    case (Some obj)
    then have k: "named obj" "MetaNamespaceKeyFunc obj = key" using assms(1) by (auto simp: ix_inv_def)
    have "settle (queueActionLocked (DeltaSync obj) f) ix = settle f ix" if "pending f key = []"
      using that Some k(2) by (simp add: queueAction_settle) (simp add: settle_def fun_upd_idem_iff)
    then show ?thesis using Some k queueAction_ok [OF assms(2), of "DeltaSync obj"] assms(2)
      by (auto simp: syncKeyLocked_def pending_def split: option.split list.split)
  qed (simp add: syncKeyLocked_def assms(2))
  then show "settle (syncKeyLocked ix key f) ix = settle f ix" "fifo_ok (syncKeyLocked ix key f)" by simp_all
qed

lemma fifo_Resync_spec:
  assumes "ix_inv ix" "fifo_ok f"
  shows "settle (fifo_Resync ord ix f) ix = settle f ix" "fifo_ok (fifo_Resync ord ix f)"
proof -
  have "settle (fold (syncKeyLocked ix) keys f) ix = settle f ix \<and> fifo_ok (fold (syncKeyLocked ix) keys f)" for keys
    using assms(2) by (induction keys arbitrary: f) (simp_all add: syncKey_spec [OF assms(1)])
  then show "settle (fifo_Resync ord ix f) ix = settle f ix" "fifo_ok (fifo_Resync ord ix f)" by (simp_all add: fifo_Resync_def)
qed

text \<open>A list on an empty cache.\<close>

lemma fifo_Replace_new:
  assumes "go_range ord" "\<forall>kc \<in> set kcs. named kc"
  shows "fifo_ok (fifo_Replace ord new_indexer kcs NewDeltaFIFO)"
    and "settle (fifo_Replace ord new_indexer kcs NewDeltaFIFO) new_indexer = fold (\<lambda>obj m. m(MetaNamespaceKeyFunc obj \<mapsto> obj)) kcs Map.empty"
proof -
  have e: "ord {} = []" using go_range.set_ord [OF assms(1), of "{}"] by simp
  have r: "fifo_Replace ord new_indexer kcs f = fold (\<lambda>item. queueActionLocked (DeltaReplaced item)) kcs f" for f
    by (simp add: fifo_Replace_def new_indexer_def Let_def e)
  have "fifo_ok f \<Longrightarrow> \<forall>kc \<in> set kcs. named kc \<Longrightarrow> fifo_ok (fold (\<lambda>item. queueActionLocked (DeltaReplaced item)) kcs f)" for f
    by (induction kcs arbitrary: f) (simp_all add: queueAction_ok)
  then show "fifo_ok (fifo_Replace ord new_indexer kcs NewDeltaFIFO)" unfolding r using fifo_ok_new(1) assms(2) by blast
  have "settle (fold (\<lambda>item. queueActionLocked (DeltaReplaced item)) kcs f) ix = fold (\<lambda>obj m. m(MetaNamespaceKeyFunc obj \<mapsto> obj)) kcs (settle f ix)" for f ix
    by (induction kcs arbitrary: f) (simp_all add: queueAction_settle)
  then show "settle (fifo_Replace ord new_indexer kcs NewDeltaFIFO) new_indexer = fold (\<lambda>obj m. m(MetaNamespaceKeyFunc obj \<mapsto> obj)) kcs Map.empty"
    unfolding r by (simp add: fifo_ok_new(2)) (simp add: new_indexer_def)
qed

section \<open>Popping\<close>

lemma handle_delta_items: "ix_items (handle_delta d ix) = (ix_items ix)(KeyOf d := delta_effect d (ix_items ix (KeyOf d)))"
  by (cases d) (auto simp: store_Add_def delete_key_def Let_def fun_eq_iff split: option.split)

lemma HandleDeltas_items:
  assumes "\<forall>d \<in> set ds. KeyOf d = key"
  shows "ix_items (HandleDeltas ds ix) = (ix_items ix)(key := fold delta_effect ds (ix_items ix key))"
  using assms by (induction ds arbitrary: ix) (simp_all add: HandleDeltas_def handle_delta_items)

lemma HandleDeltas_inv:
  assumes "ix_inv ix" "\<forall>d \<in> set ds. delta_named d"
  shows "ix_inv (HandleDeltas ds ix)"
proof -
  have "ix_inv (delete_key key ix)" if "ix_inv ix" for key ix
    using that indexes_delete by (auto simp: ix_inv_def delete_key_def split: option.split if_splits)
  then have "ix_inv (handle_delta d ix)" if "ix_inv ix" "delta_named d" for d ix using that by (cases d) (simp_all add: ix_inv_Add)
  then show ?thesis using assms by (induction ds arbitrary: ix) (simp_all add: HandleDeltas_def)
qed

lemma pop_loop_Some:
  "pop_loop items queue = Some (ds, f) \<Longrightarrow> dom items \<subseteq> set queue \<Longrightarrow>
     \<exists>i. items i = Some ds \<and> df_items f = items(i := None) \<and> dom (df_items f) \<subseteq> set (df_queue f)"
proof (induction queue)
  case (Cons i queue)
  then show ?case
  proof (cases "items i")
    case None
    then have "dom items \<subseteq> set queue" using Cons.prems(2) by auto
    then show ?thesis using Cons None by simp
  next
    case (Some item)
    then have "ds = item" "f = \<lparr>df_items = items(i := None), df_queue = queue\<rparr>" using Cons.prems(1) by simp_all
    moreover have "dom (items(i := None)) \<subseteq> set queue" using Cons.prems(2) by auto
    ultimately show ?thesis using Some by (intro exI [of _ i]) (simp del: dom_fun_upd fun_upd_apply)
  qed
qed simp

text \<open>Handling the popped deltas does not change what the queue and the cache come to.\<close>

lemma Pop_spec:
  assumes "Pop f = Some (ds, f')" "fifo_ok f"
  shows "settle f' (HandleDeltas ds ix) = settle f ix" "fifo_ok f'" "\<forall>d \<in> set ds. delta_named d"
proof -
  obtain i where i: "df_items f i = Some ds" "df_items f' = (df_items f)(i := None)" "dom (df_items f') \<subseteq> set (df_queue f')"
    using pop_loop_Some [of "df_items f" "df_queue f" ds f'] assms by (auto simp: Pop_def fifo_ok_def)
  have p: "pending f i = ds" "pending f' = (pending f)(i := [])" by (simp_all add: pending_def i fun_eq_iff)
  have k: "\<forall>d \<in> set ds. KeyOf d = i \<and> delta_named d" using assms(2) p(1) by (auto simp: fifo_ok_def)
  show "settle f' (HandleDeltas ds ix) = settle f ix"
    using HandleDeltas_items [of ds i ix] k by (simp add: fun_eq_iff settle_def p(2)) (simp add: p(1))
  show "\<forall>d \<in> set ds. delta_named d" using k by blast
  show "fifo_ok f'" using assms(2) i(3) by (auto simp: fifo_ok_def p(2))
qed

lemma pop_loop_None: "pop_loop items queue = None \<Longrightarrow> i \<in> set queue \<Longrightarrow> items i = None"
  by (induction queue) (auto split: option.splits)

lemma Pop_None:
  assumes "fifo_ok f" "Pop f = None"
  shows "settle f ix = ix_items ix"
proof
  fix key
  have "df_items f key = None"
  proof (rule ccontr)
    assume a: "df_items f key \<noteq> None"
    then have "key \<in> set (df_queue f)" using assms(1) by (auto simp: fifo_ok_def)
    with a show False using pop_loop_None [of "df_items f" "df_queue f" key] assms(2) by (simp add: Pop_def)
  qed
  then show "settle f ix key = ix_items ix key" by (simp add: settle_def pending_def)
qed

end
