(* ===== verification/FakeInformer.thy ===== *)
theory FakeInformer
  imports DeltaQueue
begin

text \<open>
  An informer that lists and watches through the fake client, as in the tests of the reconcilers: the reflector
  (vendored \<open>reflector.go\<close>) lists the channels, later starts a watch, and hands what it gets to the queue of
  \<open>DeltaQueue\<close>, which another goroutine handles on the cache of \<open>Lister\<close>. The list and the start of the watch are
  two calls, and the watch of the fake client knows no resource versions. The theory shows how far the cache follows
  the tracker.
\<close>

section \<open>Channels and cached items\<close>

fun event_effect :: "watch_event \<Rightarrow> channels \<Rightarrow> channels" where
  "event_effect (Deleted obj) m = m(ref_of obj := None)"
| "event_effect ev m = put (event_channel ev) m"

definition in_scope :: "string \<Rightarrow> KafkaTopicChannel \<Rightarrow> bool" where
  "in_scope ns kc \<longleftrightarrow> ns = '''' \<or> kc_Namespace kc = ns"

text \<open>The items are, under their keys, the channels of the map that are in scope.\<close>

definition mirrors :: "string \<Rightarrow> channels \<Rightarrow> (string \<rightharpoonup> KafkaTopicChannel) \<Rightarrow> bool" where
  "mirrors ns m items \<longleftrightarrow> (\<forall>key kc. items key = Some kc \<longleftrightarrow> m (ref_of kc) = Some kc \<and> in_scope ns kc \<and> key = MetaNamespaceKeyFunc kc)"

text \<open>Every channel is under its own name, which an API server admits.\<close>

definition keyed :: "channels \<Rightarrow> bool" where
  "keyed m \<longleftrightarrow> (\<forall>k kc. m k = Some kc \<longrightarrow> ref_of kc = k \<and> named kc)"

definition channels_ok :: "channels \<Rightarrow> bool" where
  "channels_ok m \<longleftrightarrow> objects_ok m \<and> (\<forall>kc \<in> ran m. named kc)"

lemma key_eq:
  assumes "named a" "named b"
  shows "MetaNamespaceKeyFunc a = MetaNamespaceKeyFunc b \<longleftrightarrow> ref_of a = ref_of b"
proof
  assume "MetaNamespaceKeyFunc a = MetaNamespaceKeyFunc b"
  then have "kc_Namespace a @ ''/'' @ kc_Name a = MetaNamespaceKeyFunc b" using assms(1) by (simp add: MetaNamespaceKeyFunc_def named_def)
  moreover have "CHR ''/'' \<notin> set (kc_Namespace a)" using assms(1) by (simp add: named_def)
  ultimately show "ref_of a = ref_of b" using key_unique [OF assms(2)] by simp
qed (simp add: MetaNamespaceKeyFunc_def)

lemma channels_keyed: "channels_ok m \<Longrightarrow> keyed m"
  by (auto simp: channels_ok_def keyed_def objects_ok_def ran_def)

lemma keyedD: "keyed m \<Longrightarrow> m k = Some kc \<Longrightarrow> ref_of kc = k" "keyed m \<Longrightarrow> m k = Some kc \<Longrightarrow> named kc"
  by (simp_all add: keyed_def)

lemma mirrorsD: "mirrors ns m items \<Longrightarrow> items key = Some x \<longleftrightarrow> m (ref_of x) = Some x \<and> in_scope ns x \<and> key = MetaNamespaceKeyFunc x"
  by (simp add: mirrors_def)

text \<open>The entry of one channel changes, under its name and under its key.\<close>

lemma mirrors_set:
  assumes "keyed m" "mirrors ns m items" "named kc" "r = None \<or> r = Some kc \<and> in_scope ns kc"
  shows "mirrors ns (m(ref_of kc := r)) (items(MetaNamespaceKeyFunc kc := r))"
  unfolding mirrors_def
proof (intro allI)
  fix key x
  show "(items(MetaNamespaceKeyFunc kc := r)) key = Some x \<longleftrightarrow>
    (m(ref_of kc := r)) (ref_of x) = Some x \<and> in_scope ns x \<and> key = MetaNamespaceKeyFunc x"
  proof (cases "ref_of x = ref_of kc")
    case True
    then have k: "MetaNamespaceKeyFunc x = MetaNamespaceKeyFunc kc" by (simp add: MetaNamespaceKeyFunc_def)
    then have "items key = Some x \<Longrightarrow> key = MetaNamespaceKeyFunc kc" using mirrorsD [OF assms(2)] by simp
    then show ?thesis unfolding True fun_upd_same k using assms(4) by auto
  next
    case False
    then have "r \<noteq> Some x" using assms(4) by auto
    moreover have "m (ref_of x) = Some x \<Longrightarrow> MetaNamespaceKeyFunc x \<noteq> MetaNamespaceKeyFunc kc"
      using keyedD(2) [OF assms(1)] assms(3) False key_eq by blast
    ultimately show ?thesis unfolding fun_upd_other [OF False] using mirrorsD [OF assms(2)] by auto
  qed
qed

text \<open>Outside the scope nothing is seen.\<close>

lemma mirrors_outside:
  assumes "mirrors ns m items" "\<not> in_scope ns kc"
  shows "mirrors ns (m(ref_of kc := r)) items"
proof -
  have "(m(ref_of kc := r)) (ref_of x) = Some x \<and> in_scope ns x \<longleftrightarrow> m (ref_of x) = Some x \<and> in_scope ns x" for x
  proof (cases "ref_of x = ref_of kc")
    case True
    then have "\<not> in_scope ns x" using assms(2) by (simp add: in_scope_def)
    then show ?thesis by simp
  next
    case False
    then show ?thesis unfolding fun_upd_other [OF False] by simp
  qed
  then show ?thesis using assms(1) by (simp only: mirrors_def simp_thms conj_assoc [symmetric])
qed

lemma mirrors_event:
  assumes "keyed m" "mirrors ns m items" "named (event_channel ev)" "in_scope ns (event_channel ev)"
  shows "mirrors ns (event_effect ev m) (item_effect ev items)"
  using assms mirrors_set [OF assms(1-3)] by (cases ev) (simp_all add: put_def)

text \<open>The lister on a cache that mirrors a map.\<close>

lemma mirrors_Get:
  assumes "keyed m" "ix_inv ix" "mirrors ns m (ix_items ix)" "CHR ''/'' \<notin> set n" "ns = '''' \<or> n = ns"
  shows "namespace_Get n name ix = (case m \<lparr>nn_Namespace = n, nn_Name = name\<rparr> of None \<Rightarrow> Inl (ApiNotFound name) | Some kc \<Rightarrow> Inr kc)"
proof (cases "m \<lparr>nn_Namespace = n, nn_Name = name\<rparr>")
  case (Some kc)
  have r: "ref_of kc = \<lparr>nn_Namespace = n, nn_Name = name\<rparr>" and "named kc" using Some assms(1) by (auto simp: keyed_def)
  then have "MetaNamespaceKeyFunc kc = n @ ''/'' @ name" by (simp add: MetaNamespaceKeyFunc_def named_def)
  moreover have "ix_items ix (MetaNamespaceKeyFunc kc) = Some kc" using assms(3,5) r Some by (auto simp: mirrors_def in_scope_def)
  ultimately show ?thesis using Some by (simp add: namespace_Get_def)
next
  case None
  have "ix_items ix (n @ ''/'' @ name) \<noteq> Some kc" for kc
  proof
    assume i: "ix_items ix (n @ ''/'' @ name) = Some kc"
    then have "named kc" "n @ ''/'' @ name = MetaNamespaceKeyFunc kc" using assms(2) by (auto simp: ix_inv_def)
    then have "ref_of kc = \<lparr>nn_Namespace = n, nn_Name = name\<rparr>" using key_unique assms(4) by auto
    moreover have "m (ref_of kc) = Some kc" using mirrorsD [OF assms(3)] i by simp
    ultimately show False using None by simp
  qed
  then show ?thesis using None by (auto simp: namespace_Get_def split: option.split)
qed

section \<open>What an informer relies on\<close>

text \<open>
  A store of channels with a watcher: every change either shows neither in the objects nor in the unread events, or is
  the effect of one event, which the watcher gets if the object is in its scope.
\<close>

locale watched_store =
  fixes objects :: "'s \<Rightarrow> channels" and unread :: "'s \<Rightarrow> watch_event list" and scope :: string
    and inv :: "'s \<Rightarrow> bool" and change :: "'s \<Rightarrow> 's \<Rightarrow> bool"
  assumes kept: "inv s \<Longrightarrow> change s s' \<Longrightarrow> inv s'"
    and named_objects: "inv s \<Longrightarrow> channels_ok (objects s)"
    and event: "inv s \<Longrightarrow> change s s' \<Longrightarrow> objects s' = objects s \<and> unread s' = unread s \<or>
      (\<exists>ev. objects s' = event_effect ev (objects s) \<and> unread s' = unread s @ (if in_scope scope (event_channel ev) then [ev] else []) \<and>
        (case ev of Deleted kc \<Rightarrow> objects s (ref_of kc) = Some kc | _ \<Rightarrow> named (event_channel ev)))"
begin

text \<open>
  The changes between a list and the start of a watch are missed: for a name in \<open>missed\<close> the informer still goes by
  what it has listed. Every other name it follows.
\<close>

definition follows :: "channels \<Rightarrow> NamespacedName set \<Rightarrow> (string \<rightharpoonup> KafkaTopicChannel) \<Rightarrow> 's \<Rightarrow> bool" where
  "follows listed missed items s \<longleftrightarrow>
     mirrors scope (override_on (objects s) listed missed) (fold item_effect (unread s) items) \<and>
     (\<forall>ev \<in> set (unread s). named (event_channel ev)) \<and> keyed listed \<and>
     (\<forall>k \<in> missed. (scope = '''' \<or> nn_Namespace k = scope) \<and> listed k \<noteq> objects s k)"

lemma change_follows:
  assumes "inv s" "change s s'" "follows listed missed items s"
  shows "follows listed (missed - (ref_of \<circ> event_channel) ` set (drop (length (unread s)) (unread s'))) items s'"
  using event [OF assms(1,2)]
proof
  assume "\<exists>ev. objects s' = event_effect ev (objects s) \<and> unread s' = unread s @ (if in_scope scope (event_channel ev) then [ev] else []) \<and>
        (case ev of Deleted kc \<Rightarrow> objects s (ref_of kc) = Some kc | _ \<Rightarrow> named (event_channel ev))"
  then obtain ev where ev: "objects s' = event_effect ev (objects s)" "unread s' = unread s @ (if in_scope scope (event_channel ev) then [ev] else [])"
    "case ev of Deleted kc \<Rightarrow> objects s (ref_of kc) = Some kc | _ \<Rightarrow> named (event_channel ev)" by blast
  let ?r = "ref_of (event_channel ev)" and ?M = "missed - (ref_of \<circ> event_channel) ` set (drop (length (unread s)) (unread s'))"
  let ?seen = "override_on (objects s) listed missed"
  have k: "keyed (objects s)" "keyed listed" using channels_keyed [OF named_objects [OF assms(1)]] assms(3) by (simp_all add: follows_def)
  then have ks: "keyed ?seen" by (simp add: keyed_def override_on_def)
  have f: "mirrors scope ?seen (fold item_effect (unread s) items)" using assms(3) by (simp add: follows_def)
  have n: "named (event_channel ev)" using ev(3) k(1) by (cases ev) (auto simp: keyed_def)
  then have ns: "\<forall>e \<in> set (unread s'). named (event_channel e)" using assms(3) by (auto simp: follows_def ev(2))
  have same: "objects s' x = objects s x" if "x \<noteq> ?r" for x using that by (cases ev) (simp_all add: ev(1) put_def)
  have out: "?r \<notin> ?M"
    using assms(3) by (cases "in_scope scope (event_channel ev)") (auto simp: follows_def ev(2) in_scope_def)
  have m: "\<forall>x \<in> ?M. (scope = '''' \<or> nn_Namespace x = scope) \<and> listed x \<noteq> objects s' x"
  proof
    fix x
    assume x: "x \<in> ?M"
    then have "x \<in> missed" by (rule DiffD1)
    moreover have "objects s' x = objects s x" using same [of x] x out by (cases "x = ?r") simp_all
    ultimately show "(scope = '''' \<or> nn_Namespace x = scope) \<and> listed x \<noteq> objects s' x" using assms(3) by (simp add: follows_def)
  qed
  have "mirrors scope (override_on (objects s') listed ?M) (fold item_effect (unread s') items)"
  proof (cases "in_scope scope (event_channel ev)")
    case True
    have M: "?M = missed - {?r}" by (simp add: ev(2) True)
    have "override_on (objects s') listed ?M = event_effect ev ?seen" unfolding M
    proof
      fix x
      show "override_on (objects s') listed (missed - {?r}) x = event_effect ev ?seen x"
        by (cases "x = ?r"; cases ev) (simp_all add: ev(1) override_on_def put_def)
    qed
    then show ?thesis using mirrors_event [OF ks f n True] by (simp add: ev(2) True)
  next
    case False
    then have "override_on (objects s') listed ?M = ?seen(?r := objects s' ?r)"
      using out same by (auto simp: fun_eq_iff override_on_def ev(2))
    then show ?thesis using mirrors_outside [OF f False] by (simp add: ev(2) False)
  qed
  then show ?thesis using ns m k(2) by (simp add: follows_def)
qed (use assms(3) in \<open>simp add: follows_def\<close>)

end

section \<open>The fake client as a watched store\<close>

text \<open>Operations that write channels with names that an API server admits.\<close>

fun named_op :: "(patch_type \<Rightarrow> string \<Rightarrow> KafkaTopicChannel \<Rightarrow> go_error + KafkaTopicChannel) \<Rightarrow> api_op \<Rightarrow> bool" where
  "named_op applyPatch (OpCreate ns kc) \<longleftrightarrow> named (with_namespace ns kc)"
| "named_op applyPatch (OpUpdate ns kc) \<longleftrightarrow> named (with_namespace ns kc)"
| "named_op applyPatch (OpUpdateStatus ns kc) \<longleftrightarrow> named (with_namespace ns kc)"
| "named_op applyPatch (OpPatch ns name pt data subs) \<longleftrightarrow> (\<forall>old kc. applyPatch pt data old = Inr kc \<longrightarrow> named (with_namespace ns kc))"
| "named_op applyPatch _ \<longleftrightarrow> True"

definition watcher_of :: "nat \<Rightarrow> fake \<Rightarrow> watcher" where
  "watcher_of w c = tr_watchers (fk_tracker c) ! w"

definition watched_by :: "(NamespacedName set \<Rightarrow> NamespacedName list) \<Rightarrow> (patch_type \<Rightarrow> string \<Rightarrow> KafkaTopicChannel \<Rightarrow> go_error + KafkaTopicChannel) \<Rightarrow>
    nat \<Rightarrow> string \<Rightarrow> fake \<Rightarrow> bool" where
  "watched_by ord applyPatch w ns c \<longleftrightarrow> go_range ord \<and> clean ord applyPatch c \<and> channels_ok (tr_objects (fk_tracker c)) \<and>
     w < length (tr_watchers (fk_tracker c)) \<and> fw_ns (watcher_of w c) = ns \<and> \<not> fw_Stopped (watcher_of w c)"

text \<open>The reader of a watcher takes the first event from its channel.\<close>

definition receive_event :: "nat \<Rightarrow> fake \<Rightarrow> fake" where
  "receive_event w c = c\<lparr>fk_tracker := (fk_tracker c)\<lparr>tr_watchers :=
     (tr_watchers (fk_tracker c))[w := (watcher_of w c)\<lparr>fw_result := tl (fw_result (watcher_of w c))\<rparr>]\<rparr>\<rparr>"

text \<open>What may happen around the reader of a watcher, if there is one yet: operations, new watchers, and the readers of other ones.\<close>

inductive fake_change ::
  "(patch_type \<Rightarrow> string \<Rightarrow> KafkaTopicChannel \<Rightarrow> go_error + KafkaTopicChannel) \<Rightarrow> KafkaTopicChannel \<Rightarrow> (string \<Rightarrow> selector option) \<Rightarrow>
   (string \<Rightarrow> bool) \<Rightarrow> nat option \<Rightarrow> fake \<Rightarrow> fake \<Rightarrow> bool" for applyPatch zero parse fieldOk w where
  operation: "named_op applyPatch op \<Longrightarrow> run_op zero parse fieldOk op c = Returns (c', r) \<Longrightarrow> fake_change applyPatch zero parse fieldOk w c c'"
| watch: "fake_Watch parse fieldOk ns opts c = Returns (c', v) \<Longrightarrow> fake_change applyPatch zero parse fieldOk w c c'"
| other_reader: "Some v \<noteq> w \<Longrightarrow> fake_change applyPatch zero parse fieldOk w c (receive_event v c)"

text \<open>One event, sent to the watchers of its namespace.\<close>

definition sends :: "watch_event \<Rightarrow> tracker \<Rightarrow> tracker \<Rightarrow> bool" where
  "sends ev t t' \<longleftrightarrow> notify (kc_Namespace (event_channel ev)) ev (tr_watchers t) = Returns (tr_watchers t') \<and>
     tr_objects t' = event_effect ev (tr_objects t) \<and>
     (case ev of Deleted kc \<Rightarrow> tr_objects t (ref_of kc) = Some kc | _ \<Rightarrow> named (event_channel ev))"

lemma tracker_add_sends:
  assumes "tracker_add kc ns existing t = Returns (t', e)" "named (with_namespace ns kc)"
  shows "t' = t \<or> (\<exists>ev. sends ev t t')"
proof (cases "t' = t")
  case False
  let ?ev = "if existing then Modified (with_namespace ns kc) else Added (with_namespace ns kc)"
  have "sends ?ev t t'" using assms False
    by (auto simp: tracker_add_def Let_def sends_def put_def split: if_splits outcome.splits simp del: with_namespace_simps)
  then show ?thesis by blast
qed simp

lemma read_back_tracker:
  "read_back ns name r = Returns (t', h, x, e) \<Longrightarrow> \<exists>e'. r = Returns (t', e')"
  by (auto simp: read_back_def split: outcome.splits option.splits)

lemma read_back_sends:
  assumes "read_back ns name (tracker_add kc ns existing t) = Returns (t', h, x, e)" "named (with_namespace ns kc)"
  shows "t' = t \<or> (\<exists>ev. sends ev t t')"
  using read_back_tracker [OF assms(1)] tracker_add_sends [OF _ assms(2)] by blast

lemma patch_tracker:
  "patch_reaction applyPatch ns name pt data t = Returns (t', h, x, e) \<Longrightarrow>
     t' = t \<or> (\<exists>old kc e'. applyPatch pt data old = Inr kc \<and> tracker_add kc ns True t = Returns (t', e'))"
  by (auto simp: patch_reaction_def tracker_Update_def split: sum.splits patch_type.splits outcome.splits option.splits prod.splits)

lemma reaction_sends:
  assumes "ObjectReaction ord applyPatch (action_of op) t = Returns (t', h, x, e)" "named_op applyPatch op" "objects_ok (tr_objects t)"
  shows "t' = t \<or> (\<exists>ev. sends ev t t')"
proof (cases op)
  case (OpDelete ns name)
  show ?thesis
  proof (cases "tr_objects t \<lparr>nn_Namespace = ns, nn_Name = name\<rparr>")
    case (Some kc)
    then have "ref_of kc = \<lparr>nn_Namespace = ns, nn_Name = name\<rparr>" using assms(3) by (simp add: objects_ok_def)
    then have "sends (Deleted kc) t t'" using assms(1) OpDelete Some by (auto simp: tracker_Delete_def sends_def split: outcome.splits)
    then show ?thesis by blast
  qed (use assms(1) OpDelete in \<open>auto simp: tracker_Delete_def\<close>)
next
  case (OpCreate ns kc)
  then show ?thesis using assms(1,2) read_back_sends [of ns "kc_Name kc" kc False t t' h x e] by (simp add: tracker_Create_def)
next
  case (OpUpdate ns kc)
  then show ?thesis using assms(1,2) read_back_sends [of ns "kc_Name kc" kc True t t' h x e] by (simp add: tracker_Update_def)
next
  case (OpUpdateStatus ns kc)
  then show ?thesis using assms(1,2) read_back_sends [of ns "kc_Name kc" kc True t t' h x e] by (simp add: tracker_Update_def)
next
  case (OpPatch ns name pt data subs)
  then have "patch_reaction applyPatch ns name pt data t = Returns (t', h, x, e)" using assms(1) by simp
  from patch_tracker [OF this] show ?thesis using assms(2) OpPatch tracker_add_sends by (metis named_op.simps(4))
qed (use assms(1) in auto)

lemma Invokes_tracker:
  "clean ord applyPatch c \<Longrightarrow> Invokes a obj c = Returns (c', x) \<Longrightarrow> \<exists>h y. ObjectReaction ord applyPatch a (fk_tracker c) = Returns (fk_tracker c', h, y)"
  by (auto simp: Invokes_clean split: outcome.splits prod.splits)

lemma as_channel_Returns: "as_channel r = Returns (c', x) \<Longrightarrow> \<exists>y. r = Returns (c', y)"
  by (auto simp: as_channel_def split: outcome.splits prod.splits option.splits robject.splits)

lemma run_op_tracker:
  assumes "clean ord applyPatch c" "run_op zero parse fieldOk op c = Returns (c', r)"
  shows "\<exists>h x e. ObjectReaction ord applyPatch (action_of op) (fk_tracker c) = Returns (fk_tracker c', h, x, e)"
proof -
  have "\<exists>obj y. Invokes (action_of op) obj c = Returns (c', y)"
  proof (cases op)
    case (OpList ns opts)
    then show ?thesis using assms(2)
      by (auto simp: to_list_def fake_List_def split: outcome.splits prod.splits option.splits robject.splits)
  qed (use assms(2) in \<open>auto simp: to_object_def to_error_def only_error_def fake_Get_def fake_Create_def fake_Update_def fake_UpdateStatus_def
      fake_Delete_def fake_DeleteCollection_def fake_Patch_def dest!: as_channel_Returns split: outcome.splits prod.splits\<close>)
  then show ?thesis using Invokes_tracker [OF assms(1)] by fastforce
qed

lemma notify_watcher:
  assumes "notify ns ev ws = Returns ws'" "w < length ws"
  shows "length ws' = length ws \<and>
    ws' ! w = (if watches ns (ws ! w) \<and> \<not> fw_Stopped (ws ! w) then (ws ! w)\<lparr>fw_result := fw_result (ws ! w) @ [ev]\<rparr> else ws ! w)"
  using assms
proof (induction ws arbitrary: ws' w)
  case (Cons v ws)
  then obtain v1 ws1 where 1: "(if watches ns v then send ev v else Returns v) = Returns v1" "notify ns ev ws = Returns ws1" "ws' = v1 # ws1"
    by (auto split: outcome.splits if_splits)
  have "length ws1 = length ws" using Cons.IH [OF 1(2)] 1(2) by (cases ws) auto
  then show ?case using 1 Cons.IH [OF 1(2)] Cons.prems(2) by (cases w) (auto simp: send_def split: if_splits)
qed simp

lemma remove_ok: "objects_ok m \<Longrightarrow> objects_ok (m(k := None))"
  unfolding objects_ok_def by (auto split: if_splits)

lemma effect_ok:
  assumes "channels_ok m" "case ev of Deleted kc \<Rightarrow> m (ref_of kc) = Some kc | _ \<Rightarrow> named (event_channel ev)"
  shows "channels_ok (event_effect ev m)"
proof -
  have "objects_ok (event_effect ev m)" using assms(1) by (cases ev) (simp_all add: channels_ok_def put_ok remove_ok)
  moreover have "named kc" if "event_effect ev m k = Some kc" for k kc
    using that assms by (cases ev) (auto simp: channels_ok_def ran_def put_def split: if_splits)
  ultimately show ?thesis by (auto simp: channels_ok_def ran_def)
qed

lemma operation_event:
  assumes "watched_by ord applyPatch w ns c" "named_op applyPatch op" "run_op zero parse fieldOk op c = Returns (c', r)"
  shows "watched_by ord applyPatch w ns c' \<and>
    (tr_objects (fk_tracker c') = tr_objects (fk_tracker c) \<and> fw_result (watcher_of w c') = fw_result (watcher_of w c) \<or>
     (\<exists>ev. tr_objects (fk_tracker c') = event_effect ev (tr_objects (fk_tracker c)) \<and>
        fw_result (watcher_of w c') = fw_result (watcher_of w c) @ (if in_scope ns (event_channel ev) then [ev] else []) \<and>
        (case ev of Deleted kc \<Rightarrow> tr_objects (fk_tracker c) (ref_of kc) = Some kc | _ \<Rightarrow> named (event_channel ev))))"
proof -
  have c: "go_range ord" "clean ord applyPatch c" "channels_ok (tr_objects (fk_tracker c))" "w < length (tr_watchers (fk_tracker c))"
    "fw_ns (watcher_of w c) = ns" "\<not> fw_Stopped (watcher_of w c)" using assms(1) by (auto simp: watched_by_def)
  have c': "clean ord applyPatch c'" using run_op_refines [OF c(2,1) assms(3)] by blast
  obtain h x e where "ObjectReaction ord applyPatch (action_of op) (fk_tracker c) = Returns (fk_tracker c', h, x, e)"
    using run_op_tracker [OF c(2) assms(3)] by blast
  from reaction_sends [OF this assms(2)] c(3) consider "fk_tracker c' = fk_tracker c" | ev where "sends ev (fk_tracker c) (fk_tracker c')"
    by (auto simp: channels_ok_def)
  then show ?thesis
  proof cases
    case 1
    then show ?thesis using c c' by (simp add: watched_by_def watcher_of_def)
  next
    case (2 ev)
    let ?n = "kc_Namespace (event_channel ev)"
    have n: "notify ?n ev (tr_watchers (fk_tracker c)) = Returns (tr_watchers (fk_tracker c'))" using 2 by (simp add: sends_def)
    have v: "watcher_of w c' = (if in_scope ns (event_channel ev) then (watcher_of w c)\<lparr>fw_result := fw_result (watcher_of w c) @ [ev]\<rparr> else watcher_of w c)"
      "length (tr_watchers (fk_tracker c')) = length (tr_watchers (fk_tracker c))"
      using notify_watcher [OF n c(4)] c(5,6) by (auto simp: watcher_of_def watches_def in_scope_def)
    have k: "case ev of Deleted kc \<Rightarrow> tr_objects (fk_tracker c) (ref_of kc) = Some kc | _ \<Rightarrow> named (event_channel ev)"
      "tr_objects (fk_tracker c') = event_effect ev (tr_objects (fk_tracker c))" using 2 by (simp_all add: sends_def)
    have "watched_by ord applyPatch w ns c'" using c c' v effect_ok [OF c(3) k(1)] k(2) by (simp add: watched_by_def)
    then show ?thesis using v k by auto
  qed
qed

lemma quiet_change:
  assumes "watched_by ord applyPatch w ns c" "fk_ReactionChain c' = fk_ReactionChain c" "tr_objects (fk_tracker c') = tr_objects (fk_tracker c)"
    and "w < length (tr_watchers (fk_tracker c'))" "watcher_of w c' = watcher_of w c"
  shows "watched_by ord applyPatch w ns c'"
  using assms by (simp add: watched_by_def clean_def)

lemma change_event:
  assumes "watched_by ord applyPatch w ns c" "fake_change applyPatch zero parse fieldOk (Some w) c c'"
  shows "watched_by ord applyPatch w ns c' \<and>
    (tr_objects (fk_tracker c') = tr_objects (fk_tracker c) \<and> fw_result (watcher_of w c') = fw_result (watcher_of w c) \<or>
     (\<exists>ev. tr_objects (fk_tracker c') = event_effect ev (tr_objects (fk_tracker c)) \<and>
        fw_result (watcher_of w c') = fw_result (watcher_of w c) @ (if in_scope ns (event_channel ev) then [ev] else []) \<and>
        (case ev of Deleted kc \<Rightarrow> tr_objects (fk_tracker c) (ref_of kc) = Some kc | _ \<Rightarrow> named (event_channel ev))))"
  using assms(2)
proof cases
  case (operation op r)
  then show ?thesis using operation_event [OF assms(1)] by blast
next
  case (watch n opts v)
  then have t: "fk_tracker c' = fst (tracker_Watch n (fk_tracker c))" "fk_ReactionChain c' = fk_ReactionChain c"
    by (auto simp: fake_Watch_def tracker_Watch_def split: outcome.splits)
  moreover have "w < length (tr_watchers (fk_tracker c))" using assms(1) by (simp add: watched_by_def)
  ultimately have "watcher_of w c' = watcher_of w c" "w < length (tr_watchers (fk_tracker c'))" "tr_objects (fk_tracker c') = tr_objects (fk_tracker c)"
    by (simp_all add: watcher_of_def tracker_Watch_def nth_append)
  then show ?thesis using quiet_change [OF assms(1) t(2)] by simp
next
  case (other_reader v)
  then have "watcher_of w c' = watcher_of w c" by (simp add: receive_event_def watcher_of_def)
  moreover have "w < length (tr_watchers (fk_tracker c'))" using assms(1) other_reader by (simp add: watched_by_def receive_event_def)
  ultimately show ?thesis using quiet_change [OF assms(1)] other_reader by (simp add: receive_event_def)
qed

interpretation fake_store: watched_store "\<lambda>c. tr_objects (fk_tracker c)" "\<lambda>c. fw_result (watcher_of w c)" ns
    "watched_by ord applyPatch w ns" "fake_change applyPatch zero parse fieldOk (Some w)"
  for w ns ord applyPatch zero parse fieldOk
proof
  show "watched_by ord applyPatch w ns c \<Longrightarrow> channels_ok (tr_objects (fk_tracker c))" for c by (simp add: watched_by_def)
qed (use change_event in blast)+

section \<open>The informer's run\<close>

text \<open>
  The reflector lists (\<open>Fetched\<close>), puts the list into the queue (\<open>Listed\<close>), then starts its watch and reads it. Changes
  of the fake, and the goroutine that pops the queue, interleave with these steps in any order.
\<close>

datatype reflector_phase = Starting | Fetched "KafkaTopicChannel list" | Listed | Watching nat

record reflector =
  rf_phase :: reflector_phase
  rf_fifo :: DeltaFIFO
  rf_ix :: indexer

fun reader :: "reflector_phase \<Rightarrow> nat option" where
  "reader (Watching w) = Some w"
| "reader _ = None"

definition unread_by :: "reflector_phase \<Rightarrow> fake \<Rightarrow> watch_event list" where
  "unread_by ph c = (case reader ph of None \<Rightarrow> [] | Some w \<Rightarrow> fw_result (watcher_of w c))"

text \<open>Two history variables: the channels when the reflector listed them, and the names whose change it has missed and not heard of since.\<close>

definition still_missed :: "reflector_phase \<Rightarrow> fake \<Rightarrow> fake \<Rightarrow> NamespacedName set \<Rightarrow> NamespacedName set" where
  "still_missed ph c c' missed = missed - (ref_of \<circ> event_channel) ` set (drop (length (unread_by ph c)) (unread_by ph c'))"

inductive informing ::
  "(NamespacedName set \<Rightarrow> NamespacedName list) \<Rightarrow> (string set \<Rightarrow> string list) \<Rightarrow>
   (patch_type \<Rightarrow> string \<Rightarrow> KafkaTopicChannel \<Rightarrow> go_error + KafkaTopicChannel) \<Rightarrow>
   KafkaTopicChannel \<Rightarrow> (string \<Rightarrow> selector option) \<Rightarrow> (string \<Rightarrow> bool) \<Rightarrow> string \<Rightarrow> channels \<Rightarrow> NamespacedName set \<Rightarrow> fake \<Rightarrow> reflector \<Rightarrow> bool"
  for ord rng applyPatch zero parse fieldOk ns where
  start: "NewSimpleClientset ord applyPatch objects = Returns c \<Longrightarrow> \<forall>kc \<in> set (concat (map items_of objects)). named kc \<Longrightarrow>
    informing ord rng applyPatch zero parse fieldOk ns Map.empty {} c \<lparr>rf_phase = Starting, rf_fifo = NewDeltaFIFO, rf_ix = new_indexer\<rparr>"
| change: "informing ord rng applyPatch zero parse fieldOk ns listed missed c r \<Longrightarrow>
    fake_change applyPatch zero parse fieldOk (reader (rf_phase r)) c c' \<Longrightarrow>
    informing ord rng applyPatch zero parse fieldOk ns listed (still_missed (rf_phase r) c c' missed) c' r"
| list: "informing ord rng applyPatch zero parse fieldOk ns listed missed c r \<Longrightarrow> rf_phase r = Starting \<Longrightarrow>
    parse (lopt_LabelSelector opts) = Some sel \<Longrightarrow> \<forall>labels. sel_Matches sel labels \<Longrightarrow>
    fake_List parse fieldOk ns opts c = Returns (c', Some kcs, None) \<Longrightarrow>
    informing ord rng applyPatch zero parse fieldOk ns (tr_objects (fk_tracker c)) {} c' (r\<lparr>rf_phase := Fetched kcs\<rparr>)"
| syncWith: "informing ord rng applyPatch zero parse fieldOk ns listed missed c r \<Longrightarrow> rf_phase r = Fetched kcs \<Longrightarrow>
    informing ord rng applyPatch zero parse fieldOk ns listed missed c
      (r\<lparr>rf_phase := Listed, rf_fifo := fifo_Replace rng (rf_ix r) kcs (rf_fifo r)\<rparr>)"
| watch: "informing ord rng applyPatch zero parse fieldOk ns listed missed c r \<Longrightarrow> rf_phase r = Listed \<Longrightarrow>
    fake_Watch parse fieldOk ns opts c = Returns (c', w) \<Longrightarrow>
    informing ord rng applyPatch zero parse fieldOk ns listed
      {k. (ns = '''' \<or> nn_Namespace k = ns) \<and> listed k \<noteq> tr_objects (fk_tracker c) k} c' (r\<lparr>rf_phase := Watching w\<rparr>)"
| read: "informing ord rng applyPatch zero parse fieldOk ns listed missed c r \<Longrightarrow> rf_phase r = Watching w \<Longrightarrow>
    fw_result (watcher_of w c) = ev # rest \<Longrightarrow>
    informing ord rng applyPatch zero parse fieldOk ns listed missed (receive_event w c) (r\<lparr>rf_fifo := watchHandler (rf_ix r) ev (rf_fifo r)\<rparr>)"
| pop: "informing ord rng applyPatch zero parse fieldOk ns listed missed c r \<Longrightarrow> Pop (rf_fifo r) = Some (ds, f) \<Longrightarrow>
    informing ord rng applyPatch zero parse fieldOk ns listed missed c (r\<lparr>rf_fifo := f, rf_ix := HandleDeltas ds (rf_ix r)\<rparr>)"
| resync: "informing ord rng applyPatch zero parse fieldOk ns listed missed c r \<Longrightarrow> rf_phase r \<in> {Listed, Watching w} \<Longrightarrow>
    informing ord rng applyPatch zero parse fieldOk ns listed missed c (r\<lparr>rf_fifo := fifo_Resync rng (rf_ix r) (rf_fifo r)\<rparr>)"

subsection \<open>The tracker\<close>

definition tracker_ok :: "(NamespacedName set \<Rightarrow> NamespacedName list) \<Rightarrow> (patch_type \<Rightarrow> string \<Rightarrow> KafkaTopicChannel \<Rightarrow> go_error + KafkaTopicChannel) \<Rightarrow>
    fake \<Rightarrow> bool" where
  "tracker_ok ord applyPatch c \<longleftrightarrow> clean ord applyPatch c \<and> channels_ok (tr_objects (fk_tracker c))"

lemma fold_put_ran: "fold put kcs m k = Some kc \<Longrightarrow> m k = Some kc \<or> kc \<in> set kcs"
proof (induction kcs arbitrary: m)
  case (Cons a kcs)
  from Cons.IH [of "put a m"] Cons.prems show ?case by (auto simp: put_def split: if_splits)
qed simp

lemma start_ok:
  assumes "NewSimpleClientset ord applyPatch objects = Returns c" "\<forall>kc \<in> set (concat (map items_of objects)). named kc"
  shows "tracker_ok ord applyPatch c"
proof -
  have cl: "clean ord applyPatch c" using NewSimpleClientset_clean [OF assms(1)] by blast
  have "tr_objects (fk_tracker c) = fold put (concat (map items_of objects)) Map.empty"
    using assms(1) by (auto simp: NewSimpleClientset_spec Let_def split: if_splits)
  then have "named kc" if "tr_objects (fk_tracker c) k = Some kc" for k kc
    using that assms(2) fold_put_ran [of "concat (map items_of objects)" Map.empty k kc] by auto
  then show ?thesis using cl by (auto simp: tracker_ok_def channels_ok_def clean_def ran_def)
qed

lemma Watch_spec:
  assumes "fake_Watch parse fieldOk ns opts c = Returns (c', w)"
  shows "fk_tracker c' = fst (tracker_Watch ns (fk_tracker c))" "w = length (tr_watchers (fk_tracker c))" "fk_ReactionChain c' = fk_ReactionChain c"
  using assms by (auto simp: fake_Watch_def tracker_Watch_def split: outcome.splits)

lemma change_ok:
  assumes "go_range ord" "tracker_ok ord applyPatch c" "fake_change applyPatch zero parse fieldOk w c c'"
  shows "tracker_ok ord applyPatch c'"
  using assms(3)
proof cases
  case (operation op r)
  have ok: "clean ord applyPatch c" "channels_ok (tr_objects (fk_tracker c))" using assms(2) by (simp_all add: tracker_ok_def)
  have cl: "clean ord applyPatch c'" using run_op_refines [OF ok(1) assms(1) operation(2)] by blast
  obtain h x e where "ObjectReaction ord applyPatch (action_of op) (fk_tracker c) = Returns (fk_tracker c', h, x, e)"
    using run_op_tracker [OF ok(1) operation(2)] by blast
  from reaction_sends [OF this operation(1)] ok(2) consider "fk_tracker c' = fk_tracker c" | ev where "sends ev (fk_tracker c) (fk_tracker c')"
    by (auto simp: channels_ok_def)
  then show ?thesis using cl ok effect_ok by cases (auto simp: tracker_ok_def sends_def)
next
  case (watch n opts v)
  then show ?thesis using assms(2) Watch_spec [OF watch] by (simp add: tracker_ok_def clean_def tracker_Watch_def)
next
  case (other_reader v)
  then show ?thesis using assms(2) by (simp add: tracker_ok_def clean_def receive_event_def)
qed

lemma watched_tracker: "watched_by ord applyPatch w ns c \<Longrightarrow> tracker_ok ord applyPatch c"
  by (simp add: watched_by_def tracker_ok_def)

lemma spec_list_set:
  assumes "objects_ok m"
  shows "kc \<in> set (spec_list ns m) \<longleftrightarrow> m (ref_of kc) = Some kc \<and> in_scope ns kc"
proof -
  let ?S = "{k \<in> dom m. ns = '''' \<or> nn_Namespace k = ns}"
  have "finite ?S" using assms by (simp add: objects_ok_def)
  moreover have "\<lparr>nn_Namespace = nn_Namespace k, nn_Name = nn_Name k\<rparr> = k" for k :: NamespacedName by simp
  ultimately have "set (spec_list ns m) = (\<lambda>k. the (m k)) ` ?S" by (simp only: spec_list_def set_map sorted_list_of_set.set_sorted_key_list_of_set finite_imageI image_image prod.case)
  then have "kc \<in> set (spec_list ns m) \<longleftrightarrow> (\<exists>k. m k = Some kc \<and> (ns = '''' \<or> nn_Namespace k = ns))" by force
  also have "\<dots> \<longleftrightarrow> m (ref_of kc) = Some kc \<and> in_scope ns kc"
  proof
    assume "\<exists>k. m k = Some kc \<and> (ns = '''' \<or> nn_Namespace k = ns)"
    then obtain k where k: "m k = Some kc" "ns = '''' \<or> nn_Namespace k = ns" by blast
    moreover have "ref_of kc = k" using assms k(1) by (simp add: objects_ok_def)
    ultimately show "m (ref_of kc) = Some kc \<and> in_scope ns kc" by (auto simp: in_scope_def)
  qed (auto simp: in_scope_def intro!: exI [of _ "ref_of kc"])
  finally show ?thesis .
qed

lemma keyed_items:
  assumes "\<And>x y. x \<in> set kcs \<Longrightarrow> y \<in> set kcs \<Longrightarrow> MetaNamespaceKeyFunc x = MetaNamespaceKeyFunc y \<Longrightarrow> x = y"
  shows "fold (\<lambda>obj m. m(MetaNamespaceKeyFunc obj \<mapsto> obj)) kcs Map.empty key = Some x \<longleftrightarrow> x \<in> set kcs \<and> key = MetaNamespaceKeyFunc x"
  using assms
proof (induction kcs rule: rev_induct)
  case (snoc a kcs)
  have step: "fold (\<lambda>obj m. m(MetaNamespaceKeyFunc obj \<mapsto> obj)) (kcs @ [a]) Map.empty key =
      (if key = MetaNamespaceKeyFunc a then Some a else fold (\<lambda>obj m. m(MetaNamespaceKeyFunc obj \<mapsto> obj)) kcs Map.empty key)" by simp
  have ih: "fold (\<lambda>obj m. m(MetaNamespaceKeyFunc obj \<mapsto> obj)) kcs Map.empty key = Some x \<longleftrightarrow> x \<in> set kcs \<and> key = MetaNamespaceKeyFunc x"
    by (rule snoc.IH) (use snoc.prems in simp)
  show ?case
  proof (cases "key = MetaNamespaceKeyFunc a")
    case True
    then show ?thesis unfolding step if_P [OF True] using snoc.prems [of x a] by auto
  next
    case False
    then show ?thesis unfolding step if_not_P [OF False] ih by auto
  qed
qed simp

lemma spec_list_named: "channels_ok m \<Longrightarrow> \<forall>kc \<in> set (spec_list ns m). named kc"
  using spec_list_set [of m] by (auto simp: channels_ok_def ran_def)

lemma listed_mirrors:
  assumes "channels_ok m"
  shows "mirrors ns m (fold (\<lambda>obj m. m(MetaNamespaceKeyFunc obj \<mapsto> obj)) (spec_list ns m) Map.empty)"
proof -
  have o: "objects_ok m" using assms by (simp add: channels_ok_def)
  have inj: "x = y" if "x \<in> set (spec_list ns m)" "y \<in> set (spec_list ns m)" "MetaNamespaceKeyFunc x = MetaNamespaceKeyFunc y" for x y
  proof -
    have m: "m (ref_of x) = Some x" "m (ref_of y) = Some y" using that spec_list_set [OF o] by blast+
    then have r: "ref_of x = ref_of y" using key_eq that(3) keyedD(2) [OF channels_keyed [OF assms]] by blast
    from m(1) [unfolded r] m(2) show ?thesis by (rule option.inject [THEN iffD1, OF trans [OF sym]])
  qed
  have keyed: "fold (\<lambda>obj m. m(MetaNamespaceKeyFunc obj \<mapsto> obj)) (spec_list ns m) Map.empty key = Some x \<longleftrightarrow>
      x \<in> set (spec_list ns m) \<and> key = MetaNamespaceKeyFunc x" for key x by (rule keyed_items) (rule inj)
  show ?thesis unfolding mirrors_def
  proof (intro allI)
    fix key kc
    show "fold (\<lambda>obj m. m(MetaNamespaceKeyFunc obj \<mapsto> obj)) (spec_list ns m) Map.empty key = Some kc \<longleftrightarrow>
        m (ref_of kc) = Some kc \<and> in_scope ns kc \<and> key = MetaNamespaceKeyFunc kc"
      using keyed [of key kc] spec_list_set [OF o, of kc] by blast
  qed
qed

lemma clean_list:
  assumes "clean ord applyPatch c" "go_range ord" "parse (lopt_LabelSelector opts) = Some sel" "\<forall>labels. sel_Matches sel labels"
    and "fake_List parse fieldOk ns opts c = Returns (c1, Some kcs, e)"
  shows "kcs = spec_list ns (tr_objects (fk_tracker c))" "fk_tracker c1 = fk_tracker c" "fk_ReactionChain c1 = fk_ReactionChain c"
proof -
  have "objects_ok (tr_objects (fk_tracker c))" using assms(1) by (simp add: clean_def)
  note l = filterByNamespace_spec [OF this assms(2)]
  show "kcs = spec_list ns (tr_objects (fk_tracker c))" "fk_tracker c1 = fk_tracker c" "fk_ReactionChain c1 = fk_ReactionChain c"
    using assms(3-5) by (auto simp: fake_List_def ExtractFromListOptions_def Invokes_clean [OF assms(1)] tracker_List_def l split: if_splits)
qed

subsection \<open>The invariant of a run\<close>

fun phase_ok ::
  "(NamespacedName set \<Rightarrow> NamespacedName list) \<Rightarrow> (patch_type \<Rightarrow> string \<Rightarrow> KafkaTopicChannel \<Rightarrow> go_error + KafkaTopicChannel) \<Rightarrow> string \<Rightarrow>
   channels \<Rightarrow> NamespacedName set \<Rightarrow> fake \<Rightarrow> reflector_phase \<Rightarrow> DeltaFIFO \<Rightarrow> indexer \<Rightarrow> bool" where
  "phase_ok ord applyPatch ns listed missed c Starting f ix \<longleftrightarrow> f = NewDeltaFIFO \<and> ix = new_indexer"
| "phase_ok ord applyPatch ns listed missed c (Fetched kcs) f ix \<longleftrightarrow>
     f = NewDeltaFIFO \<and> ix = new_indexer \<and> channels_ok listed \<and> kcs = spec_list ns listed"
| "phase_ok ord applyPatch ns listed missed c Listed f ix \<longleftrightarrow> keyed listed \<and> mirrors ns listed (settle f ix)"
| "phase_ok ord applyPatch ns listed missed c (Watching w) f ix \<longleftrightarrow>
     watched_by ord applyPatch w ns c \<and> fake_store.follows w ns listed missed (settle f ix) c"

definition run_ok ::
  "(NamespacedName set \<Rightarrow> NamespacedName list) \<Rightarrow> (patch_type \<Rightarrow> string \<Rightarrow> KafkaTopicChannel \<Rightarrow> go_error + KafkaTopicChannel) \<Rightarrow> string \<Rightarrow>
   channels \<Rightarrow> NamespacedName set \<Rightarrow> fake \<Rightarrow> reflector \<Rightarrow> bool" where
  "run_ok ord applyPatch ns listed missed c r \<longleftrightarrow> tracker_ok ord applyPatch c \<and> fifo_ok (rf_fifo r) \<and> ix_inv (rf_ix r) \<and>
     phase_ok ord applyPatch ns listed missed c (rf_phase r) (rf_fifo r) (rf_ix r)"

lemma run_ok_change:
  assumes "go_range ord" "run_ok ord applyPatch ns listed missed c r" "fake_change applyPatch zero parse fieldOk (reader (rf_phase r)) c c'"
  shows "run_ok ord applyPatch ns listed (still_missed (rf_phase r) c c' missed) c' r"
proof -
  have "phase_ok ord applyPatch ns listed (still_missed (rf_phase r) c c' missed) c' (rf_phase r) (rf_fifo r) (rf_ix r)"
  proof (cases "rf_phase r")
    case (Watching w)
    then have w: "watched_by ord applyPatch w ns c" "fake_store.follows w ns listed missed (settle (rf_fifo r) (rf_ix r)) c"
      "fake_change applyPatch zero parse fieldOk (Some w) c c'" using assms(2,3) by (simp_all add: run_ok_def)
    from fake_store.change_follows [OF w(1,3,2)] fake_store.kept [OF w(1,3)] show ?thesis
      by (simp add: Watching still_missed_def unread_by_def)
  qed (use assms(2) in \<open>simp_all add: run_ok_def\<close>)
  then show ?thesis using assms(2) change_ok [OF assms(1) _ assms(3)] by (simp add: run_ok_def)
qed

lemma run_ok_watch:
  assumes "go_range ord" "run_ok ord applyPatch ns listed missed c r" "rf_phase r = Listed" "fake_Watch parse fieldOk ns opts c = Returns (c', w)"
  shows "run_ok ord applyPatch ns listed {k. (ns = '''' \<or> nn_Namespace k = ns) \<and> listed k \<noteq> tr_objects (fk_tracker c) k} c' (r\<lparr>rf_phase := Watching w\<rparr>)"
    (is "run_ok _ _ _ _ ?M _ _")
proof -
  note t = Watch_spec [OF assms(4)]
  have l: "tracker_ok ord applyPatch c" "keyed listed" "mirrors ns listed (settle (rf_fifo r) (rf_ix r))" using assms(2,3) by (simp_all add: run_ok_def)
  have o: "tr_objects (fk_tracker c') = tr_objects (fk_tracker c)" by (simp add: t tracker_Watch_def)
  have w: "watcher_of w c' = \<lparr>fw_ns = ns, fw_result = [], fw_Stopped = False\<rparr>" "w < length (tr_watchers (fk_tracker c'))"
    by (simp_all add: watcher_of_def t tracker_Watch_def)
  have k: "tracker_ok ord applyPatch c'" using l(1) o t by (simp add: tracker_ok_def clean_def)
  then have "watched_by ord applyPatch w ns c'" using assms(1) w by (simp add: watched_by_def tracker_ok_def)
  moreover have "override_on (tr_objects (fk_tracker c)) listed ?M (ref_of x) = Some x \<and> in_scope ns x \<longleftrightarrow> listed (ref_of x) = Some x \<and> in_scope ns x" for x
    by (auto simp: override_on_def in_scope_def)
  then have "mirrors ns (override_on (tr_objects (fk_tracker c)) listed ?M) (settle (rf_fifo r) (rf_ix r))"
    using l(3) by (simp only: mirrors_def simp_thms conj_assoc [symmetric])
  then have "fake_store.follows w ns listed ?M (settle (rf_fifo r) (rf_ix r)) c'"
    using l(2) by (simp add: fake_store.follows_def w o)
  ultimately show ?thesis using assms(2) k by (simp add: run_ok_def)
qed

lemma run_ok_read:
  assumes "run_ok ord applyPatch ns listed missed c r" "rf_phase r = Watching w" "fw_result (watcher_of w c) = ev # rest"
  shows "run_ok ord applyPatch ns listed missed (receive_event w c) (r\<lparr>rf_fifo := watchHandler (rf_ix r) ev (rf_fifo r)\<rparr>)"
proof -
  have p: "watched_by ord applyPatch w ns c" "fake_store.follows w ns listed missed (settle (rf_fifo r) (rf_ix r)) c" "fifo_ok (rf_fifo r)" "ix_inv (rf_ix r)"
    using assms(1,2) by (simp_all add: run_ok_def)
  then have "w < length (tr_watchers (fk_tracker c))" by (simp add: watched_by_def)
  then have v: "watcher_of w (receive_event w c) = (watcher_of w c)\<lparr>fw_result := rest\<rparr>" "tr_objects (fk_tracker (receive_event w c)) = tr_objects (fk_tracker c)"
    "length (tr_watchers (fk_tracker (receive_event w c))) = length (tr_watchers (fk_tracker c))" "fk_ReactionChain (receive_event w c) = fk_ReactionChain c"
    using assms(3) by (simp_all add: receive_event_def watcher_of_def)
  have w: "watched_by ord applyPatch w ns (receive_event w c)" using p(1) by (simp add: watched_by_def clean_def v)
  have "named (event_channel ev)" using p(2) assms(3) by (simp add: fake_store.follows_def)
  then have f: "fifo_ok (watchHandler (rf_ix r) ev (rf_fifo r))" using p(3) watchHandler_ok by blast
  have "fake_store.follows w ns listed missed (settle (watchHandler (rf_ix r) ev (rf_fifo r)) (rf_ix r)) (receive_event w c)"
    using p(2) assms(3) by (simp add: fake_store.follows_def v watchHandler_settle)
  then show ?thesis using w f p(4) watched_tracker [OF w] assms(2) by (simp add: run_ok_def)
qed

text \<open>A step that leaves the phase, the fake and what the queue comes to as they are.\<close>

lemma run_ok_queue:
  assumes "run_ok ord applyPatch ns listed missed c r" "settle f ix = settle (rf_fifo r) (rf_ix r)" "fifo_ok f" "ix_inv ix"
    and "\<forall>kcs. rf_phase r \<noteq> Starting \<and> rf_phase r \<noteq> Fetched kcs"
  shows "run_ok ord applyPatch ns listed missed c (r\<lparr>rf_fifo := f, rf_ix := ix\<rparr>)"
  using assms by (cases "rf_phase r") (simp_all add: run_ok_def)

lemma Pop_new: "Pop NewDeltaFIFO = None"
  by (simp add: Pop_def NewDeltaFIFO_def)

lemma informing_ok:
  assumes "go_range ord" "go_range rng" "informing ord rng applyPatch zero parse fieldOk ns listed missed c r"
  shows "run_ok ord applyPatch ns listed missed c r"
  using assms(3)
proof induction
  case (start objects c)
  then show ?case using start_ok by (simp add: run_ok_def fifo_ok_new ix_inv_new)
next
  case (change listed missed c r c')
  then show ?case using run_ok_change [OF assms(1)] by blast
next
  case (list listed missed c r opts sel c' kcs)
  have t: "clean ord applyPatch c" "channels_ok (tr_objects (fk_tracker c))" using list.IH by (simp_all add: run_ok_def tracker_ok_def)
  note l = clean_list [OF t(1) assms(1) list.hyps(3-5)]
  show ?case using list.IH list.hyps(2) t fifo_ok_new(1) ix_inv_new by (simp add: run_ok_def tracker_ok_def clean_def l)
next
  case (syncWith listed missed c r kcs)
  then have s: "tracker_ok ord applyPatch c" "rf_fifo r = NewDeltaFIFO" "rf_ix r = new_indexer" "channels_ok listed" "kcs = spec_list ns listed"
    by (simp_all add: run_ok_def)
  note n = fifo_Replace_new [OF assms(2) spec_list_named [OF s(4), of ns]]
  show ?case using s(1) n(1) listed_mirrors [OF s(4), of ns] channels_keyed [OF s(4)] by (simp add: run_ok_def s(2,3,5) n(2) ix_inv_new)
next
  case (watch listed missed c r opts c' w)
  then show ?case using run_ok_watch [OF assms(1)] by blast
next
  case (read listed missed c r w ev rest)
  then show ?case using run_ok_read by blast
next
  case (pop listed missed c r ds f)
  then have p: "fifo_ok (rf_fifo r)" "ix_inv (rf_ix r)" by (simp_all add: run_ok_def)
  note s = Pop_spec [OF pop.hyps(2) p(1)]
  have "\<forall>kcs. rf_phase r \<noteq> Starting \<and> rf_phase r \<noteq> Fetched kcs" using pop Pop_new by (auto simp: run_ok_def)
  then show ?case using run_ok_queue [OF pop.IH s(1,2)] HandleDeltas_inv [OF p(2) s(3)] by blast
next
  case (resync listed missed c r w)
  then have p: "fifo_ok (rf_fifo r)" "ix_inv (rf_ix r)" by (simp_all add: run_ok_def)
  have "\<forall>kcs. rf_phase r \<noteq> Starting \<and> rf_phase r \<noteq> Fetched kcs" using resync.hyps(2) by auto
  from run_ok_queue [OF resync.IH fifo_Resync_spec [OF p(2,1)] p(2) this] show ?case by (cases r) simp
qed

text \<open>Reading and popping alone bring an informer to a state in which nothing is left to do.\<close>

definition caught_up :: "nat \<Rightarrow> fake \<Rightarrow> reflector \<Rightarrow> bool" where
  "caught_up w c r \<longleftrightarrow> rf_phase r = Watching w \<and> fw_result (watcher_of w c) = [] \<and> Pop (rf_fifo r) = None"

lemma Pop_shorter: "Pop f = Some (ds, f') \<Longrightarrow> length (df_queue f') < length (df_queue f)"
proof -
  have "pop_loop items queue = Some (ds, f') \<Longrightarrow> length (df_queue f') < length queue" for items queue
    by (induction queue) (auto split: option.splits)
  then show "Pop f = Some (ds, f') \<Longrightarrow> length (df_queue f') < length (df_queue f)" by (simp add: Pop_def)
qed

lemma informing_pops:
  assumes "informing ord rng applyPatch zero parse fieldOk ns listed missed c r" "rf_phase r = Watching w" "fw_result (watcher_of w c) = []"
  shows "\<exists>r'. informing ord rng applyPatch zero parse fieldOk ns listed missed c r' \<and> caught_up w c r'"
  using assms
proof (induction "length (df_queue (rf_fifo r))" arbitrary: r rule: less_induct)
  case less
  show ?case
  proof (cases "Pop (rf_fifo r)")
    case None
    then show ?thesis using less.prems by (auto simp: caught_up_def)
  next
    case (Some x)
    then obtain ds f where p: "Pop (rf_fifo r) = Some (ds, f)" by (cases x) simp
    show ?thesis by (rule less.hyps [OF _ informing.pop [OF less.prems(1) p]]) (use less.prems Pop_shorter [OF p] in simp_all)
  qed
qed

lemma receive_event_watcher:
  "w < length (tr_watchers (fk_tracker c)) \<Longrightarrow> fw_result (watcher_of w c) = ev # rest \<Longrightarrow> fw_result (watcher_of w (receive_event w c)) = rest"
  "tr_objects (fk_tracker (receive_event w c)) = tr_objects (fk_tracker c)"
  by (simp_all add: receive_event_def watcher_of_def)

lemma informing_catches_up:
  assumes "go_range ord" "go_range rng" "informing ord rng applyPatch zero parse fieldOk ns listed missed c r" "rf_phase r = Watching w"
  shows "\<exists>c' r'. informing ord rng applyPatch zero parse fieldOk ns listed missed c' r' \<and> caught_up w c' r' \<and>
    tr_objects (fk_tracker c') = tr_objects (fk_tracker c)"
  using assms(3,4)
proof (induction "fw_result (watcher_of w c)" arbitrary: c r)
  case Nil
  then show ?case using informing_pops [OF Nil.prems] by auto
next
  case (Cons ev rest)
  have "w < length (tr_watchers (fk_tracker c))" using informing_ok [OF assms(1,2) Cons.prems(1)] Cons.prems(2) by (simp add: run_ok_def watched_by_def)
  note v = receive_event_watcher(1) [OF this Cons.hyps(2) [symmetric]]
  have "\<exists>c' r'. informing ord rng applyPatch zero parse fieldOk ns listed missed c' r' \<and> caught_up w c' r' \<and>
      tr_objects (fk_tracker c') = tr_objects (fk_tracker (receive_event w c))"
    by (rule Cons.hyps(1) [OF _ informing.read [OF Cons.prems Cons.hyps(2) [symmetric]]]) (simp_all add: v Cons.prems(2))
  then show ?case by (simp add: receive_event_watcher(2))
qed

section \<open>Main property\<close>

text \<open>
  C27: How far the cache of an informer on the fake client follows the tracker. An informer lists, queues the list and
  starts its watch in separate steps; operations, other watchers, resynchronisations, its own reading and the handling
  of its queue interleave with them in any order. Once it watches, the unread events and the queued deltas are what its
  cache needs to hold exactly the tracker's channels in its scope, but for the names whose channel changed
  between the list and the watch: the watch of the fake client ignores the resource version of the list and does not
  replay these changes, so for such a name the informer goes by its list until the next event about the name.
  Reading and popping alone reach a state with nothing left to do, with the tracker as it was. In such a state the lister finds
  under every other name exactly the tracker's channel, and under a missed name the listed one, which is not the
  tracker's; if no name was missed, it lists the channels that the fake client lists.
\<close>

theorem cache_follows_tracker:
  assumes "go_range ord" "go_range rng" "informing ord rng applyPatch zero parse fieldOk ns listed missed c r" "rf_phase r = Watching w"
  shows "mirrors ns (override_on (tr_objects (fk_tracker c)) listed missed)
      (fold item_effect (fw_result (watcher_of w c)) (settle (rf_fifo r) (rf_ix r))) \<and>
    (\<exists>c' r'. informing ord rng applyPatch zero parse fieldOk ns listed missed c' r' \<and> caught_up w c' r' \<and>
       tr_objects (fk_tracker c') = tr_objects (fk_tracker c)) \<and>
    (caught_up w c r \<longrightarrow>
       (\<forall>n name k. CHR ''/'' \<notin> set n \<longrightarrow> ns = '''' \<or> n = ns \<longrightarrow> k = \<lparr>nn_Namespace = n, nn_Name = name\<rparr> \<longrightarrow>
          namespace_Get n name (rf_ix r) =
            (case if k \<in> missed then listed k else tr_objects (fk_tracker c) k of None \<Rightarrow> Inl (ApiNotFound name) | Some kc \<Rightarrow> Inr kc)) \<and>
       (\<forall>k \<in> missed. listed k \<noteq> tr_objects (fk_tracker c) k) \<and>
       (missed = {} \<longrightarrow> set (store_List rng (rf_ix r)) = set (tracker_List ord ns (fk_tracker c))))"
proof -
  let ?m = "tr_objects (fk_tracker c)" and ?seen = "override_on (tr_objects (fk_tracker c)) listed missed"
  have i: "watched_by ord applyPatch w ns c" "fake_store.follows w ns listed missed (settle (rf_fifo r) (rf_ix r)) c" "fifo_ok (rf_fifo r)" "ix_inv (rf_ix r)"
    using informing_ok [OF assms(1-3)] assms(4) by (simp_all add: run_ok_def)
  have f: "mirrors ns ?seen (fold item_effect (fw_result (watcher_of w c)) (settle (rf_fifo r) (rf_ix r)))" "keyed listed" "\<forall>k \<in> missed. listed k \<noteq> ?m k"
    using i(2) by (simp_all add: fake_store.follows_def)
  have ok: "channels_ok ?m" using i(1) by (simp add: watched_by_def)
  then have "keyed ?seen" using f(2) channels_keyed by (simp add: keyed_def override_on_def)
  note get = mirrors_Get [OF this i(4)]
  have items: "mirrors ns ?seen (ix_items (rf_ix r))" if "caught_up w c r"
    using that f(1) Pop_None [OF i(3)] by (simp add: caught_up_def)
  have "set (store_List rng (rf_ix r)) = set (tracker_List ord ns (fk_tracker c))" if "caught_up w c r" "missed = {}"
  proof -
    have o: "objects_ok ?m" using ok by (simp add: channels_ok_def)
    have "kc \<in> ran (ix_items (rf_ix r)) \<longleftrightarrow> kc \<in> set (spec_list ns ?m)" for kc
      using items [OF that(1)] that(2) spec_list_set [OF o] by (auto simp: mirrors_def ran_def)
    then show ?thesis unfolding store_List_set(1) [OF i(4) assms(2)] tracker_List_def filterByNamespace_spec [OF o assms(1)] by blast
  qed
  moreover have "namespace_Get n name (rf_ix r) =
      (case if k \<in> missed then listed k else ?m k of None \<Rightarrow> Inl (ApiNotFound name) | Some kc \<Rightarrow> Inr kc)"
    if "caught_up w c r" "CHR ''/'' \<notin> set n" "ns = '''' \<or> n = ns" "k = \<lparr>nn_Namespace = n, nn_Name = name\<rparr>" for n name k
    using get [OF items [OF that(1)] that(2,3), of name] that(4) by (simp add: override_on_def)
  ultimately show ?thesis using f informing_catches_up [OF assms] by blast
qed

text \<open>An informer on an empty fake: one channel is created between its list and its watch, another one after that.\<close>

definition everything :: selector where
  "everything = \<lparr>sel_Empty = True, sel_Matches = \<lambda>_. True\<rparr>"

definition sample_fake :: "action list \<Rightarrow> channels \<Rightarrow> watcher list \<Rightarrow> fake" where
  "sample_fake acts m ws =
     \<lparr>fk_actions = acts, fk_ReactionChain = [\<lparr>rx_Verb = ''*'', rx_Resource = ''*'', rx_Reaction = ObjectReaction sorted_list_of_set (\<lambda>_ _ kc. Inr kc)\<rparr>],
      fk_tracker = \<lparr>tr_objects = m, tr_watchers = ws\<rparr>\<rparr>"

definition sample_named :: "string \<Rightarrow> KafkaTopicChannel" where
  "sample_named name = (sample_channel 1 [])\<lparr>kc_Meta := (kc_Meta (sample_channel 1 []))\<lparr>om_Name := name\<rparr>\<rparr>"

abbreviation sample_informing :: "channels \<Rightarrow> NamespacedName set \<Rightarrow> fake \<Rightarrow> reflector \<Rightarrow> bool" where
  "sample_informing \<equiv> informing sorted_list_of_set sorted_list_of_set (\<lambda>_ _ kc. Inr kc) (sample_channel 1 []) (\<lambda>_. Some everything) (\<lambda>_. True) ''ns''"

lemma sample_create:
  assumes "named (sample_named name)" "m \<lparr>nn_Namespace = ''ns'', nn_Name = name\<rparr> = None" "notify ''ns'' (Added (sample_named name)) ws = Returns ws'"
  shows "fake_change (\<lambda>_ _ kc. Inr kc) (sample_channel 1 []) (\<lambda>_. Some everything) (\<lambda>_. True) w
      (sample_fake acts m ws) (sample_fake (acts @ [CreateAction ''ns'' (sample_named name)]) (m(\<lparr>nn_Namespace = ''ns'', nn_Name = name\<rparr> \<mapsto> sample_named name)) ws')"
proof -
  have n: "with_namespace ''ns'' (sample_named name) = sample_named name" "ref_of (sample_named name) = \<lparr>nn_Namespace = ''ns'', nn_Name = name\<rparr>"
    "kc_Name (sample_named name) = name" by (simp_all add: sample_named_def with_namespace_def sample_defs)
  show ?thesis
    by (rule fake_change.operation [where op = "OpCreate ''ns'' (sample_named name)" and r = "ObjectResult (Some (sample_named name)) None"])
      (use assms n in \<open>simp_all add: to_object_def fake_Create_def as_channel_def Invokes_def Handles_def sample_fake_def
        tracker_Create_def tracker_add_def Let_def read_back_def get_reply_def tracker_Get_def del: with_namespace_simps\<close>)
qed

lemma sample_run:
  "\<exists>acts r. rf_phase r = Watching 0 \<and> sample_informing Map.empty {\<lparr>nn_Namespace = ''ns'', nn_Name = ''a''\<rparr>}
     (sample_fake acts [\<lparr>nn_Namespace = ''ns'', nn_Name = ''a''\<rparr> \<mapsto> sample_named ''a'', \<lparr>nn_Namespace = ''ns'', nn_Name = ''b''\<rparr> \<mapsto> sample_named ''b'']
       [\<lparr>fw_ns = ''ns'', fw_result = [Added (sample_named ''b'')], fw_Stopped = False\<rparr>]) r"
proof -
  let ?opts = "\<lparr>lopt_LabelSelector = '''', lopt_FieldSelector = ''''\<rparr>"
  let ?r = "\<lparr>rf_phase = Starting, rf_fifo = NewDeltaFIFO, rf_ix = new_indexer\<rparr>"
  let ?w = "\<lparr>fw_ns = ''ns'', fw_result = [], fw_Stopped = False\<rparr>"
  let ?a = "\<lparr>nn_Namespace = ''ns'', nn_Name = ''a''\<rparr>" and ?b = "\<lparr>nn_Namespace = ''ns'', nn_Name = ''b''\<rparr>"
  let ?acts = "[ListAction ''ns'' ?opts, CreateAction ''ns'' (sample_named ''a'')]"
  have ab: "named (sample_named ''a'')" "named (sample_named ''b'')" by (simp_all add: named_def sample_named_def sample_defs)
  have "sample_informing Map.empty {} (sample_fake [] Map.empty []) ?r"
    by (rule informing.start [of _ _ "[]"]) (simp_all add: NewSimpleClientset_spec sample_fake_def)
  then have l: "sample_informing Map.empty {} (sample_fake [ListAction ''ns'' ?opts] Map.empty []) (?r\<lparr>rf_phase := Fetched []\<rparr>)"
    using informing.list [of _ _ _ _ "\<lambda>_. Some everything" "\<lambda>_. True" "''ns''" _ _ "sample_fake [] Map.empty []" ?r ?opts everything
        "sample_fake [ListAction ''ns'' ?opts] Map.empty []" "[]"]
    by (simp add: everything_def fake_List_def ExtractFromListOptions_def Invokes_def Handles_def tracker_List_def filterByNamespace_def sample_fake_def)
  obtain r1 where r1: "sample_informing Map.empty {} (sample_fake [ListAction ''ns'' ?opts] Map.empty []) r1" "rf_phase r1 = Listed"
    by (rule that [OF informing.syncWith [OF l]]) simp_all
  have "fake_change (\<lambda>_ _ kc. Inr kc) (sample_channel 1 []) (\<lambda>_. Some everything) (\<lambda>_. True) (reader (rf_phase r1))
      (sample_fake [ListAction ''ns'' ?opts] Map.empty []) (sample_fake ?acts [?a \<mapsto> sample_named ''a''] [])"
    using sample_create [OF ab(1), of Map.empty "[]" "[]" _ "[ListAction ''ns'' ?opts]"] by simp
  from informing.change [OF r1(1) this] have r2: "sample_informing Map.empty {} (sample_fake ?acts [?a \<mapsto> sample_named ''a''] []) r1"
    by (simp add: still_missed_def)
  have "fake_Watch (\<lambda>_. Some everything) (\<lambda>_. True) ''ns'' ?opts (sample_fake ?acts [?a \<mapsto> sample_named ''a''] []) =
      Returns (sample_fake (?acts @ [WatchAction ''ns'' ?opts]) [?a \<mapsto> sample_named ''a''] [?w], 0)"
    by (simp add: fake_Watch_def ExtractFromListOptions_def tracker_Watch_def sample_fake_def everything_def)
  note watched = informing.watch [OF r2 r1(2) this]
  have r3: "sample_informing Map.empty {?a} (sample_fake (?acts @ [WatchAction ''ns'' ?opts]) [?a \<mapsto> sample_named ''a''] [?w]) (r1\<lparr>rf_phase := Watching 0\<rparr>)"
  proof -
    have "{k. (''ns'' = '''' \<or> nn_Namespace k = ''ns'') \<and> None \<noteq> (if k = ?a then Some (sample_named ''a'') else None)} = {?a}" by auto
    then show ?thesis using watched by (simp add: sample_fake_def)
  qed
  have "fake_change (\<lambda>_ _ kc. Inr kc) (sample_channel 1 []) (\<lambda>_. Some everything) (\<lambda>_. True) (Some 0)
      (sample_fake (?acts @ [WatchAction ''ns'' ?opts]) [?a \<mapsto> sample_named ''a''] [?w])
      (sample_fake ((?acts @ [WatchAction ''ns'' ?opts]) @ [CreateAction ''ns'' (sample_named ''b'')]) [?a \<mapsto> sample_named ''a'', ?b \<mapsto> sample_named ''b'']
        [?w\<lparr>fw_result := [Added (sample_named ''b'')]\<rparr>])"
    by (rule sample_create [OF ab(2)]) (simp_all add: watches_def send_def DefaultChanSize_def)
  then have c: "fake_change (\<lambda>_ _ kc. Inr kc) (sample_channel 1 []) (\<lambda>_. Some everything) (\<lambda>_. True) (reader (rf_phase (r1\<lparr>rf_phase := Watching 0\<rparr>)))
      (sample_fake (?acts @ [WatchAction ''ns'' ?opts]) [?a \<mapsto> sample_named ''a''] [?w])
      (sample_fake ((?acts @ [WatchAction ''ns'' ?opts]) @ [CreateAction ''ns'' (sample_named ''b'')]) [?a \<mapsto> sample_named ''a'', ?b \<mapsto> sample_named ''b'']
        [?w\<lparr>fw_result := [Added (sample_named ''b'')]\<rparr>])" by simp
  have "ref_of (sample_named ''b'') = ?b" by (simp add: sample_named_def sample_defs)
  with informing.change [OF r3 c] show ?thesis
    by (intro exI conjI [rotated]) (auto simp: still_missed_def unread_by_def watcher_of_def sample_fake_def)
qed

theorem cache_follows_tracker_witness:
  "\<exists>missed c r. sample_informing Map.empty missed c r \<and> caught_up 0 c r \<and>
     tr_objects (fk_tracker c) \<lparr>nn_Namespace = ''ns'', nn_Name = ''a''\<rparr> = Some (sample_named ''a'') \<and>
     namespace_Get ''ns'' ''a'' (rf_ix r) = Inl (ApiNotFound ''a'') \<and> namespace_Get ''ns'' ''b'' (rf_ix r) = Inr (sample_named ''b'')"
proof -
  let ?a = "\<lparr>nn_Namespace = ''ns'', nn_Name = ''a''\<rparr>" and ?b = "\<lparr>nn_Namespace = ''ns'', nn_Name = ''b''\<rparr>"
  let ?m = "[?a \<mapsto> sample_named ''a'', ?b \<mapsto> sample_named ''b'']"
  note g = sorted_range.go_range_axioms
  obtain acts ws r0 where "rf_phase r0 = Watching 0" "sample_informing Map.empty {?a} (sample_fake acts ?m ws) r0" using sample_run by blast
  then have "\<exists>c r. sample_informing Map.empty {?a} c r \<and> caught_up 0 c r \<and> tr_objects (fk_tracker c) = tr_objects (fk_tracker (sample_fake acts ?m ws))"
    using cache_follows_tracker [OF g g] by blast
  then obtain c r where c: "sample_informing Map.empty {?a} c r" "caught_up 0 c r" "tr_objects (fk_tracker c) = ?m" by (auto simp: sample_fake_def)
  have "namespace_Get ''ns'' name (rf_ix r) =
      (case if \<lparr>nn_Namespace = ''ns'', nn_Name = name\<rparr> \<in> {?a} then None else ?m \<lparr>nn_Namespace = ''ns'', nn_Name = name\<rparr> of
         None \<Rightarrow> Inl (ApiNotFound name) | Some kc \<Rightarrow> Inr kc)" for name
    using cache_follows_tracker [OF g g c(1)] c(2,3) by (simp add: caught_up_def)
  from this [of "''a''"] this [of "''b''"] c show ?thesis by (intro exI [of _ "{?a}"] exI [of _ c] exI [of _ r]) simp
qed

end
