(* ===== verification/Fixtures.thy ===== *)
theory Fixtures
  imports Lifecycle Validation
begin

text \<open>
  The channels that the tests of the reconcilers build (\<open>reconciler/testing/kafkachannel.go\<close>): \<open>NewKafkaChannel\<close> applies
  options to an empty channel and then the defaults. An option is a function on channels; the clock that the
  conditions read is an argument. The theory shows when a fixture is ready, so that the tests start from the
  states that they mean, and one option that leaves more than it should.
\<close>

section \<open>The options\<close>

type_synonym KafkaChannelOption = "KafkaTopicChannel \<Rightarrow> KafkaTopicChannel"

definition zero_channel :: KafkaTopicChannel where
  "zero_channel =
     \<lparr>kc_Meta = zero_ObjectMeta,
      kc_Spec = \<lparr>sp_NumPartitions = 0, sp_ReplicationFactor = 0, sp_BootstrapServers = [],
        sp_SASL = \<lparr>sasl_Enable = False, sasl_User = None, sasl_Password = None, sasl_Type = None\<rparr>,
        sp_TLS = \<lparr>tls_Enable = False, tls_Cert = None, tls_Key = None, tls_CACert = None\<rparr>,
        sp_Topic = '''', sp_Subscribers = [], sp_Delivery = None\<rparr>,
      kc_Status = \<lparr>st_ObservedGeneration = 0, st_Conditions = [], st_Annotations = Map.empty, st_Address = None, st_Subscribers = []\<rparr>\<rparr>"

definition NewKafkaChannel :: "string \<Rightarrow> string \<Rightarrow> KafkaChannelOption list \<Rightarrow> KafkaTopicChannel" where
  "NewKafkaChannel name namespace ncopt =
     SetDefaults (fold (\<lambda>opt nc. opt nc) ncopt
       (zero_channel\<lparr>kc_Meta := zero_ObjectMeta\<lparr>om_Name := name, om_Namespace := namespace, om_UID := ''abc-xyz''\<rparr>\<rparr>))"

definition on_status :: "(KafkaTopicChannelStatus \<Rightarrow> KafkaTopicChannelStatus) \<Rightarrow> KafkaChannelOption" where
  "on_status f nc = nc\<lparr>kc_Status := f (kc_Status nc)\<rparr>"

definition WithInitKafkaChannelConditions :: "time \<Rightarrow> KafkaChannelOption" where
  "WithInitKafkaChannelConditions now = on_status (st_InitializeConditions now)"

definition WithKafkaChannelDeleted :: KafkaChannelOption where
  "WithKafkaChannelDeleted nc = nc\<lparr>kc_Meta := (kc_Meta nc)\<lparr>om_DeletionTimestamp := Some (10 ^ 9)\<rparr>\<rparr>"

definition WithKafkaChannelTopicReady :: "time \<Rightarrow> KafkaChannelOption" where
  "WithKafkaChannelTopicReady now = on_status (MarkTopicTrue now)"

definition WithKafkaChannelConfigReady :: "time \<Rightarrow> KafkaChannelOption" where
  "WithKafkaChannelConfigReady now = on_status (MarkConfigTrue now)"

definition WithKafkaChannelDeploymentNotReady :: "time \<Rightarrow> string \<Rightarrow> string \<Rightarrow> KafkaChannelOption" where
  "WithKafkaChannelDeploymentNotReady now reason message = on_status (MarkDispatcherFailed now reason message)"

definition WithKafkaChannelDeploymentReady :: "time \<Rightarrow> KafkaChannelOption" where
  "WithKafkaChannelDeploymentReady now =
     on_status (PropagateDispatcherStatus now [\<lparr>dc_Type = ''Available'', dc_Status = ConditionTrue, dc_Reason = '''', dc_Message = ''''\<rparr>])"

definition WithKafkaChannelServicetNotReady :: "time \<Rightarrow> string \<Rightarrow> string \<Rightarrow> KafkaChannelOption" where
  "WithKafkaChannelServicetNotReady now reason message = on_status (MarkServiceFailed now reason message)"

definition WithKafkaChannelServiceReady :: "time \<Rightarrow> KafkaChannelOption" where
  "WithKafkaChannelServiceReady now = on_status (MarkServiceTrue now)"

definition WithKafkaChannelChannelServicetNotReady :: "time \<Rightarrow> string \<Rightarrow> string \<Rightarrow> KafkaChannelOption" where
  "WithKafkaChannelChannelServicetNotReady now reason message = on_status (MarkChannelServiceFailed now reason message)"

definition WithKafkaChannelChannelServiceReady :: "time \<Rightarrow> KafkaChannelOption" where
  "WithKafkaChannelChannelServiceReady now = on_status (MarkChannelServiceTrue now)"

definition WithKafkaChannelEndpointsNotReady :: "time \<Rightarrow> string \<Rightarrow> string \<Rightarrow> KafkaChannelOption" where
  "WithKafkaChannelEndpointsNotReady now reason message = on_status (MarkEndpointsFailed now reason message)"

definition WithKafkaChannelEndpointsReady :: "time \<Rightarrow> KafkaChannelOption" where
  "WithKafkaChannelEndpointsReady now = on_status (MarkEndpointsTrue now)"

definition WithKafkaChannelAddress :: "time \<Rightarrow> string \<Rightarrow> KafkaChannelOption" where
  "WithKafkaChannelAddress now a = on_status (SetAddress now (Some \<lparr>url_Scheme = ''http'', url_Host = a, url_Path = ''''\<rparr>))"

definition WithKafkaFinalizer :: "string \<Rightarrow> KafkaChannelOption" where
  "WithKafkaFinalizer finalizerName nc =
     (let finalizers = insert finalizerName (set (om_Finalizers (kc_Meta nc)))
      in nc\<lparr>kc_Meta := (kc_Meta nc)\<lparr>om_Finalizers := sorted_list_of_set finalizers\<rparr>\<rparr>)"

definition WithKafkaChannelSubscribers :: "SubscriberSpec list \<Rightarrow> KafkaChannelOption" where
  "WithKafkaChannelSubscribers subs nc = nc\<lparr>kc_Spec := (kc_Spec nc)\<lparr>sp_Subscribers := subs\<rparr>\<rparr>"

text \<open>\<open>make\<close> allocates entries with zero values, and \<open>append\<close> adds behind them.\<close>

definition WithKafkaChannelStatusSubscribers :: KafkaChannelOption where
  "WithKafkaChannelStatusSubscribers nc =
     (let made = replicate (length (sp_Subscribers (kc_Spec nc)))
            \<lparr>sst_UID = '''', sst_ObservedGeneration = 0, sst_Ready = '''', sst_Message = ''''\<rparr>;
          ss = fold (\<lambda>s ss. ss @ [\<lparr>sst_UID = ss_UID s, sst_ObservedGeneration = ss_Generation s, sst_Ready = ConditionTrue, sst_Message = ''''\<rparr>])
            (sp_Subscribers (kc_Spec nc)) made
      in nc\<lparr>kc_Status := (kc_Status nc)\<lparr>st_Subscribers := ss\<rparr>\<rparr>)"

section \<open>When a fixture is ready\<close>

text \<open>An option marks the conditions of a channel by the given marks, whatever else it does.\<close>

definition marks_by :: "KafkaChannelOption \<Rightarrow> mark list \<Rightarrow> bool" where
  "marks_by opt ms \<longleftrightarrow> (\<forall>m \<in> set ms. mark_target m \<in> kc_dependents) \<and>
     (\<forall>nc. st_Conditions (kc_Status (opt nc)) = st_Conditions (fold apply_mark ms (kc_Status nc)))"

lemma apply_mark_conditions:
  "st_Conditions st = st_Conditions st' \<Longrightarrow> st_Conditions (apply_mark m st) = st_Conditions (apply_mark m st')"
  by (cases m) (simp_all add: markTrue_def markFalse_def markUnknown_def)

lemma fold_mark_conditions:
  "st_Conditions st = st_Conditions st' \<Longrightarrow> st_Conditions (fold apply_mark ms st) = st_Conditions (fold apply_mark ms st')"
proof (induction ms arbitrary: st st')
  case (Cons m ms)
  from Cons.IH [OF apply_mark_conditions [OF Cons.prems]] show ?case by simp
qed simp

text \<open>The marks of every option; \<open>SetAddress\<close> also sets the address.\<close>

lemma option_marks:
  "marks_by (WithKafkaChannelTopicReady now) [MTrue now TopicReady]"
  "marks_by (WithKafkaChannelConfigReady now) [MTrue now ConfigReady]"
  "marks_by (WithKafkaChannelDeploymentReady now) [MTrue now DispatcherReady]"
  "marks_by (WithKafkaChannelServiceReady now) [MTrue now ServiceReady]"
  "marks_by (WithKafkaChannelChannelServiceReady now) [MTrue now ChannelServiceReady]"
  "marks_by (WithKafkaChannelEndpointsReady now) [MTrue now EndpointsReady]"
  "marks_by (WithKafkaChannelDeploymentNotReady now r msg) [MFalse now DispatcherReady r msg]"
  "marks_by (WithKafkaChannelServicetNotReady now r msg) [MFalse now ServiceReady r msg]"
  "marks_by (WithKafkaChannelChannelServicetNotReady now r msg) [MFalse now ChannelServiceReady r msg]"
  "marks_by (WithKafkaChannelEndpointsNotReady now r msg) [MFalse now EndpointsReady r msg]"
  "marks_by (WithKafkaChannelAddress now a) [MTrue now Addressable]"
  "marks_by WithKafkaChannelDeleted []" "marks_by (WithKafkaFinalizer f) []"
  "marks_by (WithKafkaChannelSubscribers subs) []" "marks_by WithKafkaChannelStatusSubscribers []"
  by (simp_all add: marks_by_def kc_dependents_def on_status_def lifecycle_defs Let_def SetAddress_def markTrue_def
      WithKafkaChannelTopicReady_def WithKafkaChannelConfigReady_def WithKafkaChannelDeploymentReady_def
      WithKafkaChannelServiceReady_def WithKafkaChannelChannelServiceReady_def WithKafkaChannelEndpointsReady_def
      WithKafkaChannelDeploymentNotReady_def WithKafkaChannelServicetNotReady_def WithKafkaChannelChannelServicetNotReady_def
      WithKafkaChannelEndpointsNotReady_def WithKafkaChannelAddress_def WithKafkaChannelDeleted_def WithKafkaFinalizer_def
      WithKafkaChannelSubscribers_def WithKafkaChannelStatusSubscribers_def split: option.split)

lemma options_marks:
  "list_all2 marks_by opts mss \<Longrightarrow>
     st_Conditions (kc_Status (fold (\<lambda>opt nc. opt nc) opts nc)) = st_Conditions (fold apply_mark (concat mss) (kc_Status nc))"
proof (induction arbitrary: nc rule: list_all2_induct)
  case (Cons opt opts ms mss)
  then show ?case
    using fold_mark_conditions [of "kc_Status (opt nc)" "fold apply_mark ms (kc_Status nc)" "concat mss"] by (simp add: marks_by_def)
qed simp

text \<open>
  A fixture that starts with initialised conditions is ready exactly if the last mark of each of the seven conditions among
  its options is True; a condition without a mark is Unknown. Options that mark nothing do not matter, nor does the
  order of options that mark different conditions.
\<close>

lemma fixture_ready:
  assumes "list_all2 marks_by opts mss"
  shows "IsReady_status (kc_Status (NewKafkaChannel name ns (WithInitKafkaChannelConditions now # opts))) \<longleftrightarrow>
           (\<forall>t \<in> kc_dependents. last_mark (concat mss) t ConditionUnknown = ConditionTrue)"
proof -
  let ?st = "st_InitializeConditions now (kc_Status zero_channel)"
  have part: "cond_partial kc_condSet []" by (simp add: cond_partial_def)
  have wf: "status_wf ?st"
    using InitializeConditions_spec(1) [OF kc_condSet_wf part, of now] by (simp add: status_wf_def st_InitializeConditions_def zero_channel_def)
  have dep: "dep_status ?st t = ConditionUnknown" if "t \<in> kc_dependents" for t
    using InitializeConditions_spec(2) [OF kc_condSet_wf part, of now t] that
    by (simp add: dep_status_def st_InitializeConditions_def zero_channel_def status_of_absent)
  have targets: "\<forall>m \<in> set (concat mss). mark_target m \<in> kc_dependents"
    using assms by (induction rule: list_all2_induct) (auto simp: marks_by_def)
  have "st_Conditions (kc_Status (NewKafkaChannel name ns (WithInitKafkaChannelConditions now # opts))) = st_Conditions (fold apply_mark (concat mss) ?st)"
    using options_marks [OF assms] by (simp add: NewKafkaChannel_def WithInitKafkaChannelConditions_def on_status_def)
  then have eq: "IsReady_status (kc_Status (NewKafkaChannel name ns (WithInitKafkaChannelConditions now # opts))) = IsReady_status (fold apply_mark (concat mss) ?st)"
    by (simp add: IsReady_status_def)
  show ?thesis
  proof (cases "concat mss = []")
    case True
    have "\<not> IsReady_status ?st"
      using InitializeConditions_spec(2) [OF kc_condSet_wf part, of now "cs_happy kc_condSet"]
      by (simp add: IsReady_status_def IsHappy_def IsTrue_status_of st_InitializeConditions_def zero_channel_def)
    then show ?thesis unfolding eq True by (simp add: kc_dependents_def) blast
  next
    case False
    then show ?thesis using eq kc_status.run_ready [OF wf targets] dep by auto
  qed
qed

text \<open>The option for the status of the subscribers leaves as many empty entries in front as there are subscribers.\<close>

lemma status_subscribers_padded:
  "st_Subscribers (kc_Status (WithKafkaChannelStatusSubscribers nc)) =
     replicate (length (sp_Subscribers (kc_Spec nc))) \<lparr>sst_UID = '''', sst_ObservedGeneration = 0, sst_Ready = '''', sst_Message = ''''\<rparr> @
     map (\<lambda>s. \<lparr>sst_UID = ss_UID s, sst_ObservedGeneration = ss_Generation s, sst_Ready = ConditionTrue, sst_Message = ''''\<rparr>) (sp_Subscribers (kc_Spec nc))"
proof -
  have "fold (\<lambda>s ss. ss @ [f s]) xs acc = acc @ map f xs" for f :: "SubscriberSpec \<Rightarrow> SubscriberStatus" and xs acc
    by (induction xs arbitrary: acc) simp_all
  then show ?thesis by (simp add: WithKafkaChannelStatusSubscribers_def Let_def)
qed

end
