(* ===== verification/Clientset.thy ===== *)
theory Clientset
  imports ApiTypes Complex_Main
begin

text \<open>
  The generated client of the API server (\<open>pkg/client/clientset/versioned\<close>) with the request builder of
  \<open>k8s.io/client-go/rest\<close> that it drives, and its construction from a configuration. Sending a request, the
  encoding of its body and its query parameters are not modelled: an operation of the client is the request
  that it builds.
\<close>

section \<open>Requests\<close>

type_synonym int64 = "64 word"

datatype request_body = NoBody | ChannelBody KafkaTopicChannel | DataBody string | DeleteOptionsBody

datatype request_error =
    NamespaceAlreadySet string string
  | InvalidNamespace string
  | ResourceAlreadySet string string
  | InvalidResource string
  | EmptyResourceName
  | ResourceNameAlreadySet string string
  | InvalidResourceName string
  | SubresourceAlreadySet string "string list"
  | InvalidSubresource string

record rest_request =
  req_verb :: string
  req_namespace :: string
  req_namespaceSet :: bool
  req_resource :: string
  req_resourceName :: string
  req_subresource :: "string list"
  req_watch :: bool
  req_timeout :: int64
  req_body :: request_body
  req_err :: "request_error option"

definition NewRequest :: "string \<Rightarrow> rest_request" where
  "NewRequest verb =
     \<lparr>req_verb = verb, req_namespace = '''', req_namespaceSet = False, req_resource = '''', req_resourceName = '''',
      req_subresource = [], req_watch = False, req_timeout = 0, req_body = NoBody, req_err = None\<rparr>"

definition IsValidPathSegmentName :: "string \<Rightarrow> bool" where
  "IsValidPathSegmentName name \<longleftrightarrow> name \<noteq> ''.'' \<and> name \<noteq> ''..'' \<and> CHR ''/'' \<notin> set name \<and> CHR ''%'' \<notin> set name"

text \<open>Every setter does nothing once the request has an error.\<close>

definition step :: "(rest_request \<Rightarrow> rest_request) \<Rightarrow> rest_request \<Rightarrow> rest_request" where
  "step f r = (if req_err r \<noteq> None then r else f r)"

definition fail :: "request_error \<Rightarrow> rest_request \<Rightarrow> rest_request" where
  "fail err r = r\<lparr>req_err := Some err\<rparr>"

definition rq_Namespace :: "string \<Rightarrow> rest_request \<Rightarrow> rest_request" where
  "rq_Namespace namespace = step (\<lambda>r.
     if req_namespaceSet r then fail (NamespaceAlreadySet (req_namespace r) namespace) r
     else if \<not> IsValidPathSegmentName namespace then fail (InvalidNamespace namespace) r
     else r\<lparr>req_namespaceSet := True, req_namespace := namespace\<rparr>)"

definition rq_Resource :: "string \<Rightarrow> rest_request \<Rightarrow> rest_request" where
  "rq_Resource resource = step (\<lambda>r.
     if length (req_resource r) \<noteq> 0 then fail (ResourceAlreadySet (req_resource r) resource) r
     else if \<not> IsValidPathSegmentName resource then fail (InvalidResource resource) r
     else r\<lparr>req_resource := resource\<rparr>)"

definition rq_Name :: "string \<Rightarrow> rest_request \<Rightarrow> rest_request" where
  "rq_Name resourceName = step (\<lambda>r.
     if length resourceName = 0 then fail EmptyResourceName r
     else if length (req_resourceName r) \<noteq> 0 then fail (ResourceNameAlreadySet (req_resourceName r) resourceName) r
     else if \<not> IsValidPathSegmentName resourceName then fail (InvalidResourceName resourceName) r
     else r\<lparr>req_resourceName := resourceName\<rparr>)"

definition rq_SubResource :: "string list \<Rightarrow> rest_request \<Rightarrow> rest_request" where
  "rq_SubResource subresources = step (\<lambda>r.
     if req_subresource r \<noteq> [] then fail (SubresourceAlreadySet (req_resource r) subresources) r
     else
       (case find (\<lambda>s. \<not> IsValidPathSegmentName s) subresources of
          Some s \<Rightarrow> fail (InvalidSubresource s) r
        | None \<Rightarrow> r\<lparr>req_subresource := filter (\<lambda>s. s \<noteq> '''') subresources\<rparr>))"

definition rq_Timeout :: "int64 \<Rightarrow> rest_request \<Rightarrow> rest_request" where
  "rq_Timeout d = step (\<lambda>r. r\<lparr>req_timeout := d\<rparr>)"

definition rq_Body :: "request_body \<Rightarrow> rest_request \<Rightarrow> rest_request" where
  "rq_Body b = step (\<lambda>r. r\<lparr>req_body := b\<rparr>)"

text \<open>
  The path of \<open>URL\<close> for a server at the root: \<open>path.Join\<close> drops empty segments; on the segments that the
  setters admit it changes nothing else. The prefix is that of \<open>setConfigDefaults\<close>.
\<close>

definition api_prefix :: "string list" where
  "api_prefix = [''apis'', GroupName, ''v1alpha1'']"

definition url_segments :: "rest_request \<Rightarrow> string list" where
  "url_segments r =
     api_prefix @ (if req_namespaceSet r \<and> length (req_namespace r) > 0 then [''namespaces'', req_namespace r] else []) @
     filter (\<lambda>s. s \<noteq> '''') ([req_resource r, req_resourceName r] @ req_subresource r)"

definition url_path :: "rest_request \<Rightarrow> string" where
  "url_path r = ''/'' @ go_join ''/'' (url_segments r)"

section \<open>The client of a namespace\<close>

definition resource_name :: string where
  "resource_name = ''kafkatopicchannels''"

definition list_timeout :: "int64 option \<Rightarrow> int64" where
  "list_timeout timeoutSeconds = (case timeoutSeconds of None \<Rightarrow> 0 | Some s \<Rightarrow> s * 1000000000)"

definition client_Get :: "string \<Rightarrow> string \<Rightarrow> rest_request" where
  "client_Get ns name = rq_Name name (rq_Resource resource_name (rq_Namespace ns (NewRequest ''GET'')))"

definition client_List :: "string \<Rightarrow> int64 option \<Rightarrow> rest_request" where
  "client_List ns timeoutSeconds =
     rq_Timeout (list_timeout timeoutSeconds) (rq_Resource resource_name (rq_Namespace ns (NewRequest ''GET'')))"

definition client_Watch :: "string \<Rightarrow> int64 option \<Rightarrow> rest_request" where
  "client_Watch ns timeoutSeconds =
     rq_Timeout (list_timeout timeoutSeconds)
       (step (\<lambda>r. r\<lparr>req_watch := True\<rparr>) (rq_Resource resource_name (rq_Namespace ns (NewRequest ''GET''))))"

definition client_Create :: "string \<Rightarrow> KafkaTopicChannel \<Rightarrow> rest_request" where
  "client_Create ns kc = rq_Body (ChannelBody kc) (rq_Resource resource_name (rq_Namespace ns (NewRequest ''POST'')))"

definition client_Update :: "string \<Rightarrow> KafkaTopicChannel \<Rightarrow> rest_request" where
  "client_Update ns kc =
     rq_Body (ChannelBody kc) (rq_Name (kc_Name kc) (rq_Resource resource_name (rq_Namespace ns (NewRequest ''PUT''))))"

definition client_UpdateStatus :: "string \<Rightarrow> KafkaTopicChannel \<Rightarrow> rest_request" where
  "client_UpdateStatus ns kc =
     rq_Body (ChannelBody kc)
       (rq_SubResource [''status''] (rq_Name (kc_Name kc) (rq_Resource resource_name (rq_Namespace ns (NewRequest ''PUT'')))))"

definition client_Delete :: "string \<Rightarrow> string \<Rightarrow> rest_request" where
  "client_Delete ns name =
     rq_Body DeleteOptionsBody (rq_Name name (rq_Resource resource_name (rq_Namespace ns (NewRequest ''DELETE''))))"

definition client_DeleteCollection :: "string \<Rightarrow> int64 option \<Rightarrow> rest_request" where
  "client_DeleteCollection ns timeoutSeconds =
     rq_Body DeleteOptionsBody
       (rq_Timeout (list_timeout timeoutSeconds) (rq_Resource resource_name (rq_Namespace ns (NewRequest ''DELETE''))))"

definition client_Patch :: "string \<Rightarrow> string \<Rightarrow> string \<Rightarrow> string list \<Rightarrow> rest_request" where
  "client_Patch ns name data subresources =
     rq_Body (DataBody data)
       (rq_SubResource subresources (rq_Name name (rq_Resource resource_name (rq_Namespace ns (NewRequest ''PATCH'')))))"

section \<open>Requests and paths\<close>

lemmas client_defs = client_Get_def client_List_def client_Watch_def client_Create_def client_Update_def
  client_UpdateStatus_def client_Delete_def client_DeleteCollection_def client_Patch_def

lemmas request_defs = NewRequest_def step_def fail_def rq_Namespace_def rq_Resource_def rq_Name_def rq_SubResource_def
  rq_Timeout_def rq_Body_def

lemma resource_name_valid [simp]: "IsValidPathSegmentName resource_name" "resource_name \<noteq> ''''"
  by (simp_all add: IsValidPathSegmentName_def resource_name_def)

lemma status_valid [simp]: "IsValidPathSegmentName ''status''"
  by (simp add: IsValidPathSegmentName_def)

text \<open>The requests for one object, in their common shape.\<close>

definition object_request :: "string \<Rightarrow> string \<Rightarrow> string \<Rightarrow> string list \<Rightarrow> rest_request" where
  "object_request verb ns name subs = rq_SubResource subs (rq_Name name (rq_Resource resource_name (rq_Namespace ns (NewRequest verb))))"

lemma object_request_err:
  "req_err (object_request verb ns name subs) = None \<longleftrightarrow>
     IsValidPathSegmentName ns \<and> name \<noteq> '''' \<and> IsValidPathSegmentName name \<and> list_all IsValidPathSegmentName subs"
proof -
  have "find (\<lambda>s. \<not> IsValidPathSegmentName s) subs = None \<longleftrightarrow> list_all IsValidPathSegmentName subs"
    by (auto simp: find_None_iff list_all_iff)
  then show ?thesis by (auto simp: object_request_def request_defs split: option.split)
qed

lemma object_request_segments:
  assumes "req_err (object_request verb ns name subs) = None" "ns \<noteq> ''''"
  shows "url_segments (object_request verb ns name subs) =
    [''apis'', GroupName, ''v1alpha1'', ''namespaces'', ns, resource_name, name] @ filter (\<lambda>s. s \<noteq> '''') subs"
  using assms unfolding object_request_err
  by (auto simp: object_request_def request_defs url_segments_def api_prefix_def find_None_iff list_all_iff 
      split: option.split) (metis (no_types, lifting) find_Some_iff nth_mem)+

lemma object_request_split:
  assumes "req_err (object_request verb ns name subs) = None" "ns \<noteq> ''''"
  shows "go_split CHR ''/'' (url_path (object_request verb ns name subs)) =
    ['''', ''apis'', GroupName, ''v1alpha1'', ''namespaces'', ns, resource_name, name] @ filter (\<lambda>s. s \<noteq> '''') subs"
proof -
  let ?segs = "url_segments (object_request verb ns name subs)"
  have "\<forall>w \<in> set subs. CHR ''/'' \<notin> set w" "CHR ''/'' \<notin> set ns" "CHR ''/'' \<notin> set name"
    using assms(1) unfolding object_request_err by (simp_all add: IsValidPathSegmentName_def list_all_iff)
  then have "\<forall>w \<in> set ?segs. CHR ''/'' \<notin> set w"
    unfolding object_request_segments [OF assms] by (simp add: GroupName_def resource_name_def)
  then have "go_split CHR ''/'' (go_join ''/'' ?segs) = ?segs"
    by (intro go_split_join) (blast | simp add: object_request_segments [OF assms])+
  then show ?thesis using go_split_append [of "CHR ''/''" "''''"] by (simp add: url_path_def object_request_segments [OF assms])
qed

lemma rq_Body_simps [simp]: "url_path (rq_Body b r) = url_path r" "req_err (rq_Body b r) = req_err r"
  by (simp_all add: rq_Body_def step_def url_path_def url_segments_def)

lemma req_subresource_simps [simp]:
  "req_subresource (rq_Name n r) = req_subresource r" "req_subresource (rq_Resource n r) = req_subresource r"
  "req_subresource (rq_Namespace n r) = req_subresource r" "req_subresource (NewRequest v) = []"
  by (simp_all add: rq_Name_def rq_Resource_def rq_Namespace_def NewRequest_def step_def fail_def)

lemma rq_SubResource_Nil: "req_subresource r = [] \<Longrightarrow> rq_SubResource [] r = r"
  by (simp add: rq_SubResource_def step_def)

lemma object_request_Nil: "object_request verb ns name [] = rq_Name name (rq_Resource resource_name (rq_Namespace ns (NewRequest verb)))"
  unfolding object_request_def by (rule rq_SubResource_Nil) simp

lemma client_object_requests:
  "url_path (client_Get ns name) = url_path (object_request ''GET'' ns name [])"
  "url_path (client_Update ns kc) = url_path (object_request ''PUT'' ns (kc_Name kc) [])"
  "url_path (client_UpdateStatus ns kc) = url_path (object_request ''PUT'' ns (kc_Name kc) [''status''])"
  "url_path (client_Delete ns name) = url_path (object_request ''DELETE'' ns name [])"
  "url_path (client_Patch ns name data subs) = url_path (object_request ''PATCH'' ns name subs)"
  unfolding client_defs object_request_Nil by (simp_all add: object_request_def)

lemma client_object_errors:
  "req_err (client_Get ns name) = req_err (object_request ''GET'' ns name [])"
  "req_err (client_Update ns kc) = req_err (object_request ''PUT'' ns (kc_Name kc) [])"
  "req_err (client_UpdateStatus ns kc) = req_err (object_request ''PUT'' ns (kc_Name kc) [''status''])"
  "req_err (client_Delete ns name) = req_err (object_request ''DELETE'' ns name [])"
  "req_err (client_Patch ns name data subs) = req_err (object_request ''PATCH'' ns name subs)"
  unfolding client_defs object_request_Nil by (simp_all add: object_request_def)

text \<open>
  A request of the client names its object unambiguously: an update, a status update or a patch of a
  channel in a namespace is built without an error exactly if namespace and name are valid segments and
  the name is not empty; its path then splits into the prefix of the API, the namespace, the resource,
  the name and, for a status update only, the subresource. So no two channels share a path, and an
  update never goes where a status update goes.
\<close>

lemma requests_name_their_object:
  assumes "ns \<noteq> ''''" and "req_err (client_UpdateStatus ns kc) = None"
  shows "IsValidPathSegmentName ns \<and> IsValidPathSegmentName (kc_Name kc) \<and> kc_Name kc \<noteq> '''' \<and>
         req_err (client_Update ns kc) = None \<and> req_err (client_Patch ns (kc_Name kc) data []) = None \<and>
         go_split CHR ''/'' (url_path (client_UpdateStatus ns kc)) =
           ['''', ''apis'', ''messaging.optum.dev'', ''v1alpha1'', ''namespaces'', ns, ''kafkatopicchannels'', kc_Name kc, ''status''] \<and>
         url_path (client_Patch ns (kc_Name kc) data []) = url_path (client_Update ns kc) \<and>
         url_path (client_UpdateStatus ns kc) = url_path (client_Update ns kc) @ ''/status'' \<and>
         (\<forall>ns' kc'. ns' \<noteq> '''' \<and> req_err (client_Update ns' kc') = None \<longrightarrow>
            url_path (client_Update ns' kc') \<noteq> url_path (client_UpdateStatus ns kc) \<and>
            (url_path (client_Update ns' kc') = url_path (client_Update ns kc) \<longrightarrow> ns' = ns \<and> kc_Name kc' = kc_Name kc))"
proof -
  have ok: "IsValidPathSegmentName ns \<and> kc_Name kc \<noteq> '''' \<and> IsValidPathSegmentName (kc_Name kc)"
    using assms(2) by (simp add: client_object_errors object_request_err)
  then have upd: "req_err (client_Update ns kc) = None" "req_err (client_Patch ns (kc_Name kc) data []) = None"
    by (simp_all add: client_object_errors object_request_err)
  note split_u = object_request_split [OF upd(1) [unfolded client_object_errors] assms(1)]
  note split_s = object_request_split [OF assms(2) [unfolded client_object_errors] assms(1)]
  have s: "url_path (client_UpdateStatus ns kc) = url_path (client_Update ns kc) @ ''/status''"
    using object_request_segments [OF upd(1) [unfolded client_object_errors] assms(1)]
      object_request_segments [OF assms(2) [unfolded client_object_errors] assms(1)]
    unfolding client_object_requests unfolding url_path_def by simp
  have p: "url_path (client_Patch ns (kc_Name kc) data []) = url_path (client_Update ns kc)"
    using object_request_segments [OF upd(1) [unfolded client_object_errors] assms(1)]
      object_request_segments [OF upd(2) [unfolded client_object_errors] assms(1)]
    unfolding client_object_requests unfolding url_path_def by simp
  have "url_path (client_Update ns' kc') \<noteq> url_path (client_UpdateStatus ns kc) \<and>
      (url_path (client_Update ns' kc') = url_path (client_Update ns kc) \<longrightarrow> ns' = ns \<and> kc_Name kc' = kc_Name kc)"
    if "ns' \<noteq> ''''" "req_err (client_Update ns' kc') = None" for ns' kc'
  proof -
    note split_o = object_request_split [OF that(2) [unfolded client_object_errors] that(1)]
    have "length (go_split CHR ''/'' (url_path (client_Update ns' kc'))) \<noteq> length (go_split CHR ''/'' (url_path (client_UpdateStatus ns kc)))"
      unfolding client_object_requests split_o split_s by simp
    moreover have "ns' = ns \<and> kc_Name kc' = kc_Name kc" if "url_path (client_Update ns' kc') = url_path (client_Update ns kc)"
      using arg_cong [OF that, of "go_split CHR ''/''"] unfolding client_object_requests split_o split_u by simp
    ultimately show ?thesis by metis
  qed
  moreover have "go_split CHR ''/'' (url_path (client_UpdateStatus ns kc)) =
      ['''', ''apis'', ''messaging.optum.dev'', ''v1alpha1'', ''namespaces'', ns, ''kafkatopicchannels'', kc_Name kc, ''status'']"
    unfolding client_object_requests split_s by (simp add: GroupName_def resource_name_def)
  ultimately show ?thesis using ok upd s p by blast
qed

section \<open>Construction\<close>

text \<open>
  \<open>rest.Config\<close> with the fields that the construction reads or sets. Queries per second are a \<open>float32\<close>, which is
  only compared with zero; a rate limiter is known by its parameters. \<open>restClientFor\<close> and \<open>discoveryFor\<close> build the
  HTTP clients from a configuration, \<open>userAgent\<close> is the default user agent.
\<close>

datatype rate_limiter = TokenBucket rat int | OtherLimiter string

record rest_config =
  rc_Host :: string
  rc_APIPath :: string
  rc_GroupVersion :: "(string \<times> string) option"
  rc_NegotiatedSerializer :: bool
  rc_UserAgent :: string
  rc_QPS :: rat
  rc_Burst :: int
  rc_RateLimiter :: "rate_limiter option"

definition setConfigDefaults :: "string \<Rightarrow> rest_config \<Rightarrow> rest_config" where
  "setConfigDefaults userAgent config =
     (let config1 = config\<lparr>rc_GroupVersion := Some (GroupName, ''v1alpha1''), rc_APIPath := ''/apis'',
                           rc_NegotiatedSerializer := True\<rparr>
      in if rc_UserAgent config1 = '''' then config1\<lparr>rc_UserAgent := userAgent\<rparr> else config1)"

definition messaging_NewForConfig :: "(rest_config \<Rightarrow> go_error + 'rc) \<Rightarrow> string \<Rightarrow> rest_config \<Rightarrow> go_error + 'rc" where
  "messaging_NewForConfig restClientFor userAgent c = restClientFor (setConfigDefaults userAgent c)"

definition messaging_NewForConfigOrDie :: "(rest_config \<Rightarrow> go_error + 'rc) \<Rightarrow> string \<Rightarrow> rest_config \<Rightarrow> 'rc outcome" where
  "messaging_NewForConfigOrDie restClientFor userAgent c =
     (case messaging_NewForConfig restClientFor userAgent c of Inl err \<Rightarrow> Panics | Inr client \<Rightarrow> Returns client)"

record 'rc clientset =
  cs_messagingV1alpha1 :: 'rc
  cs_DiscoveryClient :: 'rc

definition NewForConfig ::
  "(rest_config \<Rightarrow> go_error + 'rc) \<Rightarrow> (rest_config \<Rightarrow> go_error + 'rc) \<Rightarrow> string \<Rightarrow> rest_config \<Rightarrow> go_error + 'rc clientset" where
  "NewForConfig restClientFor discoveryFor userAgent c =
     (let limit = rc_RateLimiter c = None \<and> rc_QPS c > 0 in
      if limit \<and> rc_Burst c \<le> 0
      then Inl (ErrorText ''burst is required to be greater than 0 when RateLimiter is not set and QPS is set to greater than 0'')
      else
        (let configShallowCopy = (if limit then c\<lparr>rc_RateLimiter := Some (TokenBucket (rc_QPS c) (rc_Burst c))\<rparr> else c) in
         case messaging_NewForConfig restClientFor userAgent configShallowCopy of
           Inl err \<Rightarrow> Inl err
         | Inr messagingV1alpha1 \<Rightarrow>
             (case discoveryFor configShallowCopy of
                Inl err \<Rightarrow> Inl err
              | Inr discoveryClient \<Rightarrow>
                  Inr \<lparr>cs_messagingV1alpha1 = messagingV1alpha1, cs_DiscoveryClient = discoveryClient\<rparr>)))"

definition NewForConfigOrDie ::
  "(rest_config \<Rightarrow> go_error + 'rc) \<Rightarrow> (rest_config \<Rightarrow> go_error + 'rc) \<Rightarrow> string \<Rightarrow> rest_config \<Rightarrow> 'rc clientset outcome" where
  "NewForConfigOrDie restClientFor discoveryFor userAgent c =
     (case messaging_NewForConfigOrDie restClientFor userAgent c of
        Panics \<Rightarrow> Panics
      | Returns messagingV1alpha1 \<Rightarrow>
          (case discoveryFor c of
             Inl err \<Rightarrow> Panics
           | Inr discoveryClient \<Rightarrow>
               Returns \<lparr>cs_messagingV1alpha1 = messagingV1alpha1, cs_DiscoveryClient = discoveryClient\<rparr>))"

text \<open>
  A client is constructed for the group, version and path that its requests name, always with a
  user agent; an unlimited configuration with a rate and a burst gets one limiter, which both clients use; a rate
  without a burst is refused by \<open>NewForConfig\<close> before any client is built.
\<close>

lemma NewForConfig_outcome:
  assumes "userAgent \<noteq> ''''"
  shows "(\<exists>err. NewForConfig (\<lambda>c. Inr c) (\<lambda>c. Inr c) userAgent c = Inl err) \<longleftrightarrow>
           rc_RateLimiter c = None \<and> rc_QPS c > 0 \<and> rc_Burst c \<le> 0"
    and "NewForConfig (\<lambda>c. Inr c) (\<lambda>c. Inr c) userAgent c = Inr cs \<Longrightarrow>
           rc_GroupVersion (cs_messagingV1alpha1 cs) = Some (GroupName, ''v1alpha1'') \<and>
           rc_APIPath (cs_messagingV1alpha1 cs) = ''/apis'' \<and> rc_UserAgent (cs_messagingV1alpha1 cs) \<noteq> '''' \<and>
           rc_RateLimiter (cs_messagingV1alpha1 cs) = rc_RateLimiter (cs_DiscoveryClient cs) \<and>
           (rc_QPS c > 0 \<longrightarrow> rc_RateLimiter (cs_DiscoveryClient cs) \<noteq> None)"
  using assms by (auto simp: NewForConfig_def messaging_NewForConfig_def setConfigDefaults_def Let_def split: if_splits)

end
