(* ===== verification/Informers.thy ===== *)
theory Informers
  imports Clientset Lister
begin

text \<open>
  The generated informers (\<open>pkg/client/informers/externalversions\<close>): the factory that creates every informer once
  and starts it once, and the access to the informer of the channels through the factory.
\<close>

section \<open>The factory of shared informers\<close>

text \<open>
  Informers are created once per type and started once. The types of objects are the parameter \<open>'t\<close>, the
  informers \<open>'i\<close>; the goroutines that were started are the list \<open>fa_runs\<close>. The order of a range over the
  informers is the argument \<open>ord\<close>.
\<close>

record ('t, 'i, 'c, 'w) sharedInformerFactory =
  fa_client :: 'c
  fa_namespace :: string
  fa_tweakListOptions :: "'w option"
  fa_defaultResync :: int64
  fa_customResync :: "'t \<rightharpoonup> int64"
  fa_informers :: "'t \<rightharpoonup> 'i"
  fa_startedInformers :: "'t \<Rightarrow> bool"
  fa_runs :: "('t \<times> 'i) list"

type_synonym ('t, 'i, 'c, 'w) SharedInformerOption = "('t, 'i, 'c, 'w) sharedInformerFactory \<Rightarrow> ('t, 'i, 'c, 'w) sharedInformerFactory"

definition WithCustomResyncConfig :: "('t \<times> int64) list \<Rightarrow> ('t, 'i, 'c, 'w) SharedInformerOption" where
  "WithCustomResyncConfig resyncConfig factory =
     factory\<lparr>fa_customResync := fold (\<lambda>(k, v) m. m(k \<mapsto> v)) resyncConfig (fa_customResync factory)\<rparr>"

definition WithTweakListOptions :: "'w \<Rightarrow> ('t, 'i, 'c, 'w) SharedInformerOption" where
  "WithTweakListOptions tweakListOptions factory = factory\<lparr>fa_tweakListOptions := Some tweakListOptions\<rparr>"

definition WithNamespace :: "string \<Rightarrow> ('t, 'i, 'c, 'w) SharedInformerOption" where
  "WithNamespace namespace factory = factory\<lparr>fa_namespace := namespace\<rparr>"

definition NewSharedInformerFactoryWithOptions ::
  "'c \<Rightarrow> int64 \<Rightarrow> ('t, 'i, 'c, 'w) SharedInformerOption list \<Rightarrow> ('t, 'i, 'c, 'w) sharedInformerFactory" where
  "NewSharedInformerFactoryWithOptions client defaultResync options =
     fold (\<lambda>opt factory. opt factory) options
       \<lparr>fa_client = client, fa_namespace = '''', fa_tweakListOptions = None, fa_defaultResync = defaultResync, fa_customResync = Map.empty,
        fa_informers = Map.empty, fa_startedInformers = (\<lambda>_. False), fa_runs = []\<rparr>"

definition NewSharedInformerFactory :: "'c \<Rightarrow> int64 \<Rightarrow> ('t, 'i, 'c, 'w) sharedInformerFactory" where
  "NewSharedInformerFactory client defaultResync = NewSharedInformerFactoryWithOptions client defaultResync []"

definition NewFilteredSharedInformerFactory ::
  "'c \<Rightarrow> int64 \<Rightarrow> string \<Rightarrow> 'w \<Rightarrow> ('t, 'i, 'c, 'w) sharedInformerFactory" where
  "NewFilteredSharedInformerFactory client defaultResync namespace tweakListOptions =
     NewSharedInformerFactoryWithOptions client defaultResync [WithNamespace namespace, WithTweakListOptions tweakListOptions]"

definition InformerFor ::
  "'t \<Rightarrow> ('c \<Rightarrow> int64 \<Rightarrow> 'i) \<Rightarrow> ('t, 'i, 'c, 'w) sharedInformerFactory \<Rightarrow> ('t, 'i, 'c, 'w) sharedInformerFactory \<times> 'i" where
  "InformerFor informerType newFunc f =
     (case fa_informers f informerType of
        Some informer \<Rightarrow> (f, informer)
      | None \<Rightarrow>
          (let resyncPeriod = (case fa_customResync f informerType of Some d \<Rightarrow> d | None \<Rightarrow> fa_defaultResync f);
               informer = newFunc (fa_client f) resyncPeriod
           in (f\<lparr>fa_informers := (fa_informers f)(informerType \<mapsto> informer)\<rparr>, informer)))"

definition start_one :: "'t \<Rightarrow> ('t, 'i, 'c, 'w) sharedInformerFactory \<Rightarrow> ('t, 'i, 'c, 'w) sharedInformerFactory" where
  "start_one informerType f =
     (if \<not> fa_startedInformers f informerType
      then f\<lparr>fa_runs := fa_runs f @ [(informerType, the (fa_informers f informerType))],
             fa_startedInformers := (fa_startedInformers f)(informerType := True)\<rparr>
      else f)"

definition factory_Start :: "('t set \<Rightarrow> 't list) \<Rightarrow> ('t, 'i, 'c, 'w) sharedInformerFactory \<Rightarrow> ('t, 'i, 'c, 'w) sharedInformerFactory" where
  "factory_Start ord f = fold start_one (ord (dom (fa_informers f))) f"

definition WaitForCacheSync :: "('i \<Rightarrow> bool) \<Rightarrow> ('t, 'i, 'c, 'w) sharedInformerFactory \<Rightarrow> 't \<rightharpoonup> bool" where
  "WaitForCacheSync hasSynced f =
     (\<lambda>t. if fa_startedInformers f t then map_option hasSynced (fa_informers f t) else None)"

text \<open>The options that the package offers.\<close>

definition known_option :: "('t, 'i, 'c, 'w) SharedInformerOption \<Rightarrow> bool" where
  "known_option opt \<longleftrightarrow> (\<exists>ns. opt = WithNamespace ns) \<or> (\<exists>conf. opt = WithCustomResyncConfig conf) \<or>
     (\<exists>tweak. opt = WithTweakListOptions tweak)"

inductive factory_reachable :: "('t, 'i, 'c, 'w) sharedInformerFactory \<Rightarrow> bool" where
  new: "\<forall>opt \<in> set options. known_option opt \<Longrightarrow>
     factory_reachable (NewSharedInformerFactoryWithOptions client defaultResync options)"
| informer: "factory_reachable f \<Longrightarrow> factory_reachable (fst (InformerFor t newFunc f))"
| start: "factory_reachable f \<Longrightarrow> go_range ord \<Longrightarrow> factory_reachable (factory_Start ord f)"

definition factory_inv :: "('t, 'i, 'c, 'w) sharedInformerFactory \<Rightarrow> bool" where
  "factory_inv f \<longleftrightarrow> finite (dom (fa_informers f)) \<and> distinct (map fst (fa_runs f)) \<and>
     {t. fa_startedInformers f t} = fst ` set (fa_runs f) \<and> (\<forall>t i. (t, i) \<in> set (fa_runs f) \<longrightarrow> fa_informers f t = Some i)"

lemma new_factory:
  assumes "\<forall>opt \<in> set options. known_option opt"
    and "fa_informers f = Map.empty" "fa_startedInformers f = (\<lambda>_. False)" "fa_runs f = []"
  shows "factory_inv (fold (\<lambda>opt factory. opt factory) options f)"
  using assms
proof (induction options arbitrary: f)
  case Nil
  then show ?case by (simp add: factory_inv_def)
next
  case (Cons opt options)
  have "fa_informers (opt f) = Map.empty" "fa_startedInformers (opt f) = (\<lambda>_. False)" "fa_runs (opt f) = []"
    using Cons.prems by (auto simp: known_option_def WithNamespace_def WithCustomResyncConfig_def WithTweakListOptions_def)
  with Cons show ?case by simp
qed

lemma start_one_inv:
  assumes "factory_inv f" "t \<in> dom (fa_informers f)"
  shows "factory_inv (start_one t f)" and "fa_informers (start_one t f) = fa_informers f"
    and "{t'. fa_startedInformers (start_one t f) t'} = insert t {t'. fa_startedInformers f t'}"
    and "\<exists>new. fa_runs (start_one t f) = fa_runs f @ new"
  using assms by (auto simp: start_one_def factory_inv_def image_iff)

lemma start_all_inv:
  assumes "factory_inv f" "set ts \<subseteq> dom (fa_informers f)"
  shows "factory_inv (fold start_one ts f) \<and> fa_informers (fold start_one ts f) = fa_informers f \<and>
    {t. fa_startedInformers (fold start_one ts f) t} = set ts \<union> {t. fa_startedInformers f t} \<and>
    (\<exists>new. fa_runs (fold start_one ts f) = fa_runs f @ new)"
  using assms
proof (induction ts arbitrary: f)
  case Nil
  then show ?case by simp
next
  case (Cons t ts)
  have t: "t \<in> dom (fa_informers f)" using Cons.prems(2) by simp
  note one = start_one_inv [OF Cons.prems(1) t]
  obtain new1 where new1: "fa_runs (start_one t f) = fa_runs f @ new1" using one(4) by blast
  have "set ts \<subseteq> dom (fa_informers (start_one t f))" using Cons.prems(2) one(2) by simp
  note ih = Cons.IH [OF one(1) this]
  then obtain new2 where "fa_runs (fold start_one ts (start_one t f)) = fa_runs f @ new1 @ new2" using new1 by auto
  with ih one show ?case by auto
qed

lemma factory_Start_spec:
  assumes "factory_inv f" "go_range ord"
  shows "factory_inv (factory_Start ord f)" "fa_informers (factory_Start ord f) = fa_informers f"
    "{t. fa_startedInformers (factory_Start ord f) t} = dom (fa_informers f)"
    "\<exists>new. fa_runs (factory_Start ord f) = fa_runs f @ new"
proof -
  have o: "set (ord (dom (fa_informers f))) = dom (fa_informers f)"
    using assms go_range.set_ord by (auto simp: factory_inv_def)
  have "{t. fa_startedInformers f t} \<subseteq> dom (fa_informers f)" using assms(1) by (auto simp: factory_inv_def)
  with start_all_inv [OF assms(1), of "ord (dom (fa_informers f))"] o
  show "factory_inv (factory_Start ord f)" "fa_informers (factory_Start ord f) = fa_informers f"
    "{t. fa_startedInformers (factory_Start ord f) t} = dom (fa_informers f)"
    "\<exists>new. fa_runs (factory_Start ord f) = fa_runs f @ new"
    by (auto simp: factory_Start_def)
qed

lemma InformerFor_inv: "factory_inv f \<Longrightarrow> factory_inv (fst (InformerFor t newFunc f))"
  by (auto simp: InformerFor_def factory_inv_def Let_def split: option.split)

lemma factory_reachable_inv: "factory_reachable f \<Longrightarrow> factory_inv f"
proof (induction rule: factory_reachable.induct)
  case (new options client defaultResync)
  then show ?case unfolding NewSharedInformerFactoryWithOptions_def by (rule new_factory) simp_all
qed (simp_all add: InformerFor_inv factory_Start_spec(1))

text \<open>
  Every informer runs at most once, and it is the one that all callers share: after any sequence of
  requests for informers and of starts, no type has two running informers, and what runs for a type is
  what a request for the type returns; a start then runs every informer that was requested, keeps what
  runs already, and the wait afterwards asks exactly the requested informers.
\<close>

lemma informers_shared_and_run_once:
  assumes "factory_reachable f" and "go_range ord"
  shows "distinct (map fst (fa_runs f)) \<and>
         (\<forall>t i newFunc. (t, i) \<in> set (fa_runs f) \<longrightarrow> InformerFor t newFunc f = (f, i)) \<and>
         (\<exists>new. fa_runs (factory_Start ord f) = fa_runs f @ new) \<and>
         distinct (map fst (fa_runs (factory_Start ord f))) \<and>
         fst ` set (fa_runs (factory_Start ord f)) = dom (fa_informers f) \<and>
         WaitForCacheSync hasSynced (factory_Start ord f) = map_option hasSynced \<circ> fa_informers f"
proof -
  note inv = factory_reachable_inv [OF assms(1)]
  note st = factory_Start_spec [OF inv assms(2)]
  have "InformerFor t newFunc f = (f, i)" if "(t, i) \<in> set (fa_runs f)" for t i newFunc
    using inv that by (auto simp: factory_inv_def InformerFor_def)
  moreover have "fst ` set (fa_runs (factory_Start ord f)) = dom (fa_informers f)"
    using st(1,3) by (auto simp: factory_inv_def)
  moreover have "WaitForCacheSync hasSynced (factory_Start ord f) t = (map_option hasSynced \<circ> fa_informers f) t" for t
  proof (cases "fa_informers f t")
    case None
    then show ?thesis by (simp add: WaitForCacheSync_def st(2))
  next
    case (Some i)
    then have "fa_startedInformers (factory_Start ord f) t" using st(3) by auto
    then show ?thesis using Some by (simp add: WaitForCacheSync_def st(2))
  qed
  ultimately show ?thesis using inv st(1,4) by (simp add: factory_inv_def fun_eq_iff)
qed

section \<open>The informer of the channels\<close>

text \<open>
  A filter on list options is a closure over one string variable: it sets the label selector to what the
  variable holds when the filter runs. Factories and variables live on a heap, since several holders share
  them.
\<close>

datatype tweak = SetLabelSelector nat

record ListOptions =
  lo_LabelSelector :: string
  lo_TimeoutSeconds :: "int64 option"

record 'c SharedIndexInformer =
  si_client :: 'c
  si_namespace :: string
  si_resyncPeriod :: int64
  si_indexers :: "string \<rightharpoonup> (KafkaTopicChannel \<Rightarrow> string list)"
  si_tweakListOptions :: "tweak option"

type_synonym 'c informer_factory = "(string, 'c SharedIndexInformer, 'c, tweak) sharedInformerFactory"

record 'c heap =
  hp_factories :: "nat \<Rightarrow> 'c informer_factory"
  hp_nextFactory :: nat
  hp_vars :: "nat \<Rightarrow> string"
  hp_nextVar :: nat

fun run_tweak :: "'c heap \<Rightarrow> tweak option \<Rightarrow> ListOptions \<Rightarrow> ListOptions" where
  "run_tweak hp None options = options"
| "run_tweak hp (Some (SetLabelSelector a)) options = options\<lparr>lo_LabelSelector := hp_vars hp a\<rparr>"

definition NewFilteredKafkaTopicChannelInformer ::
  "'c \<Rightarrow> string \<Rightarrow> int64 \<Rightarrow> (string \<rightharpoonup> (KafkaTopicChannel \<Rightarrow> string list)) \<Rightarrow> tweak option \<Rightarrow> 'c SharedIndexInformer" where
  "NewFilteredKafkaTopicChannelInformer client namespace resyncPeriod indexers tweakListOptions =
     \<lparr>si_client = client, si_namespace = namespace, si_resyncPeriod = resyncPeriod, si_indexers = indexers,
      si_tweakListOptions = tweakListOptions\<rparr>"

definition NewKafkaTopicChannelInformer ::
  "'c \<Rightarrow> string \<Rightarrow> int64 \<Rightarrow> (string \<rightharpoonup> (KafkaTopicChannel \<Rightarrow> string list)) \<Rightarrow> 'c SharedIndexInformer" where
  "NewKafkaTopicChannelInformer client namespace resyncPeriod indexers =
     NewFilteredKafkaTopicChannelInformer client namespace resyncPeriod indexers None"

text \<open>The request of an informer's list and watch function, with the label selector among its options.\<close>

definition ListFunc :: "'c heap \<Rightarrow> 'c SharedIndexInformer \<Rightarrow> ListOptions \<Rightarrow> rest_request \<times> string" where
  "ListFunc hp si options =
     (let options1 = run_tweak hp (si_tweakListOptions si) options
      in (client_List (si_namespace si) (lo_TimeoutSeconds options1), lo_LabelSelector options1))"

definition WatchFunc :: "'c heap \<Rightarrow> 'c SharedIndexInformer \<Rightarrow> ListOptions \<Rightarrow> rest_request \<times> string" where
  "WatchFunc hp si options =
     (let options1 = run_tweak hp (si_tweakListOptions si) options
      in (client_Watch (si_namespace si) (lo_TimeoutSeconds options1), lo_LabelSelector options1))"

text \<open>
  \<open>Messaging()\<close>, \<open>V1alpha1()\<close> and \<open>KafkaTopicChannels()\<close> hand the factory, its namespace and its filter on; the
  three structures have the same fields.
\<close>

record access =
  ac_factory :: nat
  ac_namespace :: string
  ac_tweakListOptions :: "tweak option"

definition messaging_New :: "nat \<Rightarrow> string \<Rightarrow> tweak option \<Rightarrow> access" where
  "messaging_New f namespace tweakListOptions =
     \<lparr>ac_factory = f, ac_namespace = namespace, ac_tweakListOptions = tweakListOptions\<rparr>"

definition version_New :: "nat \<Rightarrow> string \<Rightarrow> tweak option \<Rightarrow> access" where
  "version_New f namespace tweakListOptions =
     \<lparr>ac_factory = f, ac_namespace = namespace, ac_tweakListOptions = tweakListOptions\<rparr>"

definition V1alpha1 :: "access \<Rightarrow> access" where
  "V1alpha1 g = version_New (ac_factory g) (ac_namespace g) (ac_tweakListOptions g)"

definition KafkaTopicChannels :: "access \<Rightarrow> access" where
  "KafkaTopicChannels v =
     \<lparr>ac_factory = ac_factory v, ac_namespace = ac_namespace v, ac_tweakListOptions = ac_tweakListOptions v\<rparr>"

definition Messaging :: "'c heap \<Rightarrow> nat \<Rightarrow> access" where
  "Messaging hp f = messaging_New f (fa_namespace (hp_factories hp f)) (fa_tweakListOptions (hp_factories hp f))"

definition defaultInformer :: "access \<Rightarrow> 'c \<Rightarrow> int64 \<Rightarrow> 'c SharedIndexInformer" where
  "defaultInformer f client resyncPeriod =
     NewFilteredKafkaTopicChannelInformer client (ac_namespace f) resyncPeriod [''namespace'' \<mapsto> MetaNamespaceIndexFunc]
       (ac_tweakListOptions f)"

definition Informer :: "access \<Rightarrow> 'c heap \<Rightarrow> 'c heap \<times> 'c SharedIndexInformer" where
  "Informer f hp =
     (case InformerFor ''KafkaTopicChannel'' (defaultInformer f) (hp_factories hp (ac_factory f)) of
        (factory, si) \<Rightarrow> (hp\<lparr>hp_factories := (hp_factories hp)(ac_factory f := factory)\<rparr>, si))"

text \<open>\<open>ForResource\<close>: the informer of a resource by group, version and name.\<close>

definition ForResource ::
  "nat \<Rightarrow> string \<times> string \<times> string \<Rightarrow> 'c heap \<Rightarrow> 'c heap \<times> (go_error + 'c SharedIndexInformer \<times> string \<times> string)" where
  "ForResource f resource hp =
     (if resource = (GroupName, ''v1alpha1'', resource_name) then
        (case Informer (KafkaTopicChannels (V1alpha1 (Messaging hp f))) hp of
           (hp1, si) \<Rightarrow> (hp1, Inr (si, GroupName, resource_name)))
      else (hp, Inl (ErrorText ''no informer found'')))"

lemma access_simps [simp]:
  "KafkaTopicChannels v = v" "V1alpha1 g = g"
  "ac_factory (Messaging hp f) = f" "ac_namespace (Messaging hp f) = fa_namespace (hp_factories hp f)"
  "ac_tweakListOptions (Messaging hp f) = fa_tweakListOptions (hp_factories hp f)"
  by (simp_all add: KafkaTopicChannels_def V1alpha1_def version_New_def Messaging_def messaging_New_def)

text \<open>
  A second request returns the same informer and changes nothing; other factories and all variables are
  untouched.
\<close>

lemma Informer_again: "Informer f hp = (hp', si) \<Longrightarrow> Informer f' hp' = (hp', si)" if "ac_factory f' = ac_factory f"
  using that by (auto simp: Informer_def InformerFor_def Let_def split: prod.splits option.splits)

lemma Informer_frame:
  assumes "Informer f hp = (hp', si)"
  shows "hp_vars hp' = hp_vars hp" "hp_nextVar hp' = hp_nextVar hp" "hp_nextFactory hp' = hp_nextFactory hp"
    "j \<noteq> ac_factory f \<Longrightarrow> hp_factories hp' j = hp_factories hp j"
    "fa_informers (hp_factories hp (ac_factory f)) ''KafkaTopicChannel'' = None \<Longrightarrow>
       si = defaultInformer f (fa_client (hp_factories hp (ac_factory f)))
         (case fa_customResync (hp_factories hp (ac_factory f)) ''KafkaTopicChannel'' of
            Some d \<Rightarrow> d | None \<Rightarrow> fa_defaultResync (hp_factories hp (ac_factory f)))"
  using assms by (auto simp: Informer_def InformerFor_def Let_def split: prod.splits option.splits)

text \<open>The generic access and the typed one lead to the same informer; unknown resources are refused.\<close>

lemma ForResource_shared:
  "ForResource f (GroupName, ''v1alpha1'', resource_name) hp = (hp', r) \<Longrightarrow>
     \<exists>si. r = Inr (si, GroupName, resource_name) \<and> Informer (Messaging hp' f) hp' = (hp', si)"
  "resource \<noteq> (GroupName, ''v1alpha1'', resource_name) \<Longrightarrow> \<exists>err. ForResource f resource hp = (hp, Inl err)"
proof -
  assume "ForResource f (GroupName, ''v1alpha1'', resource_name) hp = (hp', r)"
  then obtain si where "Informer (Messaging hp f) hp = (hp', si)" "r = Inr (si, GroupName, resource_name)"
    by (auto simp: ForResource_def split: prod.splits)
  then show "\<exists>si. r = Inr (si, GroupName, resource_name) \<and> Informer (Messaging hp' f) hp' = (hp', si)"
    using Informer_again [of "Messaging hp' f" "Messaging hp f" hp hp' si] by simp
qed (simp add: ForResource_def)

end
