(* ===== verification/Injection.thy ===== *)
theory Injection
  imports Informers
begin

text \<open>
  How clients, factories and informers reach the controllers (\<open>pkg/client/injection\<close>): injectors store them in
  a context, which the vendored \<open>SetupInformers\<close> hands through them, and the controllers' constructors look them
  up there. The keys of the context are the fields of a record.
\<close>

section \<open>The context\<close>

text \<open>
  What the other packages that are linked into the programs inject (vendored \<open>knative.dev/pkg\<close> and \<open>knative.dev/eventing\<close>). Of
  these values the context keeps the namespace that a factory or an informer is scoped to, which is empty for
  all namespaces and for clients.
\<close>

datatype injected = EventingClient | KubeClient | DynamicClient | KubeFactory | NamespacedKubeFactory | AddressableDuck |
  DeploymentInformer | EndpointsInformer | PodInformer | ServiceInformer | ServiceAccountInformer | RoleBindingInformer

record 'c go_context =
  cx_config :: "rest_config option"
  cx_namespaceScope :: string
  cx_resyncPeriod :: "int64 option"
  cx_client :: "'c option"
  cx_factory :: "nat option"
  cx_selectors :: "string list option"
  cx_filteredFactories :: "string \<rightharpoonup> nat"
  cx_informer :: "access option"
  cx_filteredInformers :: "string \<rightharpoonup> access"
  cx_values :: "injected \<rightharpoonup> string"

definition GetResyncPeriod :: "'c go_context \<Rightarrow> int64" where
  "GetResyncPeriod ctx = (case cx_resyncPeriod ctx of None \<Rightarrow> 36000000000000 | Some d \<Rightarrow> d)"

text \<open>Every \<open>Get\<close> panics when the context lacks the value.\<close>

definition fetch :: "'a option \<Rightarrow> 'a outcome" where
  "fetch untyped = (case untyped of None \<Rightarrow> Panics | Some v \<Rightarrow> Returns v)"

definition andThen :: "'a outcome \<Rightarrow> ('a \<Rightarrow> 'b outcome) \<Rightarrow> 'b outcome" where
  "andThen x f = (case x of Panics \<Rightarrow> Panics | Returns v \<Rightarrow> f v)"

lemma andThen_simps [simp]: "andThen (Returns v) f = f v" "andThen Panics f = Panics"
  by (simp_all add: andThen_def)

lemma fetch_simps [simp]: "fetch (Some v) = Returns v" "fetch None = Panics"
  by (simp_all add: fetch_def)

section \<open>Injectors\<close>

definition withClient :: "(rest_config \<Rightarrow> 'c outcome) \<Rightarrow> 'c go_context \<Rightarrow> rest_config \<Rightarrow> 'c go_context outcome" where
  "withClient newForConfigOrDie ctx cfg =
     andThen (newForConfigOrDie cfg) (\<lambda>c. Returns (ctx\<lparr>cx_client := Some c\<rparr>))"

definition client_GetFrom :: "'c go_context \<Rightarrow> 'c outcome" where
  "client_GetFrom ctx = fetch (cx_client ctx)"

definition new_factory_at :: "'c informer_factory \<Rightarrow> 'c heap \<Rightarrow> 'c heap \<times> nat" where
  "new_factory_at f hp =
     (hp\<lparr>hp_factories := (hp_factories hp)(hp_nextFactory hp := f), hp_nextFactory := Suc (hp_nextFactory hp)\<rparr>,
      hp_nextFactory hp)"

definition scope_options :: "'c go_context \<Rightarrow> (string, 'c SharedIndexInformer, 'c, tweak) SharedInformerOption list" where
  "scope_options ctx = (if cx_namespaceScope ctx \<noteq> '''' then [WithNamespace (cx_namespaceScope ctx)] else [])"

definition withInformerFactory :: "'c go_context \<Rightarrow> 'c heap \<Rightarrow> ('c go_context \<times> 'c heap) outcome" where
  "withInformerFactory ctx hp =
     andThen (client_GetFrom ctx) (\<lambda>c.
       case new_factory_at (NewSharedInformerFactoryWithOptions c (GetResyncPeriod ctx) (scope_options ctx)) hp of
         (hp1, f) \<Rightarrow> Returns (ctx\<lparr>cx_factory := Some f\<rparr>, hp1))"

definition factory_GetFrom :: "'c go_context \<Rightarrow> nat outcome" where
  "factory_GetFrom ctx = fetch (cx_factory ctx)"

definition withInformer :: "'c go_context \<Rightarrow> 'c heap \<Rightarrow> ('c go_context \<times> 'c heap \<times> 'c SharedIndexInformer) outcome" where
  "withInformer ctx hp =
     andThen (factory_GetFrom ctx) (\<lambda>f.
       let access = KafkaTopicChannels (V1alpha1 (Messaging hp f)) in
       case Informer access hp of (hp1, si) \<Rightarrow> Returns (ctx\<lparr>cx_informer := Some access\<rparr>, hp1, si))"

definition informer_GetFrom :: "'c go_context \<Rightarrow> access outcome" where
  "informer_GetFrom ctx = fetch (cx_informer ctx)"

section \<open>Filtered injectors\<close>

text \<open>
  One factory per label selector. The closure that sets the selector captures the variable of the loop,
  which the loop (Go 1.15) reuses for every element: \<open>a\<close> is its address.
\<close>

definition WithSelectors :: "'c go_context \<Rightarrow> string list \<Rightarrow> 'c go_context" where
  "WithSelectors ctx selectors = ctx\<lparr>cx_selectors := Some selectors\<rparr>"

fun selector_loop :: "nat \<Rightarrow> 'c \<Rightarrow> string list \<Rightarrow> 'c go_context \<Rightarrow> 'c heap \<Rightarrow> 'c go_context \<times> 'c heap" where
  "selector_loop a c [] ctx hp = (ctx, hp)"
| "selector_loop a c (selector # selectors) ctx hp =
     (let hp1 = hp\<lparr>hp_vars := (hp_vars hp)(a := selector)\<rparr>;
          thisOpts = scope_options ctx @ [WithTweakListOptions (SetLabelSelector a)]
      in case new_factory_at (NewSharedInformerFactoryWithOptions c (GetResyncPeriod ctx) thisOpts) hp1 of
           (hp2, f) \<Rightarrow>
             selector_loop a c selectors (ctx\<lparr>cx_filteredFactories := (cx_filteredFactories ctx)(hp_vars hp2 a \<mapsto> f)\<rparr>) hp2)"

definition filtered_withInformerFactory :: "'c go_context \<Rightarrow> 'c heap \<Rightarrow> ('c go_context \<times> 'c heap) outcome" where
  "filtered_withInformerFactory ctx hp =
     andThen (client_GetFrom ctx) (\<lambda>c.
       andThen (fetch (cx_selectors ctx)) (\<lambda>labelSelectors.
         Returns (selector_loop (hp_nextVar hp) c labelSelectors ctx (hp\<lparr>hp_nextVar := Suc (hp_nextVar hp)\<rparr>))))"

definition filtered_factory_GetFrom :: "'c go_context \<Rightarrow> string \<Rightarrow> nat outcome" where
  "filtered_factory_GetFrom ctx selector = fetch (cx_filteredFactories ctx selector)"

fun informer_loop ::
  "string list \<Rightarrow> 'c go_context \<Rightarrow> 'c heap \<Rightarrow> 'c SharedIndexInformer list \<Rightarrow> ('c go_context \<times> 'c heap \<times> 'c SharedIndexInformer list) outcome" where
  "informer_loop [] ctx hp infs = Returns (ctx, hp, infs)"
| "informer_loop (selector # selectors) ctx hp infs =
     andThen (filtered_factory_GetFrom ctx selector) (\<lambda>f.
       let access = KafkaTopicChannels (V1alpha1 (Messaging hp f));
           ctx1 = ctx\<lparr>cx_filteredInformers := (cx_filteredInformers ctx)(selector \<mapsto> access)\<rparr>
       in case Informer access hp of (hp1, si) \<Rightarrow> informer_loop selectors ctx1 hp1 (infs @ [si]))"

definition filtered_withInformer ::
  "'c go_context \<Rightarrow> 'c heap \<Rightarrow> ('c go_context \<times> 'c heap \<times> 'c SharedIndexInformer list) outcome" where
  "filtered_withInformer ctx hp =
     andThen (fetch (cx_selectors ctx)) (\<lambda>labelSelectors. informer_loop labelSelectors ctx hp [])"

definition filtered_informer_GetFrom :: "'c go_context \<Rightarrow> string \<Rightarrow> access outcome" where
  "filtered_informer_GetFrom ctx selector = fetch (cx_filteredInformers ctx selector)"

section \<open>Injectors of other packages\<close>

definition Get_value :: "injected \<Rightarrow> 'c go_context \<Rightarrow> string outcome" where
  "Get_value key ctx = fetch (cx_values ctx key)"

definition put_value :: "injected \<Rightarrow> string \<Rightarrow> 'c go_context \<Rightarrow> 'c go_context" where
  "put_value key v ctx = ctx\<lparr>cx_values := (cx_values ctx)(key \<mapsto> v)\<rparr>"

text \<open>The clients; \<open>newClient\<close> is the construction, which panics on a bad configuration.\<close>

definition other_withClient :: "(injected \<Rightarrow> rest_config \<Rightarrow> unit outcome) \<Rightarrow> injected \<Rightarrow> 'c go_context \<Rightarrow> rest_config \<Rightarrow> 'c go_context outcome" where
  "other_withClient newClient key ctx cfg = andThen (newClient key cfg) (\<lambda>_. Returns (put_value key '''' ctx))"

definition kube_withInformerFactory :: "'c go_context \<Rightarrow> 'c heap \<Rightarrow> ('c go_context \<times> 'c heap) outcome" where
  "kube_withInformerFactory ctx hp =
     andThen (Get_value KubeClient ctx) (\<lambda>_. Returns (put_value KubeFactory (cx_namespaceScope ctx) ctx, hp))"

text \<open>This factory is scoped to the system namespace, \<open>sysns\<close>, which panics if it is not set.\<close>

definition namespacedkube_withInformerFactory :: "string outcome \<Rightarrow> 'c go_context \<Rightarrow> 'c heap \<Rightarrow> ('c go_context \<times> 'c heap) outcome" where
  "namespacedkube_withInformerFactory sysns ctx hp =
     andThen (Get_value KubeClient ctx) (\<lambda>_. andThen sysns (\<lambda>ns. Returns (put_value NamespacedKubeFactory ns ctx, hp)))"

definition addressable_WithDuck :: "'c go_context \<Rightarrow> 'c heap \<Rightarrow> ('c go_context \<times> 'c heap) outcome" where
  "addressable_WithDuck ctx hp = andThen (Get_value DynamicClient ctx) (\<lambda>_. Returns (put_value AddressableDuck '''' ctx, hp))"

text \<open>The informers that are started: the one of the channels, and those of Kubernetes with their kind and namespace.\<close>

datatype 'c any_informer = ChannelInformer "'c SharedIndexInformer" | KubeInformer injected string

definition kube_withInformer :: "injected \<Rightarrow> 'c go_context \<Rightarrow> 'c heap \<Rightarrow> ('c go_context \<times> 'c heap \<times> 'c any_informer) outcome" where
  "kube_withInformer key ctx hp =
     andThen (Get_value KubeFactory ctx) (\<lambda>ns. Returns (put_value key ns ctx, hp, KubeInformer key ns))"

section \<open>The set-up\<close>

text \<open>
  \<open>SetupInformers\<close> runs the registered injectors: first of clients, then of factories, then of ducks, then of informers, then of
  filtered informers, whatever the order in which the packages registered them. The registrations are its
  first arguments.
\<close>

fun inject_clients :: "('c go_context \<Rightarrow> rest_config \<Rightarrow> 'c go_context outcome) list \<Rightarrow> rest_config \<Rightarrow> 'c go_context \<Rightarrow> 'c go_context outcome" where
  "inject_clients [] cfg ctx = Returns ctx"
| "inject_clients (ci # rest) cfg ctx = andThen (ci ctx cfg) (inject_clients rest cfg)"

fun inject_factories ::
  "('c go_context \<Rightarrow> 'c heap \<Rightarrow> ('c go_context \<times> 'c heap) outcome) list \<Rightarrow> 'c go_context \<Rightarrow> 'c heap \<Rightarrow> ('c go_context \<times> 'c heap) outcome" where
  "inject_factories [] ctx hp = Returns (ctx, hp)"
| "inject_factories (ifi # rest) ctx hp = andThen (ifi ctx hp) (\<lambda>(ctx1, hp1). inject_factories rest ctx1 hp1)"

fun inject_informers ::
  "('c go_context \<Rightarrow> 'c heap \<Rightarrow> ('c go_context \<times> 'c heap \<times> 'i list) outcome) list \<Rightarrow>
   'c go_context \<Rightarrow> 'c heap \<Rightarrow> 'i list \<Rightarrow> ('c go_context \<times> 'c heap \<times> 'i list) outcome" where
  "inject_informers [] ctx hp infs = Returns (ctx, hp, infs)"
| "inject_informers (ii # rest) ctx hp infs =
     andThen (ii ctx hp) (\<lambda>(ctx1, hp1, new). inject_informers rest ctx1 hp1 (infs @ new))"

definition SetupInformers where
  "SetupInformers clients factories ducks informers filteredInformers cfg ctx hp =
     andThen (inject_clients clients cfg ctx) (\<lambda>ctx1.
       andThen (inject_factories factories ctx1 hp) (\<lambda>(ctx2, hp2).
         andThen (inject_factories ducks ctx2 hp2) (\<lambda>(ctx3, hp3).
           andThen (inject_informers (map (\<lambda>ii ctx hp. andThen (ii ctx hp) (\<lambda>(c, h, si). Returns (c, h, [si]))) informers) ctx3 hp3 [])
             (\<lambda>(ctx4, hp4, infs). inject_informers filteredInformers ctx4 hp4 infs))))"

section \<open>Main properties\<close>

text \<open>
  What the controllers' constructors find in their context after the set-up with the program's three
  own injectors: the client, and an informer that is the very one that the set-up returns to be started, is the
  one a later request for it gets, lists and watches with this client all channels of the namespace that the
  context is scoped to (of all namespaces without a scope), and indexes by namespace. The set-up panics exactly
  if the client cannot be constructed.
\<close>

lemma injected_informer:
  "SetupInformers [withClient newForConfigOrDie] [withInformerFactory] [] [withInformer] [] cfg ctx hp = Panics \<and>
     newForConfigOrDie cfg = Panics \<or>
   (\<exists>c ctx' hp' access si.
      newForConfigOrDie cfg = Returns c \<and>
      SetupInformers [withClient newForConfigOrDie] [withInformerFactory] [] [withInformer] [] cfg ctx hp = Returns (ctx', hp', [si]) \<and>
      client_GetFrom ctx' = Returns c \<and> informer_GetFrom ctx' = Returns access \<and>
      Informer access hp' = (hp', si) \<and> si_client si = c \<and>
      si_indexers si ''namespace'' = Some MetaNamespaceIndexFunc \<and>
      ListFunc hp' si options = (client_List (cx_namespaceScope ctx) (lo_TimeoutSeconds options), lo_LabelSelector options) \<and>
      WatchFunc hp' si options = (client_Watch (cx_namespaceScope ctx) (lo_TimeoutSeconds options), lo_LabelSelector options))"
  by (cases "newForConfigOrDie cfg")
    (auto simp: SetupInformers_def withClient_def withInformerFactory_def withInformer_def client_GetFrom_def factory_GetFrom_def
      informer_GetFrom_def new_factory_at_def Let_def Informer_def InformerFor_def NewSharedInformerFactoryWithOptions_def
      scope_options_def WithNamespace_def defaultInformer_def NewFilteredKafkaTopicChannelInformer_def ListFunc_def WatchFunc_def)

text \<open>
  The filtered factories as the loop leaves them: one per selector, each with the filter that reads the
  loop's variable, and the variable holds the last selector.
\<close>

definition filtered_at :: "nat \<Rightarrow> 'c go_context \<Rightarrow> 'c heap \<Rightarrow> nat \<Rightarrow> bool" where
  "filtered_at a ctx hp f \<longleftrightarrow> f < hp_nextFactory hp \<and> fa_tweakListOptions (hp_factories hp f) = Some (SetLabelSelector a) \<and>
     fa_informers (hp_factories hp f) = Map.empty \<and> fa_namespace (hp_factories hp f) = cx_namespaceScope ctx"

lemma selector_loop_spec:
  assumes "selector_loop a c ss ctx hp = (ctx', hp')"
    and "\<forall>s \<in> done. \<exists>f. cx_filteredFactories ctx s = Some f \<and> filtered_at a ctx hp f"
  shows "(\<forall>s \<in> done \<union> set ss. \<exists>f. cx_filteredFactories ctx' s = Some f \<and> filtered_at a ctx' hp' f) \<and>
    hp_vars hp' = (if ss = [] then hp_vars hp else (hp_vars hp)(a := last ss)) \<and>
    cx_selectors ctx' = cx_selectors ctx \<and> cx_namespaceScope ctx' = cx_namespaceScope ctx"
  using assms
proof (induction ss arbitrary: ctx hp "done")
  case Nil
  then show ?case by simp
next
  case (Cons s ss)
  let ?fac = "NewSharedInformerFactoryWithOptions c (GetResyncPeriod ctx) (scope_options ctx @ [WithTweakListOptions (SetLabelSelector a)])"
  let ?hp = "hp\<lparr>hp_vars := (hp_vars hp)(a := s), hp_factories := (hp_factories hp)(hp_nextFactory hp := ?fac),
    hp_nextFactory := Suc (hp_nextFactory hp)\<rparr>"
  let ?ctx = "ctx\<lparr>cx_filteredFactories := (cx_filteredFactories ctx)(s \<mapsto> hp_nextFactory hp)\<rparr>"
  have fac: "fa_tweakListOptions ?fac = Some (SetLabelSelector a)" "fa_informers ?fac = Map.empty"
    "fa_namespace ?fac = cx_namespaceScope ctx"
    by (simp_all add: NewSharedInformerFactoryWithOptions_def WithTweakListOptions_def WithNamespace_def scope_options_def)
  have loop: "selector_loop a c ss ?ctx ?hp = (ctx', hp')" using Cons.prems(1) by (simp add: Let_def new_factory_at_def)
  have keep: "filtered_at a ?ctx ?hp f" if "filtered_at a ctx hp f" for f
    using that by (simp add: filtered_at_def)
  have new: "filtered_at a ?ctx ?hp (hp_nextFactory hp)" using fac by (simp add: filtered_at_def)
  have "\<exists>f. cx_filteredFactories ?ctx s' = Some f \<and> filtered_at a ?ctx ?hp f" if "s' \<in> insert s done" for s'
    using that Cons.prems(2) keep new by (cases "s' = s") auto
  then have "\<forall>s' \<in> insert s done. \<exists>f. cx_filteredFactories ?ctx s' = Some f \<and> filtered_at a ?ctx ?hp f" by blast
  from Cons.IH [OF loop this] show ?case by auto
qed

lemma informer_loop_spec:
  assumes "\<forall>s \<in> set ss. \<exists>f. cx_filteredFactories ctx s = Some f"
    and "\<forall>s \<in> set ss. \<forall>f. cx_filteredFactories ctx s = Some f \<longrightarrow> fa_tweakListOptions (hp_factories hp f) = Some tw \<and>
      (\<forall>si. fa_informers (hp_factories hp f) ''KafkaTopicChannel'' = Some si \<longrightarrow> si_tweakListOptions si = Some tw)"
    and "\<forall>si \<in> set infs. si_tweakListOptions si = Some tw"
  shows "\<exists>ctx' hp' infs'. informer_loop ss ctx hp infs = Returns (ctx', hp', infs') \<and> hp_vars hp' = hp_vars hp \<and>
    length infs' = length infs + length ss \<and> (\<forall>si \<in> set infs'. si_tweakListOptions si = Some tw)"
  using assms
proof (induction ss arbitrary: ctx hp infs)
  case Nil
  then show ?case by simp
next
  case (Cons s ss)
  then obtain f where f: "cx_filteredFactories ctx s = Some f" by auto
  let ?ac = "Messaging hp f"
  let ?ctx = "ctx\<lparr>cx_filteredInformers := (cx_filteredInformers ctx)(s \<mapsto> ?ac)\<rparr>"
  obtain hp1 si where i: "Informer ?ac hp = (hp1, si)" by fastforce
  have tw: "fa_tweakListOptions (hp_factories hp f) = Some tw"
    "\<And>si. fa_informers (hp_factories hp f) ''KafkaTopicChannel'' = Some si \<Longrightarrow> si_tweakListOptions si = Some tw"
    using Cons.prems(2) f by auto
  have si: "si_tweakListOptions si = Some tw" and hp1: "hp_vars hp1 = hp_vars hp"
    and fs: "fa_tweakListOptions (hp_factories hp1 g) = fa_tweakListOptions (hp_factories hp g)"
      "fa_informers (hp_factories hp1 g) ''KafkaTopicChannel'' = Some si' \<Longrightarrow>
        si' = si \<or> fa_informers (hp_factories hp g) ''KafkaTopicChannel'' = Some si'" for g si'
    using i tw by (auto simp: Informer_def InformerFor_def Let_def defaultInformer_def NewFilteredKafkaTopicChannelInformer_def
        split: option.splits if_splits)
  have "\<exists>ctx' hp' infs'. informer_loop ss ?ctx hp1 (infs @ [si]) = Returns (ctx', hp', infs') \<and> hp_vars hp' = hp_vars hp1 \<and>
      length infs' = length (infs @ [si]) + length ss \<and> (\<forall>si \<in> set infs'. si_tweakListOptions si = Some tw)"
  proof (rule Cons.IH)
    show "\<forall>s' \<in> set ss. \<exists>g. cx_filteredFactories ?ctx s' = Some g" using Cons.prems(1) by simp
    show "\<forall>s' \<in> set ss. \<forall>g. cx_filteredFactories ?ctx s' = Some g \<longrightarrow> fa_tweakListOptions (hp_factories hp1 g) = Some tw \<and>
        (\<forall>si'. fa_informers (hp_factories hp1 g) ''KafkaTopicChannel'' = Some si' \<longrightarrow> si_tweakListOptions si' = Some tw)"
    proof (intro ballI allI impI conjI)
      fix s' g
      assume "s' \<in> set ss" "cx_filteredFactories ?ctx s' = Some g"
      then have g: "fa_tweakListOptions (hp_factories hp g) = Some tw"
        "\<forall>si. fa_informers (hp_factories hp g) ''KafkaTopicChannel'' = Some si \<longrightarrow> si_tweakListOptions si = Some tw"
        using Cons.prems(2) by simp_all
      show "fa_tweakListOptions (hp_factories hp1 g) = Some tw" using g(1) fs(1) by simp
      fix si'
      assume "fa_informers (hp_factories hp1 g) ''KafkaTopicChannel'' = Some si'"
      with fs(2) g(2) si show "si_tweakListOptions si' = Some tw" by blast
    qed
    show "\<forall>si' \<in> set (infs @ [si]). si_tweakListOptions si' = Some tw" using Cons.prems(3) si by simp
  qed
  then show ?case using i hp1 by (simp add: filtered_factory_GetFrom_def f Let_def)
qed

text \<open>
  The filtered informers do not filter by their own selectors: the closures of all factories read the one
  variable of the loop that created them, so after the set-up every informer, whatever its selector, lists and
  watches the channels that match the last selector.
\<close>

lemma filtered_informers_share_selector:
  assumes "newForConfigOrDie cfg = Returns c" and "selectors \<noteq> []"
  shows "\<exists>ctx' hp' infs.
    SetupInformers [withClient newForConfigOrDie] [filtered_withInformerFactory] [] [] [filtered_withInformer] cfg
        (WithSelectors ctx selectors) hp = Returns (ctx', hp', infs) \<and>
    length infs = length selectors \<and>
    (\<forall>si \<in> set infs. \<forall>options. snd (ListFunc hp' si options) = last selectors \<and> snd (WatchFunc hp' si options) = last selectors)"
proof -
  let ?a = "hp_nextVar hp" and ?ctx = "(WithSelectors ctx selectors)\<lparr>cx_client := Some c\<rparr>"
  obtain ctx1 hp1 where loop: "selector_loop ?a c selectors ?ctx (hp\<lparr>hp_nextVar := Suc ?a\<rparr>) = (ctx1, hp1)" by fastforce
  note spec = selector_loop_spec [OF loop, of "{}"]
  have fs: "\<exists>f. cx_filteredFactories ctx1 s = Some f \<and> filtered_at ?a ctx1 hp1 f" if "s \<in> set selectors" for s
    using spec that by blast
  have last: "hp_vars hp1 ?a = last selectors" "cx_selectors ctx1 = Some selectors"
    using spec assms(2) by (simp_all add: WithSelectors_def)
  have "\<exists>ctx' hp' infs. informer_loop selectors ctx1 hp1 [] = Returns (ctx', hp', infs) \<and> hp_vars hp' = hp_vars hp1 \<and>
      length infs = length ([] :: 'a SharedIndexInformer list) + length selectors \<and>
      (\<forall>si \<in> set infs. si_tweakListOptions si = Some (SetLabelSelector ?a))"
  proof (rule informer_loop_spec)
    show "\<forall>s \<in> set selectors. \<exists>f. cx_filteredFactories ctx1 s = Some f" using fs by blast
    show "\<forall>s \<in> set selectors. \<forall>f. cx_filteredFactories ctx1 s = Some f \<longrightarrow>
        fa_tweakListOptions (hp_factories hp1 f) = Some (SetLabelSelector ?a) \<and>
        (\<forall>si. fa_informers (hp_factories hp1 f) ''KafkaTopicChannel'' = Some si \<longrightarrow> si_tweakListOptions si = Some (SetLabelSelector ?a))"
      using fs by (fastforce simp: filtered_at_def)
  qed simp
  then obtain ctx' hp' infs where inf: "informer_loop selectors ctx1 hp1 [] = Returns (ctx', hp', infs)" "hp_vars hp' = hp_vars hp1"
      "length infs = length selectors" "\<forall>si \<in> set infs. si_tweakListOptions si = Some (SetLabelSelector ?a)" by auto
  have "SetupInformers [withClient newForConfigOrDie] [filtered_withInformerFactory] [] [] [filtered_withInformer] cfg
      (WithSelectors ctx selectors) hp = Returns (ctx', hp', infs)"
    using loop last(2) inf(1)
    by (simp add: SetupInformers_def withClient_def assms(1) filtered_withInformerFactory_def filtered_withInformer_def client_GetFrom_def
        WithSelectors_def)
  moreover have "snd (ListFunc hp' si options) = last selectors \<and> snd (WatchFunc hp' si options) = last selectors"
    if "si \<in> set infs" for si options
    using that inf(2,4) last(1) by (simp add: ListFunc_def WatchFunc_def Let_def)
  ultimately show ?thesis using inf(3) by blast
qed

end
