(* ===== verification/Mains.thy ===== *)
theory Mains
  imports ControllerProcess Injection
begin

text \<open>
  The two main programs (\<open>cmd/channel/kt-channel\<close>) up to the start of the informers: the vendored main function of
  \<open>knative.dev/pkg/injection/sharedmain\<close> sets the rates of the client, runs the injectors that the linked packages have
  registered and calls the constructor of the controller. What the framework sets up in between for itself (logging, the check of the server's version, the
  watch of the configuration maps, the leader election) is an argument that may fail; profiling and what follows the
  constructors are left out. A fatal log entry is a left result, as in \<open>DispatcherProcess\<close>.
\<close>

definition WithNamespaceScope :: "string \<Rightarrow> 'c go_context \<Rightarrow> 'c go_context" where
  "WithNamespaceScope ns ctx = ctx\<lparr>cx_namespaceScope := ns\<rparr>"

text \<open>The rates that \<open>MainWithConfig\<close> and \<open>EnableInjectionOrDie\<close> put for zero values, for \<open>n\<close> controllers.\<close>

definition default_rates :: "nat \<Rightarrow> rest_config \<Rightarrow> rest_config" where
  "default_rates n cfg =
     (let cfg1 = (if rc_QPS cfg = 0 then cfg\<lparr>rc_QPS := of_nat n * 5\<rparr> else cfg)
      in if rc_Burst cfg1 = 0 then cfg1\<lparr>rc_Burst := of_nat n * 10\<rparr> else cfg1)"

section \<open>The registered injectors\<close>

text \<open>
  Every package of clients, factories, ducks or informers that is linked into a program registers its injector once, when it is
  initialised. \<open>injection.Default\<close> keeps them in lists, in the order of the initialisation.
\<close>

datatype client_id = ChannelClient | OtherClient injected

datatype factory_id = ChannelFactory | KubeInformerFactory | NamespacedKubeInformerFactory

datatype duck_id = Addressable

datatype informer_id = ChannelInformers | KubeInformers injected

record registry =
  rg_clients :: "client_id list"
  rg_factories :: "factory_id list"
  rg_ducks :: "duck_id list"
  rg_informers :: "informer_id list"

fun client_injector ::
  "(rest_config \<Rightarrow> 'c outcome) \<Rightarrow> (injected \<Rightarrow> rest_config \<Rightarrow> unit outcome) \<Rightarrow> client_id \<Rightarrow> 'c go_context \<Rightarrow> rest_config \<Rightarrow> 'c go_context outcome" where
  "client_injector newForConfigOrDie newClient ChannelClient = withClient newForConfigOrDie"
| "client_injector newForConfigOrDie newClient (OtherClient key) = other_withClient newClient key"

fun factory_injector :: "string outcome \<Rightarrow> factory_id \<Rightarrow> 'c go_context \<Rightarrow> 'c heap \<Rightarrow> ('c go_context \<times> 'c heap) outcome" where
  "factory_injector sysns ChannelFactory = withInformerFactory"
| "factory_injector sysns KubeInformerFactory = kube_withInformerFactory"
| "factory_injector sysns NamespacedKubeInformerFactory = namespacedkube_withInformerFactory sysns"

fun duck_injector :: "duck_id \<Rightarrow> 'c go_context \<Rightarrow> 'c heap \<Rightarrow> ('c go_context \<times> 'c heap) outcome" where
  "duck_injector Addressable = addressable_WithDuck"

fun informer_injector :: "informer_id \<Rightarrow> 'c go_context \<Rightarrow> 'c heap \<Rightarrow> ('c go_context \<times> 'c heap \<times> 'c any_informer) outcome" where
  "informer_injector ChannelInformers ctx hp = andThen (withInformer ctx hp) (\<lambda>(ctx1, hp1, si). Returns (ctx1, hp1, ChannelInformer si))"
| "informer_injector (KubeInformers key) ctx hp = kube_withInformer key ctx hp"

text \<open>What the imports of the two programs link in, in any order.\<close>

definition controller_registered :: "registry \<Rightarrow> bool" where
  "controller_registered reg \<longleftrightarrow>
     distinct (rg_clients reg) \<and> set (rg_clients reg) = {ChannelClient, OtherClient EventingClient, OtherClient KubeClient, OtherClient DynamicClient} \<and>
     distinct (rg_factories reg) \<and> set (rg_factories reg) = {ChannelFactory, KubeInformerFactory, NamespacedKubeInformerFactory} \<and>
     rg_ducks reg = [Addressable] \<and>
     distinct (rg_informers reg) \<and> set (rg_informers reg) =
       {ChannelInformers, KubeInformers DeploymentInformer, KubeInformers EndpointsInformer, KubeInformers PodInformer,
        KubeInformers ServiceInformer, KubeInformers ServiceAccountInformer, KubeInformers RoleBindingInformer}"

definition dispatcher_registered :: "registry \<Rightarrow> bool" where
  "dispatcher_registered reg \<longleftrightarrow>
     distinct (rg_clients reg) \<and> set (rg_clients reg) = {ChannelClient, OtherClient KubeClient} \<and>
     distinct (rg_factories reg) \<and> set (rg_factories reg) = {ChannelFactory, NamespacedKubeInformerFactory} \<and>
     rg_ducks reg = [] \<and> rg_informers reg = [ChannelInformers]"

section \<open>The main functions\<close>

definition EnableInjectionOrDie ::
  "registry \<Rightarrow> string outcome \<Rightarrow> (rest_config \<Rightarrow> 'c outcome) \<Rightarrow> (injected \<Rightarrow> rest_config \<Rightarrow> unit outcome) \<Rightarrow> rest_config \<Rightarrow> 'c go_context \<Rightarrow> 'c heap \<Rightarrow>
   ('c go_context \<times> 'c heap \<times> 'c any_informer list) outcome" where
  "EnableInjectionOrDie reg sysns newForConfigOrDie newClient cfg ctx hp =
     (let cfg1 = default_rates 1 cfg
      in SetupInformers (map (client_injector newForConfigOrDie newClient) (rg_clients reg)) (map (factory_injector sysns) (rg_factories reg))
           (map duck_injector (rg_ducks reg)) (map informer_injector (rg_informers reg)) [] cfg1 (ctx\<lparr>cx_config := Some cfg1\<rparr>) hp)"

text \<open>
  \<open>framework\<close> is the failure of the framework's own set-up, which begins with reading the logging configuration with the
  Kubernetes client of the context; \<open>ctor\<close> is the constructor of the one controller.
\<close>

definition MainWithConfig ::
  "registry \<Rightarrow> (string \<rightharpoonup> string) \<Rightarrow> go_error option \<Rightarrow> (rest_config \<Rightarrow> 'c outcome) \<Rightarrow> (injected \<Rightarrow> rest_config \<Rightarrow> unit outcome) \<Rightarrow>
   ('c go_context \<Rightarrow> 'c heap \<Rightarrow> (go_error + 'p) outcome) \<Rightarrow> rest_config \<Rightarrow> 'c go_context \<Rightarrow> 'c heap \<Rightarrow>
   (go_error + 'p \<times> 'c heap \<times> 'c any_informer list) outcome" where
  "MainWithConfig reg env framework newForConfigOrDie newClient ctor cfg ctx hp =
     andThen (EnableInjectionOrDie reg (system_Namespace env) newForConfigOrDie newClient (default_rates 1 cfg) ctx hp) (\<lambda>(ctx1, hp1, informers).
       andThen (Get_value KubeClient ctx1) (\<lambda>_.
         case framework of
           Some err \<Rightarrow> Returns (Inl err)
         | None \<Rightarrow>
             andThen (ctor ctx1 hp1) (\<lambda>r.
               Returns (case r of Inl err \<Rightarrow> Inl err | Inr p \<Rightarrow> Inr (p, hp1, informers)))))"

definition controller_main ::
  "registry \<Rightarrow> (string \<rightharpoonup> string) \<Rightarrow> go_error option \<Rightarrow> (rest_config \<Rightarrow> 'c outcome) \<Rightarrow> (injected \<Rightarrow> rest_config \<Rightarrow> unit outcome) \<Rightarrow>
   ('c go_context \<Rightarrow> 'c heap \<Rightarrow> (go_error + 'p) outcome) \<Rightarrow> rest_config \<Rightarrow> 'c go_context \<Rightarrow> 'c heap \<Rightarrow>
   (go_error + 'p \<times> 'c heap \<times> 'c any_informer list) outcome" where
  "controller_main reg env framework newForConfigOrDie newClient newController cfg ctx hp =
     MainWithConfig reg env framework newForConfigOrDie newClient newController cfg ctx hp"

definition dispatcher_main ::
  "registry \<Rightarrow> (string \<rightharpoonup> string) \<Rightarrow> go_error option \<Rightarrow> (rest_config \<Rightarrow> 'c outcome) \<Rightarrow> (injected \<Rightarrow> rest_config \<Rightarrow> unit outcome) \<Rightarrow>
   ('c go_context \<Rightarrow> 'c heap \<Rightarrow> (go_error + 'p) outcome) \<Rightarrow> rest_config \<Rightarrow> 'c go_context \<Rightarrow> 'c heap \<Rightarrow>
   (go_error + 'p \<times> 'c heap \<times> 'c any_informer list) outcome" where
  "dispatcher_main reg env framework newForConfigOrDie newClient newController cfg ctx hp =
     (let ns = Getenv env ''NAMESPACE'';
          ctx1 = (if ns \<noteq> '''' then WithNamespaceScope ns ctx else ctx)
      in MainWithConfig reg env framework newForConfigOrDie newClient newController cfg ctx1 hp)"

section \<open>The constructors\<close>

text \<open>What the generated \<open>NewImpl\<close> takes from the context: the informer, the client, and the Kubernetes client for its recorder of events.\<close>

definition NewImpl_lookups :: "'c go_context \<Rightarrow> access outcome" where
  "NewImpl_lookups ctx =
     andThen (informer_GetFrom ctx) (\<lambda>inf. andThen (client_GetFrom ctx) (\<lambda>_. andThen (Get_value KubeClient ctx) (\<lambda>_. Returns inf)))"

text \<open>
  The constructor of the dispatcher's controller: the process of \<open>DispatcherProcess\<close>, with the informer from the context, which
  is looked up once the configuration has been read; the client is looked up once there is a dispatcher.
\<close>

definition dispatcher_NewController ::
  "go_error option \<Rightarrow> (string \<Rightarrow> go_error + string) \<Rightarrow> (KafkaAuthConfig \<Rightarrow> string option \<Rightarrow> go_error + 'cfg) \<Rightarrow> (string list \<Rightarrow> go_error option) \<Rightarrow>
   go_error option \<Rightarrow> (string \<rightharpoonup> string) \<Rightarrow> 'c go_context \<Rightarrow> 'c heap \<Rightarrow> (go_error + process \<times> access) outcome" where
  "dispatcher_NewController tracing unmarshal build newProducer newReceiver env ctx hp =
     (case tracing of
        Some err \<Rightarrow> Returns (Inl (Wrap ''unable to setup tracing'' err))
      | None \<Rightarrow>
          (case NewConfigFromEnv unmarshal build env of
             Inl err \<Rightarrow> Returns (Inl (Wrap ''unable to create sarama config'' err))
           | Inr _ \<Rightarrow>
               andThen (informer_GetFrom ctx) (\<lambda>kafkaChannelInformer.
                 andThen (start_dispatcher tracing unmarshal build newProducer newReceiver env) (\<lambda>r.
                   case r of
                     Inl err \<Rightarrow> Returns (Inl err)
                   | Inr p \<Rightarrow> andThen (NewImpl_lookups ctx) (\<lambda>_. Returns (Inr (p, kafkaChannelInformer)))))))"

lemma dispatcher_NewController_started:
  assumes "start_dispatcher None unmarshal build newProducer newReceiver env = Returns (Inr p)" "informer_GetFrom ctx = Returns access"
    and "client_GetFrom ctx = Returns c" "Get_value KubeClient ctx = Returns v"
  shows "dispatcher_NewController None unmarshal build newProducer newReceiver env ctx hp = Returns (Inr (p, access))"
proof -
  obtain c where "NewConfigFromEnv unmarshal build env = Inr c" using assms(1) by (auto simp: start_dispatcher_def split: sum.splits)
  then show ?thesis using assms by (simp add: dispatcher_NewController_def NewImpl_lookups_def)
qed

text \<open>
  The constructor of the controller's controller takes all its informers from the context first, then builds the process of
  \<open>ControllerProcess\<close> with the clients of the context.
\<close>

fun Get_informers :: "injected list \<Rightarrow> 'c go_context \<Rightarrow> (injected \<times> string) list outcome" where
  "Get_informers [] ctx = Returns []"
| "Get_informers (key # keys) ctx = andThen (Get_value key ctx) (\<lambda>ns. andThen (Get_informers keys ctx) (\<lambda>infs. Returns ((key, ns) # infs)))"

definition controller_informers :: "injected list" where
  "controller_informers = [DeploymentInformer, EndpointsInformer, ServiceAccountInformer, RoleBindingInformer, ServiceInformer, PodInformer]"

definition controller_NewController ::
  "targetState \<Rightarrow> podState \<Rightarrow> nat \<Rightarrow> (string \<rightharpoonup> string) \<Rightarrow> 'c go_context \<Rightarrow> 'c heap \<Rightarrow>
   (go_error + controller_process \<times> access \<times> (injected \<times> string) list) outcome" where
  "controller_NewController s0 p0 threadiness env ctx hp =
     andThen (informer_GetFrom ctx) (\<lambda>kafkaChannelInformer.
       andThen (Get_informers controller_informers ctx) (\<lambda>informers.
         andThen (Get_value KubeClient ctx) (\<lambda>_.
           andThen (client_GetFrom ctx) (\<lambda>_.
             andThen (Get_value EventingClient ctx) (\<lambda>_.
               andThen (NewController s0 p0 threadiness env) (\<lambda>cp.
                 andThen (NewImpl_lookups ctx) (\<lambda>_. Returns (Inr (cp, kafkaChannelInformer, informers)))))))))"

section \<open>What the injection leaves in the context\<close>

lemma clients_injected:
  assumes "newForConfigOrDie cfg = Returns c" "\<And>key. newClient key cfg = Returns ()"
  shows "inject_clients (map (client_injector newForConfigOrDie newClient) ids) cfg ctx =
    Returns (ctx\<lparr>cx_client := (if ChannelClient \<in> set ids then Some c else cx_client ctx),
      cx_values := (\<lambda>key. if OtherClient key \<in> set ids then Some '''' else cx_values ctx key)\<rparr>)"
proof (induction ids arbitrary: ctx)
  case (Cons i ids)
  show ?case using assms
    by (cases i) (auto simp: Cons.IH withClient_def other_withClient_def put_value_def intro!: arg_cong [where f = "\<lambda>v. ctx\<lparr>cx_client := _, cx_values := v\<rparr>"] go_context.equality)
qed (simp add: go_context.equality)

lemma factories_append:
  "inject_factories (xs @ ys) ctx hp = andThen (inject_factories xs ctx hp) (\<lambda>(ctx1, hp1). inject_factories ys ctx1 hp1)"
  by (induction xs arbitrary: ctx hp) (auto simp: andThen_def split: outcome.split prod.split)

lemma informers_append:
  "inject_informers (xs @ ys) ctx hp infs = andThen (inject_informers xs ctx hp infs) (\<lambda>(ctx1, hp1, infs1). inject_informers ys ctx1 hp1 infs1)"
  by (induction xs arbitrary: ctx hp infs) (auto simp: andThen_def split: outcome.split prod.split)

text \<open>The values that the factories of Kubernetes leave.\<close>

definition factory_values :: "factory_id set \<Rightarrow> string \<Rightarrow> string \<Rightarrow> (injected \<rightharpoonup> string) \<Rightarrow> injected \<rightharpoonup> string" where
  "factory_values fs scope ns vals key =
     (if key = KubeFactory \<and> KubeInformerFactory \<in> fs then Some scope
      else if key = NamespacedKubeFactory \<and> NamespacedKubeInformerFactory \<in> fs then Some ns else vals key)"

lemma other_factories_injected:
  assumes "sysns = Returns ns" "ChannelFactory \<notin> set fs" "cx_values ctx KubeClient \<noteq> None"
  shows "inject_factories (map (factory_injector sysns) fs) ctx hp =
    Returns (ctx\<lparr>cx_values := factory_values (set fs) (cx_namespaceScope ctx) ns (cx_values ctx)\<rparr>, hp)"
  using assms(2,3)
proof (induction fs arbitrary: ctx)
  case (Cons f fs)
  have ih: "inject_factories (map (factory_injector sysns) fs) (put_value k v ctx) hp =
      Returns ((put_value k v ctx)\<lparr>cx_values := factory_values (set fs) (cx_namespaceScope ctx) ns (cx_values (put_value k v ctx))\<rparr>, hp)" for k v
    by (rule trans [OF Cons.IH]) (use Cons.prems in \<open>simp_all add: put_value_def fun_upd_def\<close>)
  obtain k v where kv: "factory_injector sysns f ctx hp = Returns (put_value k v ctx, hp)"
    "\<And>vals. factory_values (set fs) (cx_namespaceScope ctx) ns (vals(k \<mapsto> v)) = factory_values (insert f (set fs)) (cx_namespaceScope ctx) ns vals"
  proof (cases f)
    case KubeInformerFactory
    show ?thesis by (rule that [of KubeFactory "cx_namespaceScope ctx"])
      (use Cons.prems in \<open>auto simp: KubeInformerFactory kube_withInformerFactory_def Get_value_def factory_values_def fun_eq_iff\<close>)
  next
    case NamespacedKubeInformerFactory
    show ?thesis by (rule that [of NamespacedKubeFactory ns])
      (use Cons.prems assms(1) in \<open>auto simp: NamespacedKubeInformerFactory namespacedkube_withInformerFactory_def Get_value_def factory_values_def fun_eq_iff\<close>)
  qed (use Cons.prems in simp)
  have "inject_factories (map (factory_injector sysns) (f # fs)) ctx hp = inject_factories (map (factory_injector sysns) fs) (put_value k v ctx) hp"
    by (simp add: kv(1))
  then show ?case unfolding ih by (simp add: put_value_def kv(2) [symmetric])
qed (simp add: go_context.equality factory_values_def fun_eq_iff)

text \<open>The factory of the channels, whatever is registered before and after it.\<close>

lemma factories_injected:
  assumes "sysns = Returns ns" "distinct fs" "ChannelFactory \<in> set fs" "cx_values ctx KubeClient \<noteq> None" "cx_client ctx = Some c"
  shows "inject_factories (map (factory_injector sysns) fs) ctx hp =
    Returns (ctx\<lparr>cx_factory := Some (hp_nextFactory hp), cx_values := factory_values (set fs) (cx_namespaceScope ctx) ns (cx_values ctx)\<rparr>,
      fst (new_factory_at (NewSharedInformerFactoryWithOptions c (GetResyncPeriod ctx) (scope_options ctx)) hp))"
proof -
  obtain xs ys where fs: "fs = xs @ ChannelFactory # ys" using split_list [OF assms(3)] by blast
  then have n: "ChannelFactory \<notin> set xs" "ChannelFactory \<notin> set ys" using assms(2) by simp_all
  let ?ctx1 = "ctx\<lparr>cx_values := factory_values (set xs) (cx_namespaceScope ctx) ns (cx_values ctx)\<rparr>"
  let ?hp = "fst (new_factory_at (NewSharedInformerFactoryWithOptions c (GetResyncPeriod ctx) (scope_options ctx)) hp)"
  let ?ctx2 = "?ctx1\<lparr>cx_factory := Some (hp_nextFactory hp)\<rparr>"
  have f: "withInformerFactory ?ctx1 hp = Returns (?ctx2, ?hp)"
    using assms(5) by (simp add: withInformerFactory_def client_GetFrom_def new_factory_at_def GetResyncPeriod_def scope_options_def)
  have "cx_values ?ctx2 KubeClient \<noteq> None" using assms(4) by (simp add: factory_values_def)
  note y = other_factories_injected [OF assms(1) n(2) this, of ?hp]
  have v: "factory_values (set ys) scope ns (factory_values (set xs) scope ns vals) = factory_values (set fs) scope ns vals" for scope vals
    by (auto simp: factory_values_def fun_eq_iff fs)
  have "inject_factories (map (factory_injector sysns) fs) ctx hp = inject_factories (map (factory_injector sysns) ys) ?ctx2 ?hp"
    using other_factories_injected [OF assms(1) n(1) assms(4), of hp] f by (simp add: fs factories_append)
  then show ?thesis unfolding y by (simp add: v)
qed

lemma ducks_injected:
  assumes "ds = [] \<or> cx_values ctx DynamicClient \<noteq> None"
  shows "inject_factories (map duck_injector ds) ctx hp = Returns (ctx\<lparr>cx_values := (if ds = [] then cx_values ctx else (cx_values ctx)(AddressableDuck \<mapsto> ''''))\<rparr>, hp)"
  using assms
proof (induction ds arbitrary: ctx)
  case (Cons d ds)
  have "inject_factories (map duck_injector ds) (put_value AddressableDuck '''' ctx) hp =
      Returns ((put_value AddressableDuck '''' ctx)\<lparr>cx_values := (if ds = [] then cx_values (put_value AddressableDuck '''' ctx)
        else (cx_values (put_value AddressableDuck '''' ctx))(AddressableDuck \<mapsto> ''''))\<rparr>, hp)"
    by (rule Cons.IH) (use Cons.prems in \<open>simp add: put_value_def\<close>)
  then show ?case using Cons.prems by (cases d) (auto simp: addressable_WithDuck_def Get_value_def put_value_def fun_eq_iff)
qed simp

abbreviation single :: "('c go_context \<Rightarrow> 'c heap \<Rightarrow> ('c go_context \<times> 'c heap \<times> 'i) outcome) \<Rightarrow> 'c go_context \<Rightarrow> 'c heap \<Rightarrow> ('c go_context \<times> 'c heap \<times> 'i list) outcome" where
  "single ii \<equiv> \<lambda>ctx hp. andThen (ii ctx hp) (\<lambda>(c, h, si). Returns (c, h, [si]))"

lemma kube_informers_injected:
  assumes "keys = [] \<or> cx_values ctx KubeFactory = Some ns"
  shows "inject_informers (map single (map informer_injector (map KubeInformers keys))) ctx hp infs =
    Returns (ctx\<lparr>cx_values := (\<lambda>key. if key \<in> set keys then Some ns else cx_values ctx key)\<rparr>, hp, infs @ map (\<lambda>key. KubeInformer key ns) keys)"
  using assms
proof (induction keys arbitrary: ctx infs)
  case (Cons k keys)
  have "inject_informers (map single (map informer_injector (map KubeInformers keys))) (put_value k ns ctx) hp (infs @ [KubeInformer k ns]) =
      Returns ((put_value k ns ctx)\<lparr>cx_values := (\<lambda>key. if key \<in> set keys then Some ns else cx_values (put_value k ns ctx) key)\<rparr>, hp,
        (infs @ [KubeInformer k ns]) @ map (\<lambda>key. KubeInformer key ns) keys)"
    by (rule Cons.IH) (use Cons.prems in \<open>simp add: put_value_def\<close>)
  moreover have "kube_withInformer k ctx hp = Returns (put_value k ns ctx, hp, KubeInformer k ns)"
    using Cons.prems by (simp add: kube_withInformer_def Get_value_def)
  ultimately show ?case by (simp add: put_value_def) (auto simp: put_value_def fun_eq_iff intro!: go_context.equality)
qed simp

lemma kube_ids: "ChannelInformers \<notin> set ids \<Longrightarrow> \<exists>keys. ids = map KubeInformers keys"
proof (induction ids)
  case (Cons i ids)
  then obtain keys where "ids = map KubeInformers keys" by auto
  moreover obtain k where "i = KubeInformers k" using Cons.prems by (cases i) auto
  ultimately show ?case by (intro exI [of _ "k # keys"]) simp
qed simp

text \<open>The informer that the factory of the channels makes first.\<close>

lemma channel_informer:
  assumes "cx_factory ctx = Some (hp_nextFactory hp)"
    and "hp1 = fst (new_factory_at (NewSharedInformerFactoryWithOptions c d (if scope = '''' then [] else [WithNamespace scope])) hp)"
  shows "\<exists>hp2 access si. withInformer ctx hp1 = Returns (ctx\<lparr>cx_informer := Some access\<rparr>, hp2, si) \<and> Informer access hp2 = (hp2, si) \<and>
    (\<forall>options. ListFunc hp2 si options = (client_List scope (lo_TimeoutSeconds options), lo_LabelSelector options) \<and>
       WatchFunc hp2 si options = (client_Watch scope (lo_TimeoutSeconds options), lo_LabelSelector options))"
proof -
  let ?access = "Messaging hp1 (hp_nextFactory hp)"
  obtain hp2 si where i: "Informer ?access hp1 = (hp2, si)" by fastforce
  have f: "fa_client (hp_factories hp1 (hp_nextFactory hp)) = c" "fa_namespace (hp_factories hp1 (hp_nextFactory hp)) = scope"
    "fa_tweakListOptions (hp_factories hp1 (hp_nextFactory hp)) = None" "fa_informers (hp_factories hp1 (hp_nextFactory hp)) = Map.empty"
    by (simp_all add: assms(2) new_factory_at_def NewSharedInformerFactoryWithOptions_def WithNamespace_def)
  have "Informer ?access hp2 = (hp2, si)" using i f by (auto simp: Informer_def InformerFor_def Let_def)
  moreover have "ListFunc hp2 si options = (client_List scope (lo_TimeoutSeconds options), lo_LabelSelector options) \<and>
      WatchFunc hp2 si options = (client_Watch scope (lo_TimeoutSeconds options), lo_LabelSelector options)" for options
    using i f by (auto simp: Informer_def InformerFor_def Let_def defaultInformer_def NewFilteredKafkaTopicChannelInformer_def ListFunc_def WatchFunc_def)
  moreover have "withInformer ctx hp1 = Returns (ctx\<lparr>cx_informer := Some ?access\<rparr>, hp2, si)"
    using assms(1) i by (simp add: withInformer_def factory_GetFrom_def Let_def)
  ultimately show ?thesis by blast
qed

lemma informers_injected:
  assumes "distinct ids" "ChannelInformers \<in> set ids" "\<forall>k. KubeInformers k \<in> set ids \<longrightarrow> cx_values ctx KubeFactory = Some ns"
    and "cx_factory ctx = Some (hp_nextFactory hp)"
    and "hp1 = fst (new_factory_at (NewSharedInformerFactoryWithOptions c d (if scope = '''' then [] else [WithNamespace scope])) hp)"
  shows "\<exists>hp2 access si infs. inject_informers (map single (map informer_injector ids)) ctx hp1 [] =
      Returns (ctx\<lparr>cx_informer := Some access, cx_values := (\<lambda>k. if KubeInformers k \<in> set ids then Some ns else cx_values ctx k)\<rparr>, hp2, infs) \<and>
    set infs = insert (ChannelInformer si) ((\<lambda>k. KubeInformer k ns) ` {k. KubeInformers k \<in> set ids}) \<and> length infs = length ids \<and>
    Informer access hp2 = (hp2, si) \<and>
    (\<forall>options. ListFunc hp2 si options = (client_List scope (lo_TimeoutSeconds options), lo_LabelSelector options) \<and>
       WatchFunc hp2 si options = (client_Watch scope (lo_TimeoutSeconds options), lo_LabelSelector options))"
proof -
  obtain xs' ys' where ids': "ids = xs' @ ChannelInformers # ys'" using split_list [OF assms(2)] by blast
  then have "ChannelInformers \<notin> set xs'" "ChannelInformers \<notin> set ys'" using assms(1) by simp_all
  then obtain xs ys where ids: "ids = map KubeInformers xs @ ChannelInformers # map KubeInformers ys" using kube_ids ids' by metis
  let ?ctx1 = "ctx\<lparr>cx_values := (\<lambda>k. if k \<in> set xs then Some ns else cx_values ctx k)\<rparr>"
  have x: "xs = [] \<or> cx_values ctx KubeFactory = Some ns" using assms(3) by (cases xs) (auto simp: ids)
  have "cx_factory ?ctx1 = Some (hp_nextFactory hp)" using assms(4) by simp
  from channel_informer [OF this assms(5)] obtain hp2 access si where i: "withInformer ?ctx1 hp1 = Returns (?ctx1\<lparr>cx_informer := Some access\<rparr>, hp2, si)"
    "Informer access hp2 = (hp2, si)"
    "\<forall>options. ListFunc hp2 si options = (client_List scope (lo_TimeoutSeconds options), lo_LabelSelector options) \<and>
       WatchFunc hp2 si options = (client_Watch scope (lo_TimeoutSeconds options), lo_LabelSelector options)" by blast
  have y: "ys = [] \<or> cx_values (?ctx1\<lparr>cx_informer := Some access\<rparr>) KubeFactory = Some ns" using assms(3) by (cases ys) (auto simp: ids)
  have "inject_informers (map single (map informer_injector ids)) ctx hp1 [] =
      inject_informers (map single (map informer_injector (map KubeInformers ys))) (?ctx1\<lparr>cx_informer := Some access\<rparr>) hp2
        (map (\<lambda>k. KubeInformer k ns) xs @ [ChannelInformer si])"
    using kube_informers_injected [OF x, of hp1 "[]"] i(1) by (simp add: ids informers_append del: map_map)
  also have "\<dots> = Returns (ctx\<lparr>cx_informer := Some access, cx_values := (\<lambda>k. if KubeInformers k \<in> set ids then Some ns else cx_values ctx k)\<rparr>, hp2,
      (map (\<lambda>k. KubeInformer k ns) xs @ [ChannelInformer si]) @ map (\<lambda>k. KubeInformer k ns) ys)"
    unfolding kube_informers_injected [OF y] by (auto simp: ids fun_eq_iff intro!: go_context.equality)
  finally have r: "inject_informers (map single (map informer_injector ids)) ctx hp1 [] =
      Returns (ctx\<lparr>cx_informer := Some access, cx_values := (\<lambda>k. if KubeInformers k \<in> set ids then Some ns else cx_values ctx k)\<rparr>, hp2,
      (map (\<lambda>k. KubeInformer k ns) xs @ [ChannelInformer si]) @ map (\<lambda>k. KubeInformer k ns) ys)" .
  have "{k. KubeInformers k \<in> set ids} = set xs \<union> set ys" by (auto simp: ids)
  then have "set ((map (\<lambda>k. KubeInformer k ns) xs @ [ChannelInformer si]) @ map (\<lambda>k. KubeInformer k ns) ys) =
      insert (ChannelInformer si) ((\<lambda>k. KubeInformer k ns) ` {k. KubeInformers k \<in> set ids})"
    by (simp add: image_Un)
  moreover have "length ((map (\<lambda>k. KubeInformer k ns) xs @ [ChannelInformer si]) @ map (\<lambda>k. KubeInformer k ns) ys) = length ids" by (simp add: ids)
  ultimately show ?thesis using r i(2,3) by blast
qed

text \<open>
  What a constructor finds after the injection of a program that links the client, the factory and the informer of the channels, in
  whatever order the packages have registered: every client, and every informer, which is scoped as the context is and is
  among those that will be started.
\<close>

definition self_contained :: "registry \<Rightarrow> bool" where
  "self_contained reg \<longleftrightarrow>
     ChannelClient \<in> set (rg_clients reg) \<and> OtherClient KubeClient \<in> set (rg_clients reg) \<and>
     distinct (rg_factories reg) \<and> ChannelFactory \<in> set (rg_factories reg) \<and>
     (rg_ducks reg = [] \<or> OtherClient DynamicClient \<in> set (rg_clients reg)) \<and>
     distinct (rg_informers reg) \<and> ChannelInformers \<in> set (rg_informers reg) \<and>
     (\<forall>key. KubeInformers key \<in> set (rg_informers reg) \<longrightarrow> KubeInformerFactory \<in> set (rg_factories reg))"

lemma registered_self_contained: "controller_registered reg \<Longrightarrow> self_contained reg" "dispatcher_registered reg \<Longrightarrow> self_contained reg"
  by (simp_all add: controller_registered_def dispatcher_registered_def self_contained_def)

definition well_injected :: "registry \<Rightarrow> string \<Rightarrow> 'c go_context \<Rightarrow> 'c heap \<Rightarrow> access \<Rightarrow> 'c SharedIndexInformer \<Rightarrow> 'c any_informer list \<Rightarrow> bool" where
  "well_injected reg scope ctx hp access si infs \<longleftrightarrow>
     (\<exists>c. client_GetFrom ctx = Returns c) \<and> informer_GetFrom ctx = Returns access \<and> Informer access hp = (hp, si) \<and>
     (\<forall>key. KubeInformers key \<in> set (rg_informers reg) \<longrightarrow> Get_value key ctx = Returns scope) \<and>
     (\<forall>key. OtherClient key \<in> set (rg_clients reg) \<longrightarrow> (\<exists>v. Get_value key ctx = Returns v)) \<and>
     set infs = insert (ChannelInformer si) ((\<lambda>key. KubeInformer key scope) ` {key. KubeInformers key \<in> set (rg_informers reg)}) \<and>
     length infs = length (rg_informers reg) \<and>
     (\<forall>options. ListFunc hp si options = (client_List scope (lo_TimeoutSeconds options), lo_LabelSelector options) \<and>
        WatchFunc hp si options = (client_Watch scope (lo_TimeoutSeconds options), lo_LabelSelector options))"

lemma well_injectedD:
  assumes "well_injected reg scope ctx hp access si infs"
  shows "\<exists>c. client_GetFrom ctx = Returns c" "informer_GetFrom ctx = Returns access"
    "OtherClient key \<in> set (rg_clients reg) \<Longrightarrow> \<exists>v. Get_value key ctx = Returns v"
    "KubeInformers key \<in> set (rg_informers reg) \<Longrightarrow> Get_value key ctx = Returns scope"
  using assms by (simp_all add: well_injected_def)

lemma injected:
  assumes "self_contained reg" "sysns = Returns ns" "\<And>cfg. \<exists>c. newForConfigOrDie cfg = Returns c" "\<And>key cfg. newClient key cfg = Returns ()"
  shows "\<exists>ctx' hp' access si infs. EnableInjectionOrDie reg sysns newForConfigOrDie newClient cfg ctx hp = Returns (ctx', hp', infs) \<and>
    well_injected reg (cx_namespaceScope ctx) ctx' hp' access si infs"
proof -
  let ?cfg = "default_rates 1 cfg" and ?scope = "cx_namespaceScope ctx"
  obtain c where c: "newForConfigOrDie ?cfg = Returns c" using assms(3) by blast
  note r = assms(1) [unfolded self_contained_def]
  let ?ctx0 = "ctx\<lparr>cx_config := Some ?cfg\<rparr>"
  let ?ctx1 = "?ctx0\<lparr>cx_client := Some c, cx_values := (\<lambda>key. if OtherClient key \<in> set (rg_clients reg) then Some '''' else cx_values ?ctx0 key)\<rparr>"
  have 1: "inject_clients (map (client_injector newForConfigOrDie newClient) (rg_clients reg)) ?cfg ?ctx0 = Returns ?ctx1"
    unfolding clients_injected [where newForConfigOrDie = newForConfigOrDie and newClient = newClient, OF c assms(4)] by (simp only: r [THEN conjunct1] if_True)
  let ?hp = "fst (new_factory_at (NewSharedInformerFactoryWithOptions c (GetResyncPeriod ?ctx1) (scope_options ?ctx1)) hp)"
  let ?ctx2 = "?ctx1\<lparr>cx_factory := Some (hp_nextFactory hp), cx_values := factory_values (set (rg_factories reg)) ?scope ns (cx_values ?ctx1)\<rparr>"
  have 2: "inject_factories (map (factory_injector sysns) (rg_factories reg)) ?ctx1 hp = Returns (?ctx2, ?hp)"
    using factories_injected [OF assms(2), of "rg_factories reg" ?ctx1 c hp] r by simp
  let ?ctx3 = "?ctx2\<lparr>cx_values := (if rg_ducks reg = [] then cx_values ?ctx2 else (cx_values ?ctx2)(AddressableDuck \<mapsto> ''''))\<rparr>"
  have 3: "inject_factories (map duck_injector (rg_ducks reg)) ?ctx2 ?hp = Returns (?ctx3, ?hp)"
    by (rule ducks_injected) (use r in \<open>auto simp: factory_values_def\<close>)
  have k: "\<forall>key. KubeInformers key \<in> set (rg_informers reg) \<longrightarrow> cx_values ?ctx3 KubeFactory = Some ?scope"
    using r by (simp add: factory_values_def)
  have f: "cx_factory ?ctx3 = Some (hp_nextFactory hp)" by simp
  have h: "?hp = fst (new_factory_at (NewSharedInformerFactoryWithOptions c (GetResyncPeriod ?ctx1) (if ?scope = '''' then [] else [WithNamespace ?scope])) hp)"
    by (simp add: scope_options_def)
  have d: "distinct (rg_informers reg)" "ChannelInformers \<in> set (rg_informers reg)" using r by simp_all
  obtain hp2 access si infs where 4: "inject_informers (map single (map informer_injector (rg_informers reg))) ?ctx3 ?hp [] =
      Returns (?ctx3\<lparr>cx_informer := Some access, cx_values := (\<lambda>k. if KubeInformers k \<in> set (rg_informers reg) then Some ?scope else cx_values ?ctx3 k)\<rparr>, hp2, infs)"
      (is "_ = Returns (?ctx4, _, _)")
    and i: "set infs = insert (ChannelInformer si) ((\<lambda>k. KubeInformer k ?scope) ` {k. KubeInformers k \<in> set (rg_informers reg)})" "length infs = length (rg_informers reg)"
      "Informer access hp2 = (hp2, si)"
      "\<forall>options. ListFunc hp2 si options = (client_List ?scope (lo_TimeoutSeconds options), lo_LabelSelector options) \<and>
         WatchFunc hp2 si options = (client_Watch ?scope (lo_TimeoutSeconds options), lo_LabelSelector options)"
    using informers_injected [OF d k f h] by blast
  have "EnableInjectionOrDie reg sysns newForConfigOrDie newClient cfg ctx hp = Returns (?ctx4, hp2, infs)"
    unfolding EnableInjectionOrDie_def Let_def SetupInformers_def 1 andThen_simps 2 prod.case 3 4 by simp
  moreover have "client_GetFrom ?ctx4 = Returns c" "informer_GetFrom ?ctx4 = Returns access" by (simp_all add: client_GetFrom_def informer_GetFrom_def)
  moreover have "Get_value key ?ctx4 = Returns ?scope" if "KubeInformers key \<in> set (rg_informers reg)" for key
    using that by (simp add: Get_value_def)
  moreover have "\<exists>v. Get_value key ?ctx4 = Returns v" if "OtherClient key \<in> set (rg_clients reg)" for key
    using that by (auto simp: Get_value_def factory_values_def)
  ultimately show ?thesis using i unfolding well_injected_def by blast
qed

lemma Get_informers_all:
  assumes "\<forall>key \<in> set keys. Get_value key ctx = Returns ns"
  shows "Get_informers keys ctx = Returns (map (\<lambda>key. (key, ns)) keys)"
  using assms by (induction keys) simp_all

section \<open>Main property\<close>

text \<open>
  C25: The two programs come up together and watch where they should, in whatever order the packages that they link have
  registered their injectors. The controller program, whose environment has its namespace and the image of the dispatcher, comes
  up with them; it finds its six informers of Kubernetes and the one of the channels, each of which lists and watches
  all namespaces and is among those that will be started. The dispatcher program that it deploys, started in the environment
  that its container gets as the API documents it, takes the channel's bootstrap servers and topic; its one informer lists and watches
  the channels of the namespace that its pod runs in and of no other, and it handles the additions, updates and deletions of exactly
  the channel it was deployed for. Only Kafka, a bad Sarama configuration, a client that cannot be made or the set-up of the framework
  and its tracing can keep it from starting, and a \<open>$\<close> in what the controller writes, which would start a reference.
\<close>

theorem programs_come_up:
  assumes "documented_env secret field base container_env" and "base_ok base"
    and "da_DispatcherScope args = ''namespace''" and "field ''metadata.name'' \<noteq> ''''" and "field ''metadata.namespace'' \<noteq> ''''"
    and "sp_BootstrapServers (kc_Spec (da_Channel args)) \<noteq> []"
    and "\<forall>w \<in> set (sp_BootstrapServers (kc_Spec (da_Channel args))). CHR '','' \<notin> set w \<and> CHR ''$'' \<notin> set w"
    and "\<exists>w \<in> set (sp_BootstrapServers (kc_Spec (da_Channel args))). \<not> list_all is_space w"
    and "CHR ''$'' \<notin> set (sp_Topic (kc_Spec (da_Channel args)))"
    and "kc_Namespace (da_Channel args) \<noteq> ''''" and "CHR ''$'' \<notin> set (kc_Namespace (da_Channel args) @ kc_Name (da_Channel args))"
    and "\<And>auth. \<exists>cfg. build auth None = Inr cfg" and "newProducer (sp_BootstrapServers (kc_Spec (da_Channel args))) = None"
    and "env = container_env (ct_Env (hd (dp_Containers (MakeDispatcher args))))"
    and "\<And>cfg. \<exists>c. newForConfigOrDie cfg = Returns c" and "\<And>key cfg. newClient key cfg = Returns ()" and "cx_namespaceScope ctx = ''''"
    and "controller_registered creg" and "dispatcher_registered dreg"
    and "system_Namespace cenv = Returns ns" and "cenv ''DISPATCHER_IMAGE'' = Some img"
  shows "(\<exists>cp access infs hp' si started.
      controller_main creg cenv None newForConfigOrDie newClient (controller_NewController s0 p0 threadiness cenv) cfg ctx hp =
        Returns (Inr ((cp, access, infs), hp', started)) \<and>
      cp_systemNamespace cp = ns \<and> cp_dispatcherImage cp = img \<and>
      infs = map (\<lambda>key. (key, '''')) controller_informers \<and> Informer access hp' = (hp', si) \<and>
      set started = insert (ChannelInformer si) ((\<lambda>(key, scope). KubeInformer key scope) ` set infs) \<and> length started = 7 \<and>
      (\<forall>options. fst (ListFunc hp' si options) = client_List '''' (lo_TimeoutSeconds options) \<and>
         fst (WatchFunc hp' si options) = client_Watch '''' (lo_TimeoutSeconds options))) \<and>
    (\<exists>p access hp' si.
      dispatcher_main dreg env None newForConfigOrDie newClient (dispatcher_NewController None unmarshal build newProducer None env) cfg ctx hp =
        Returns (Inr ((p, access), hp', [ChannelInformer si])) \<and>
      pr_brokers p = sp_BootstrapServers (kc_Spec (da_Channel args)) \<and> TopicName env = sp_Topic (kc_Spec (da_Channel args)) \<and>
      (\<forall>kc. pr_event p (OnAdd (ChannelObject kc)) = (if kc_ref kc = kc_ref (da_Channel args) then Enqueue kc else Ignore)) \<and>
      (\<forall>old new. pr_event p (OnUpdate (ChannelObject old) (ChannelObject new)) =
         (if kc_ref new = kc_ref (da_Channel args) then Enqueue new else if kc_ref old = kc_ref (da_Channel args) then CleanUp old else Ignore)) \<and>
      (\<forall>kc. pr_event p (OnDelete (ChannelObject kc)) = (if kc_ref kc = kc_ref (da_Channel args) then CleanUp kc else Ignore)) \<and>
      (\<forall>kc. pr_event p (OnDelete (Tombstone kc)) = Ignore) \<and>
      Informer access hp' = (hp', si) \<and>
      (\<forall>options. fst (ListFunc hp' si options) = client_List (field ''metadata.namespace'') (lo_TimeoutSeconds options) \<and>
         fst (WatchFunc hp' si options) = client_Watch (field ''metadata.namespace'') (lo_TimeoutSeconds options)))"
    (is "?controller \<and> ?dispatcher")
proof
  have s: "self_contained creg" using registered_self_contained(1) assms(18) by blast
  have reg: "{key. KubeInformers key \<in> set (rg_informers creg)} = set controller_informers" "length (rg_informers creg) = 7"
    "OtherClient KubeClient \<in> set (rg_clients creg)" "OtherClient EventingClient \<in> set (rg_clients creg)"
  proof -
    show "length (rg_informers creg) = 7" using assms(18) distinct_card [of "rg_informers creg"] by (simp add: controller_registered_def)
  qed (use assms(18) in \<open>auto simp: controller_registered_def controller_informers_def\<close>)
  note inj = injected [where newForConfigOrDie = newForConfigOrDie and newClient = newClient and sysns = "system_Namespace cenv" and ns = ns, OF s assms(20) assms(15,16)]
  obtain ctx' hp' access si infs where
      e: "EnableInjectionOrDie creg (system_Namespace cenv) newForConfigOrDie newClient (default_rates 1 cfg) ctx hp = Returns (ctx', hp', infs)"
      and w: "well_injected creg '''' ctx' hp' access si infs"
    using inj [where cfg = "default_rates 1 cfg" and ctx = ctx and hp = hp] unfolding assms(17) by blast
  obtain c v v' where i: "client_GetFrom ctx' = Returns c" "informer_GetFrom ctx' = Returns access"
      "Get_value KubeClient ctx' = Returns v" "Get_value EventingClient ctx' = Returns v'"
    using well_injectedD(1,2) [OF w] well_injectedD(3) [OF w reg(3)] well_injectedD(3) [OF w reg(4)] by blast
  have g: "\<forall>key \<in> set controller_informers. Get_value key ctx' = Returns ''''" using well_injectedD(4) [OF w] reg(1) by blast
  have "controller_NewController s0 p0 threadiness cenv ctx' hp' =
      Returns (Inr (\<lparr>cp_systemNamespace = ns, cp_dispatcherImage = img, cp_dispatcherServiceAccount = ''kt-channel-dispatcher'',
        cp_impl = new_Impl threadiness, cp_statusManager = NewProber s0 p0\<rparr>, access, map (\<lambda>key. (key, '''')) controller_informers))"
    using i Get_informers_all [OF g] assms(20,21) by (simp add: controller_NewController_def NewImpl_lookups_def NewController_def)
  then show ?controller
    using e i(3) w reg(2) by (simp add: controller_main_def MainWithConfig_def image_image well_injected_def reg(1))
next
  let ?dctx = "WithNamespaceScope (field ''metadata.namespace'') ctx"
  have env: "env = container_env (makeEnv args)" using assms(14) by (simp add: MakeDispatcher_def)
  obtain p where p: "start_dispatcher None unmarshal build newProducer None env = Returns (Inr p)"
      "pr_brokers p = sp_BootstrapServers (kc_Spec (da_Channel args))" "handles_only (kc_ref (da_Channel args)) (pr_event p)"
    using dispatcher_comes_up [where build = build and newProducer = newProducer, OF assms(1-4,6-8,10-13)] unfolding env by blast
  have t: "TopicName env = sp_Topic (kc_Spec (da_Channel args))" unfolding env by (rule topic_from_env [OF assms(1,9)])
  have ns: "Getenv env ''NAMESPACE'' = field ''metadata.namespace''"
    using env_namespace_scope(1) [OF assms(3,1)] by (simp add: Getenv_def env)
  have sn: "system_Namespace env = Returns (kc_Namespace (da_Channel args))" unfolding env by (rule env_system_namespace [OF assms(1,10)]) (use assms(11) in simp)
  have s: "self_contained dreg" using registered_self_contained(2) assms(19) by blast
  have reg: "rg_informers dreg = [ChannelInformers]" "OtherClient KubeClient \<in> set (rg_clients dreg)" using assms(19) by (simp_all add: dispatcher_registered_def)
  note inj = injected [where newForConfigOrDie = newForConfigOrDie and newClient = newClient and sysns = "system_Namespace env", OF s sn assms(15,16)]
  obtain ctx' hp' access si infs where
      e: "EnableInjectionOrDie dreg (system_Namespace env) newForConfigOrDie newClient (default_rates 1 cfg) ?dctx hp = Returns (ctx', hp', infs)"
      and w: "well_injected dreg (field ''metadata.namespace'') ctx' hp' access si infs"
    using inj [where cfg = "default_rates 1 cfg" and ctx = ?dctx and hp = hp] by (auto simp: WithNamespaceScope_def)
  obtain c v where i: "informer_GetFrom ctx' = Returns access" "client_GetFrom ctx' = Returns c" "Get_value KubeClient ctx' = Returns v"
    using well_injectedD(1,2) [OF w] well_injectedD(3) [OF w reg(2)] by blast
  have "set infs = {ChannelInformer si}" "length infs = 1" using w by (simp_all add: well_injected_def reg(1))
  then have l: "infs = [ChannelInformer si]" by (cases infs) simp_all
  have "dispatcher_main dreg env None newForConfigOrDie newClient (dispatcher_NewController None unmarshal build newProducer None env) cfg ctx hp =
      Returns (Inr ((p, access), hp', [ChannelInformer si]))"
    using assms(5) e i(3) l dispatcher_NewController_started [OF p(1) i] by (simp add: dispatcher_main_def ns MainWithConfig_def)
  moreover have "Informer access hp' = (hp', si)"
      "\<forall>options. fst (ListFunc hp' si options) = client_List (field ''metadata.namespace'') (lo_TimeoutSeconds options) \<and>
         fst (WatchFunc hp' si options) = client_Watch (field ''metadata.namespace'') (lo_TimeoutSeconds options)"
    using w by (simp_all add: well_injected_def)
  ultimately show ?dispatcher using p(2) t p(3) [unfolded handles_only_def] by blast
qed

definition sample_main_context :: "unit go_context" where
  "sample_main_context = \<lparr>cx_config = None, cx_namespaceScope = '''', cx_resyncPeriod = None, cx_client = None, cx_factory = None, cx_selectors = None,
     cx_filteredFactories = Map.empty, cx_informer = None, cx_filteredInformers = Map.empty, cx_values = Map.empty\<rparr>"

definition sample_main_heap :: "unit heap" where
  "sample_main_heap = \<lparr>hp_factories = (\<lambda>_. NewSharedInformerFactory () 0), hp_nextFactory = 0, hp_vars = (\<lambda>_. ''''), hp_nextVar = 0\<rparr>"

definition sample_main_config :: rest_config where
  "sample_main_config = \<lparr>rc_Host = ''https://api'', rc_APIPath = '''', rc_GroupVersion = None, rc_NegotiatedSerializer = False,
     rc_UserAgent = '''', rc_QPS = 0, rc_Burst = 0, rc_RateLimiter = None\<rparr>"

definition sample_field :: "string \<Rightarrow> string" where
  "sample_field path = (if path = ''metadata.namespace'' then ''ns'' else ''pod'')"

definition sample_main_env :: "string \<rightharpoonup> string" where
  "sample_main_env = sample_container_env (\<lambda>_. ''s'') sample_field (ct_Env (hd (dp_Containers (MakeDispatcher sample_args))))"

definition sample_controller_env :: "string \<rightharpoonup> string" where
  "sample_controller_env = [''SYSTEM_NAMESPACE'' \<mapsto> ''knative-eventing'', ''DISPATCHER_IMAGE'' \<mapsto> ''img'']"

definition sample_controller_registry :: registry where
  "sample_controller_registry =
     \<lparr>rg_clients = [OtherClient KubeClient, OtherClient DynamicClient, OtherClient EventingClient, ChannelClient],
      rg_factories = [NamespacedKubeInformerFactory, KubeInformerFactory, ChannelFactory], rg_ducks = [Addressable],
      rg_informers = [KubeInformers DeploymentInformer, KubeInformers EndpointsInformer, KubeInformers PodInformer, ChannelInformers,
        KubeInformers ServiceInformer, KubeInformers ServiceAccountInformer, KubeInformers RoleBindingInformer]\<rparr>"

definition sample_dispatcher_registry :: registry where
  "sample_dispatcher_registry =
     \<lparr>rg_clients = [OtherClient KubeClient, ChannelClient], rg_factories = [NamespacedKubeInformerFactory, ChannelFactory], rg_ducks = [],
      rg_informers = [ChannelInformers]\<rparr>"

theorem programs_come_up_witness:
  "(\<exists>cp access infs hp' started.
      controller_main sample_controller_registry sample_controller_env None (\<lambda>_. Returns ()) (\<lambda>_ _. Returns ())
        (controller_NewController (p_states sample_prober 0) (p_pods sample_prober 0) 2 sample_controller_env) sample_main_config sample_main_context sample_main_heap =
        Returns (Inr ((cp, access, infs), hp', started)) \<and> cp_dispatcherImage cp = ''img'' \<and> KubeInformer PodInformer '''' \<in> set started) \<and>
   (\<exists>p access hp' si.
     dispatcher_main sample_dispatcher_registry sample_main_env None (\<lambda>_. Returns ()) (\<lambda>_ _. Returns ())
       (dispatcher_NewController None (\<lambda>_. Inr '''') (\<lambda>_ _. Inr ()) (\<lambda>_. None) None sample_main_env) sample_main_config sample_main_context sample_main_heap =
       Returns (Inr ((p, access), hp', [ChannelInformer si])) \<and>
     pr_brokers p = [''kafka:9092''] \<and> (\<forall>options. fst (ListFunc hp' si options) = client_List ''ns'' (lo_TimeoutSeconds options)))"
    (is "?c \<and> ?d")
proof -
  have hyps: "sp_BootstrapServers (kc_Spec (da_Channel sample_args)) = [''kafka:9092'']" "da_DispatcherScope sample_args = ''namespace''"
      "kc_Namespace (da_Channel sample_args) = ''ns''" "kc_Name (da_Channel sample_args) = ''ch''" "sp_Topic (kc_Spec (da_Channel sample_args)) = ''topic''"
      "cx_namespaceScope sample_main_context = ''''"
      "system_Namespace sample_controller_env = Returns ''knative-eventing''" "sample_controller_env ''DISPATCHER_IMAGE'' = Some ''img''"
      "sample_field ''metadata.name'' = ''pod''" "sample_field ''metadata.namespace'' = ''ns''"
      "controller_registered sample_controller_registry" "dispatcher_registered sample_dispatcher_registry"
    by (auto simp: sample_args_def sample_defs sample_main_context_def sample_controller_env_def system_Namespace_def Getenv_def sample_field_def
        controller_registered_def dispatcher_registered_def sample_controller_registry_def sample_dispatcher_registry_def)
  have b: "base_ok Map.empty" by (simp add: base_ok_def)
  have h: "sample_field ''metadata.name'' \<noteq> ''''" "sample_field ''metadata.namespace'' \<noteq> ''''"
      "sp_BootstrapServers (kc_Spec (da_Channel sample_args)) \<noteq> []"
      "\<forall>w \<in> set (sp_BootstrapServers (kc_Spec (da_Channel sample_args))). CHR '','' \<notin> set w \<and> CHR ''$'' \<notin> set w"
      "\<exists>w \<in> set (sp_BootstrapServers (kc_Spec (da_Channel sample_args))). \<not> list_all is_space w"
      "CHR ''$'' \<notin> set (sp_Topic (kc_Spec (da_Channel sample_args)))" "kc_Namespace (da_Channel sample_args) \<noteq> ''''"
      "CHR ''$'' \<notin> set (kc_Namespace (da_Channel sample_args) @ kc_Name (da_Channel sample_args))"
    by (simp_all add: hyps is_space_def)
  note up = programs_come_up [where build = "\<lambda>_ _. Inr ()" and newProducer = "\<lambda>_. None" and env = sample_main_env and newForConfigOrDie = "\<lambda>_. Returns ()"
      and newClient = "\<lambda>_ _. Returns ()" and ?s0.0 = "p_states sample_prober 0" and ?p0.0 = "p_pods sample_prober 0" and threadiness = 2
      and cfg = sample_main_config and hp = sample_main_heap and unmarshal = "\<lambda>_. Inr ''''",
      OF sample_container_env_documented b hyps(2) h _ _ sample_main_env_def _ _ hyps(6,11,12,7,8), simplified]
  obtain cp access hp' si started where c: "controller_main sample_controller_registry sample_controller_env None (\<lambda>_. Returns ()) (\<lambda>_ _. Returns ())
        (controller_NewController (p_states sample_prober 0) (p_pods sample_prober 0) 2 sample_controller_env) sample_main_config sample_main_context sample_main_heap =
        Returns (Inr ((cp, access, map (\<lambda>key. (key, '''')) controller_informers), hp', started))" "cp_dispatcherImage cp = ''img''"
      "set started = insert (ChannelInformer si) ((\<lambda>(key, scope). KubeInformer key scope) ` (\<lambda>key. (key, '''')) ` set controller_informers)"
    using up [THEN conjunct1] by blast
  have "KubeInformer PodInformer '''' \<in> set started" unfolding c(3) by (simp add: controller_informers_def)
  with c(1,2) have "?c" by blast
  moreover have "?d" using up unfolding hyps(1,10) by blast
  ultimately show ?thesis by blast
qed

end
