(* ===== verification/ProberProcess.thy ===== *)
theory ProberProcess
  imports WorkQueue Prober
begin

text \<open>
  The goroutines that run the prober (\<open>status.go\<close>: \<open>Start\<close>, the loop around \<open>processWorkItem\<close>) on its rate limited
  queue (vendored \<open>rate_limiting_queue.go\<close>, \<open>delaying_queue.go\<close>, \<open>default_rate_limiters.go\<close>), with their shutdown.
  What a probe does to the states of subscriptions and pods is the subject of \<open>Prober\<close>; here a work item is an
  opaque pointer, and the outcome of its probe is arbitrary.
\<close>

section \<open>Processes that drain\<close>

text \<open>
  A process that is stopping: each step changes nothing or brings it closer to its end, and until then some step
  does the latter.
\<close>

locale draining =
  fixes step :: "'s \<Rightarrow> 's \<Rightarrow> bool" and inv stopping ended :: "'s \<Rightarrow> bool" and left :: "'s \<Rightarrow> nat"
  assumes keeps: "inv s \<Longrightarrow> stopping s \<Longrightarrow> step s s' \<Longrightarrow> inv s' \<and> stopping s'"
    and shrinks: "inv s \<Longrightarrow> stopping s \<Longrightarrow> step s s' \<Longrightarrow> s' = s \<or> left s' < left s"
    and moves: "inv s \<Longrightarrow> stopping s \<Longrightarrow> \<not> ended s \<Longrightarrow> \<exists>s'. step s s' \<and> left s' < left s"
begin

lemma can_end:
  assumes "inv s" "stopping s"
  shows "\<exists>s'. step\<^sup>*\<^sup>* s s' \<and> inv s' \<and> ended s'"
  using assms
proof (induction "left s" arbitrary: s rule: less_induct)
  case less
  show ?case
  proof (cases "ended s")
    case False
    then obtain t where t: "step s t" "left t < left s" using moves [OF less.prems] by blast
    with keeps [OF less.prems] have "inv t" "stopping t" by auto
    from less.hyps [OF t(2) this] t(1) show ?thesis by (meson converse_rtranclp_into_rtranclp)
  qed (use less.prems in blast)
qed

text \<open>Hence no run goes on for ever without ending: it changes the state at most \<open>left\<close> times.\<close>

lemma changes_bounded:
  assumes "inv (f 0)" "stopping (f 0)" "\<And>i. step (f i) (f (Suc i))"
  shows "finite {i. f (Suc i) \<noteq> f i} \<and> card {i. f (Suc i) \<noteq> f i} \<le> left (f 0)"
proof -
  have ok: "inv (f n) \<and> stopping (f n)" for n using assms keeps by (induction n) blast+
  have le: "card {i. i < n \<and> f (Suc i) \<noteq> f i} + left (f n) \<le> left (f 0)" for n
  proof (induction n)
    case (Suc n)
    have "{i. i < Suc n \<and> f (Suc i) \<noteq> f i} = {i. i < n \<and> f (Suc i) \<noteq> f i} \<union> (if f (Suc n) \<noteq> f n then {n} else {})"
      by (auto simp: less_Suc_eq)
    moreover have "f (Suc n) \<noteq> f n \<Longrightarrow> left (f (Suc n)) < left (f n)" using shrinks ok assms(3) by blast
    ultimately show ?case using Suc by (cases "f (Suc n) = f n") simp_all
  qed simp
  show ?thesis
  proof (rule finite_if_finite_subsets_card_bdd)
    fix G assume G: "G \<subseteq> {i. f (Suc i) \<noteq> f i}" "finite G"
    then have "G \<subseteq> {i. i < Suc (Max G) \<and> f (Suc i) \<noteq> f i}" by (auto simp: less_Suc_eq_le)
    then have "card G \<le> card {i. i < Suc (Max G) \<and> f (Suc i) \<noteq> f i}" by (intro card_mono) auto
    then show "card G \<le> left (f 0)" using le [of "Suc (Max G)"] by linarith
  qed
qed

end

section \<open>The rate limited queue\<close>

text \<open>
  \<open>rl_waiting\<close> are the items that the delaying queue holds back, \<open>rl_failures\<close> is the map of the exponential
  limiter. Durations are in nanoseconds. A power of two times the base delay is exact in a \<open>float64\<close>, or infinite and
  then above every delay. The delay of the token bucket is an argument.
\<close>

record 'k rateLimitingType =
  rl_queue :: "'k Type"
  rl_waiting :: "'k set"
  rl_failures :: "'k \<rightharpoonup> nat"

definition NewNamedRateLimitingQueue :: "'k rateLimitingType" where
  "NewNamedRateLimitingQueue = \<lparr>rl_queue = newQueue, rl_waiting = {}, rl_failures = Map.empty\<rparr>"

definition baseDelay :: int where "baseDelay = 50000000"
definition maxDelay :: int where "maxDelay = 30000000000"

definition limiter_When :: "'k \<Rightarrow> 'k rateLimitingType \<Rightarrow> 'k rateLimitingType \<times> int" where
  "limiter_When item q =
     (let exp = (case rl_failures q item of None \<Rightarrow> 0 | Some n \<Rightarrow> n);
          q1 = q\<lparr>rl_failures := (rl_failures q)(item \<mapsto> exp + 1)\<rparr>;
          backoff = baseDelay * 2 ^ exp
      in if backoff > 2 ^ 63 then (q1, maxDelay)
         else if backoff > maxDelay then (q1, maxDelay)
         else (q1, backoff))"

definition AddAfter :: "'k \<Rightarrow> int \<Rightarrow> 'k rateLimitingType \<Rightarrow> 'k rateLimitingType" where
  "AddAfter item duration q =
     (if q_shuttingDown (rl_queue q) then q
      else if duration \<le> 0 then q\<lparr>rl_queue := q_Add item (rl_queue q)\<rparr>
      else q\<lparr>rl_waiting := insert item (rl_waiting q)\<rparr>)"

definition rl_AddRateLimited :: "int \<Rightarrow> 'k \<Rightarrow> 'k rateLimitingType \<Rightarrow> 'k rateLimitingType" where
  "rl_AddRateLimited bucket item q =
     (case limiter_When item q of (q1, delay) \<Rightarrow> AddAfter item (max delay bucket) q1)"

definition rl_Forget :: "'k \<Rightarrow> 'k rateLimitingType \<Rightarrow> 'k rateLimitingType" where
  "rl_Forget item q = q\<lparr>rl_failures := (rl_failures q)(item := None)\<rparr>"

text \<open>\<open>waitingLoop\<close>: the delay of an item is over. The loop returns when the queue is shutting down.\<close>

definition waitingLoop :: "'k \<Rightarrow> 'k rateLimitingType \<Rightarrow> 'k rateLimitingType" where
  "waitingLoop item q =
     (if q_shuttingDown (rl_queue q) then q
      else q\<lparr>rl_queue := q_Add item (rl_queue q), rl_waiting := rl_waiting q - {item}\<rparr>)"

section \<open>The goroutines\<close>

text \<open>
  A worker waits in \<open>Get\<close>, probes an item, or has left its loop. \<open>pl_wg\<close> is the wait group, \<open>pl_done\<close> whether the
  channel \<open>done\<close> is closed, \<open>pl_closed\<close> whether the channel that \<open>Start\<close> returns is.
\<close>

datatype 'k worker = Waiting | Probes 'k | Stopped

record 'k pool =
  pl_queue :: "'k rateLimitingType"
  pl_workers :: "'k worker list"
  pl_wg :: nat
  pl_done :: bool
  pl_closed :: bool

definition probeConcurrency :: nat where "probeConcurrency = 100"
definition initialDelay :: int where "initialDelay = 200000000"

definition Start :: "'k rateLimitingType \<Rightarrow> 'k pool" where
  "Start q = \<lparr>pl_queue = q, pl_workers = replicate probeConcurrency Waiting, pl_wg = probeConcurrency,
     pl_done = False, pl_closed = False\<rparr>"

text \<open>\<open>probeTarget\<close> queues a new item.\<close>

definition queue_probe :: "'k \<Rightarrow> 'k pool \<Rightarrow> 'k pool" where
  "queue_probe item p = p\<lparr>pl_queue := AddAfter item initialDelay (pl_queue p)\<rparr>"

text \<open>
  \<open>processWorkItem\<close> up to the probe: when the queue is shut down it returns false, the loop ends, and the deferred
  \<open>wg.Done\<close> runs. \<^const>\<open>None\<close> when \<open>Get\<close> blocks.
\<close>

definition begin_item :: "nat \<Rightarrow> 'k pool \<Rightarrow> 'k pool option" where
  "begin_item i p =
     (case q_Get (rl_queue (pl_queue p)) of
        (q, Item item) \<Rightarrow> Some (p\<lparr>pl_queue := (pl_queue p)\<lparr>rl_queue := q\<rparr>, pl_workers := (pl_workers p)[i := Probes item]\<rparr>)
      | (q, Shutdown) \<Rightarrow> Some (p\<lparr>pl_workers := (pl_workers p)[i := Stopped], pl_wg := pl_wg p - 1\<rparr>)
      | (q, Blocks) \<Rightarrow> None)"

text \<open>
  \<open>processWorkItem\<close> after the probe with the result \<open>ok\<close>, \<open>err\<close>: \<open>cancelled\<close> is whether the context of the item is
  done. The deferred \<open>Done\<close> runs last.
\<close>

definition end_item :: "nat \<Rightarrow> 'k \<Rightarrow> bool \<Rightarrow> bool \<Rightarrow> go_error option \<Rightarrow> int \<Rightarrow> 'k pool \<Rightarrow> 'k pool" where
  "end_item i item cancelled ok err bucket p =
     (let q1 = (if cancelled then rl_Forget item (pl_queue p)
                else if err \<noteq> None \<or> \<not> ok then rl_AddRateLimited bucket item (pl_queue p)
                else pl_queue p)
      in p\<lparr>pl_queue := q1\<lparr>rl_queue := q_Done item (rl_queue q1)\<rparr>, pl_workers := (pl_workers p)[i := Waiting]\<rparr>)"

text \<open>The goroutine that waits for \<open>done\<close>, and the one that waits for the workers.\<close>

definition shut_down :: "'k pool \<Rightarrow> 'k pool" where
  "shut_down p = p\<lparr>pl_queue := (pl_queue p)\<lparr>rl_queue := q_ShutDown (rl_queue (pl_queue p))\<rparr>\<rparr>"

definition close_channel :: "'k pool \<Rightarrow> 'k pool" where
  "close_channel p = p\<lparr>pl_closed := True\<rparr>"

text \<open>The items of \<open>fresh\<close> are those that \<open>probeTarget\<close> may queue; it creates a new one for every probe.\<close>

inductive pool_step :: "'k set \<Rightarrow> 'k pool \<Rightarrow> 'k pool \<Rightarrow> bool" for fresh where
  add: "item \<in> fresh \<Longrightarrow> pool_step fresh p (queue_probe item p)"
| delay_over: "item \<in> rl_waiting (pl_queue p) \<Longrightarrow> pool_step fresh p (p\<lparr>pl_queue := waitingLoop item (pl_queue p)\<rparr>)"
| begins: "i < length (pl_workers p) \<Longrightarrow> pl_workers p ! i = Waiting \<Longrightarrow> begin_item i p = Some p' \<Longrightarrow> pool_step fresh p p'"
| ends: "i < length (pl_workers p) \<Longrightarrow> pl_workers p ! i = Probes item \<Longrightarrow> pool_step fresh p (end_item i item cancelled ok err bucket p)"
| stop: "pool_step fresh p (p\<lparr>pl_done := True\<rparr>)"
| shutdown: "pl_done p \<Longrightarrow> pool_step fresh p (shut_down p)"
| closes: "pl_wg p = 0 \<Longrightarrow> pool_step fresh p (close_channel p)"

inductive pool_reachable :: "'k pool \<Rightarrow> bool" where
  start: "pool_reachable (Start NewNamedRateLimitingQueue)"
| step: "pool_reachable p \<Longrightarrow> pool_step fresh p p' \<Longrightarrow> pool_reachable p'"

inductive_cases pool_stepE: "pool_step fresh p p'"

section \<open>Invariant\<close>

abbreviation shutting :: "'k pool \<Rightarrow> bool" where
  "shutting p \<equiv> q_shuttingDown (rl_queue (pl_queue p))"

definition probed :: "'k worker list \<Rightarrow> 'k list" where
  "probed ws = concat (map (\<lambda>w. case w of Probes item \<Rightarrow> [item] | _ \<Rightarrow> []) ws)"

definition running :: "'k worker list \<Rightarrow> nat" where
  "running ws = length (filter (\<lambda>w. w \<noteq> Stopped) ws)"

text \<open>What the queue holds, shut down or not; the items of \<open>busy\<close> are being processed.\<close>

definition queue_ok :: "'k set \<Rightarrow> 'k Type \<Rightarrow> bool" where
  "queue_ok busy q \<longleftrightarrow> distinct (q_queue q) \<and> set (q_queue q) = q_dirty q - q_processing q \<and> q_processing q = busy"

definition pool_inv :: "'k pool \<Rightarrow> bool" where
  "pool_inv p \<longleftrightarrow> length (pl_workers p) = probeConcurrency \<and> distinct (probed (pl_workers p)) \<and>
     queue_ok (set (probed (pl_workers p))) (rl_queue (pl_queue p)) \<and>
     pl_wg p = running (pl_workers p) \<and>
     (shutting p \<longrightarrow> pl_done p) \<and> (Stopped \<in> set (pl_workers p) \<longrightarrow> shutting p) \<and>
     (pl_closed p \<longrightarrow> running (pl_workers p) = 0) \<and>
     (running (pl_workers p) = 0 \<longrightarrow> q_dirty (rl_queue (pl_queue p)) = {})"

definition remaining :: "'k pool \<Rightarrow> nat" where
  "remaining p = 2 * card (q_dirty (rl_queue (pl_queue p))) + length (probed (pl_workers p)) + running (pl_workers p) +
     (if pl_closed p then 0 else 1)"

lemma worker_split:
  assumes "i < length ws"
  obtains xs ys where "ws = xs @ ws ! i # ys" "i = length xs"
  using assms that [of "take i ws" "drop (Suc i) ws"] by (simp add: id_take_nth_drop [symmetric])

lemma probed_simps [simp]:
  "probed [] = []" "probed (xs @ ys) = probed xs @ probed ys" "probed (Waiting # ws) = probed ws" "probed (Stopped # ws) = probed ws"
  "probed (Probes item # ws) = item # probed ws"
  by (simp_all add: probed_def)

lemma running_simps [simp]:
  "running [] = 0" "running (xs @ ys) = running xs + running ys" "running (w # ws) = (if w = Stopped then 0 else 1) + running ws"
  by (simp_all add: running_def)

lemma running_0: "running ws = 0 \<longleftrightarrow> set ws \<subseteq> {Stopped}"
  by (induction ws) auto

lemma probed_stopped: "set ws \<subseteq> {Stopped} \<Longrightarrow> probed ws = []"
  by (induction ws) auto

lemma queue_ok_add: "queue_ok busy q \<Longrightarrow> queue_ok busy (q_Add k q)"
  by (auto simp: queue_ok_def q_Add_def Let_def)

lemma queue_ok_get:
  assumes "queue_ok busy q" "q_Get q = (q', Item k)"
  shows "queue_ok (insert k busy) q'" "k \<notin> busy" "k \<in> q_dirty q" "q_dirty q' = q_dirty q - {k}" "q_shuttingDown q' = q_shuttingDown q"
proof -
  obtain rest where q: "q_queue q = k # rest"
      "q' = q\<lparr>q_queue := rest, q_processing := insert k (q_processing q), q_dirty := q_dirty q - {k}\<rparr>"
    using assms(2) by (auto simp: q_Get_def split: list.splits if_splits)
  have i: "k \<in> q_dirty q - busy" "k \<notin> set rest" "set rest \<subseteq> q_dirty q - busy" "q_dirty q - busy \<subseteq> insert k (set rest)" "distinct rest"
    "q_processing q = busy" using assms(1) q(1) unfolding queue_ok_def by auto
  then show "queue_ok (insert k busy) q'" unfolding queue_ok_def q(2) by auto
  show "k \<notin> busy" "k \<in> q_dirty q" "q_dirty q' = q_dirty q - {k}" "q_shuttingDown q' = q_shuttingDown q" using i q by auto
qed

lemma queue_ok_done: "queue_ok busy q \<Longrightarrow> k \<in> busy \<Longrightarrow> queue_ok (busy - {k}) (q_Done k q)"
  by (auto simp: queue_ok_def q_Done_def Let_def)

lemma queue_flags [simp]:
  "q_shuttingDown (q_Add k q) = q_shuttingDown q" "q_shuttingDown (q_Done k q) = q_shuttingDown q"
  "q_shuttingDown q \<Longrightarrow> q_Add k q = q"
  by (auto simp: q_Add_def q_Done_def Let_def)

lemma queue_ok_finite: "queue_ok (set busy) q \<Longrightarrow> finite (q_dirty q)"
  by (metis List.finite_set finite_Diff2 queue_ok_def)

text \<open>What processing does to the queue: nothing or an \<open>Add\<close>, and nothing once it is shut down.\<close>

lemma AddRateLimited_queue:
  "rl_queue (rl_AddRateLimited bucket item q) \<in> {rl_queue q, q_Add item (rl_queue q)}"
  by (auto simp: rl_AddRateLimited_def limiter_When_def AddAfter_def Let_def)

definition end_queue :: "'k \<Rightarrow> bool \<Rightarrow> bool \<Rightarrow> go_error option \<Rightarrow> int \<Rightarrow> 'k pool \<Rightarrow> 'k Type" where
  "end_queue item cancelled ok err bucket p =
     rl_queue (if cancelled then rl_Forget item (pl_queue p)
               else if err \<noteq> None \<or> \<not> ok then rl_AddRateLimited bucket item (pl_queue p) else pl_queue p)"

lemma end_queue_cases:
  "end_queue item cancelled ok err bucket p \<in> {rl_queue (pl_queue p), q_Add item (rl_queue (pl_queue p))}"
  using AddRateLimited_queue [of bucket item "pl_queue p"] by (auto simp: end_queue_def rl_Forget_def)

lemma end_item_fields:
  "rl_queue (pl_queue (end_item i item cancelled ok err bucket p)) = q_Done item (end_queue item cancelled ok err bucket p)"
  "pl_workers (end_item i item cancelled ok err bucket p) = (pl_workers p)[i := Waiting]"
  "pl_wg (end_item i item cancelled ok err bucket p) = pl_wg p" "pl_done (end_item i item cancelled ok err bucket p) = pl_done p"
  "pl_closed (end_item i item cancelled ok err bucket p) = pl_closed p"
  by (simp_all add: end_item_def end_queue_def Let_def)

lemma waiting_workers [simp]: "probed (replicate n Waiting) = []" "running (replicate n Waiting) = n"
  by (induction n) auto

lemma start_inv: "pool_inv (Start NewNamedRateLimitingQueue)"
  by (simp add: pool_inv_def Start_def NewNamedRateLimitingQueue_def newQueue_def queue_ok_def)

text \<open>An \<open>Add\<close> by anyone: nothing happens when the pool is shutting down, in particular once a worker has stopped.\<close>

lemma add_inv:
  assumes "pool_inv p" "rl_queue q \<in> {rl_queue (pl_queue p), q_Add item (rl_queue (pl_queue p))}"
  shows "pool_inv (p\<lparr>pl_queue := q\<rparr>)"
proof -
  have "queue_ok (set (probed (pl_workers p))) (rl_queue q)" using assms queue_ok_add by (auto simp: pool_inv_def)
  moreover have "q_shuttingDown (rl_queue q) = shutting p" using assms(2) by auto
  moreover have "rl_queue q = rl_queue (pl_queue p)" if "running (pl_workers p) = 0"
  proof -
    have "Stopped \<in> set (pl_workers p)" using that assms(1) probeConcurrency_def
      by (cases "pl_workers p") (auto simp: pool_inv_def split: if_splits)
    then show ?thesis using assms by (auto simp: pool_inv_def)
  qed
  ultimately show ?thesis using assms(1) by (simp add: pool_inv_def)
qed

lemma begin_Item:
  assumes "pool_inv p" "i < length (pl_workers p)" "pl_workers p ! i = Waiting" "q_Get (rl_queue (pl_queue p)) = (q, Item item)"
    and p': "p' = p\<lparr>pl_queue := (pl_queue p)\<lparr>rl_queue := q\<rparr>, pl_workers := (pl_workers p)[i := Probes item]\<rparr>"
  shows "pool_inv p' \<and> remaining p' < remaining p \<and> shutting p' = shutting p"
proof -
  obtain xs ys where ws: "pl_workers p = xs @ Waiting # ys" "i = length xs"
    using worker_split [OF assms(2)] assms(3) by metis
  let ?q = "rl_queue (pl_queue p)"
  have ok: "queue_ok (set (probed (xs @ ys))) ?q" using assms(1) ws(1) by (simp add: pool_inv_def)
  note g = queue_ok_get [OF ok assms(4)]
  have "card (q_dirty q) < card (q_dirty ?q)" using g(3,4) queue_ok_finite [OF ok] by (metis card_Diff1_less)
  then have "remaining p' < remaining p" by (simp add: p' remaining_def ws)
  moreover have "pool_inv p'" using assms(1) g by (simp add: pool_inv_def p' ws)
  ultimately show ?thesis using g(5) by (simp add: p')
qed

lemma begin_Shutdown:
  assumes "pool_inv p" "i < length (pl_workers p)" "pl_workers p ! i = Waiting" "q_Get (rl_queue (pl_queue p)) = (q, Shutdown)"
    and p': "p' = p\<lparr>pl_workers := (pl_workers p)[i := Stopped], pl_wg := pl_wg p - 1\<rparr>"
  shows "pool_inv p' \<and> remaining p' < remaining p \<and> shutting p' = shutting p"
proof -
  obtain xs ys where ws: "pl_workers p = xs @ Waiting # ys" "i = length xs"
    using worker_split [OF assms(2)] assms(3) by metis
  have q: "q_queue (rl_queue (pl_queue p)) = []" "shutting p" using assms(4) by (auto simp: q_Get_def split: list.splits if_splits)
  have "q_dirty (rl_queue (pl_queue p)) = {}" if "running xs = 0 \<and> running ys = 0"
  proof -
    have "probed xs = []" "probed ys = []" using that by (auto simp: running_0 probed_stopped)
    then show ?thesis using assms(1) q by (auto simp: pool_inv_def queue_ok_def ws)
  qed
  then have "pool_inv p'" using assms(1) q by (simp add: pool_inv_def p' ws)
  then show ?thesis by (simp add: p' remaining_def ws)
qed

lemma end_inv:
  assumes "pool_inv p" "i < length (pl_workers p)" "pl_workers p ! i = Probes item"
    and p': "p' = end_item i item cancelled ok err bucket p"
  shows "pool_inv p' \<and> (shutting p \<longrightarrow> remaining p' < remaining p) \<and> shutting p' = shutting p"
proof -
  obtain xs ys where ws: "pl_workers p = xs @ Probes item # ys" "i = length xs"
    using worker_split [OF assms(2)] assms(3) by metis
  let ?e = "end_queue item cancelled ok err bucket p"
  have e: "?e \<in> {rl_queue (pl_queue p), q_Add item (rl_queue (pl_queue p))}" by (rule end_queue_cases)
  have ok: "queue_ok (insert item (set (probed (xs @ ys)))) ?e" and n: "item \<notin> set (probed (xs @ ys))"
    using e assms(1) queue_ok_add by (auto simp: pool_inv_def ws)
  have "queue_ok (set (probed (xs @ ys))) (q_Done item ?e)" using queue_ok_done [OF ok, of item] n by simp
  moreover have s: "q_shuttingDown ?e = shutting p" using e by auto
  ultimately have "pool_inv p'" using assms(1) by (simp add: pool_inv_def p' end_item_fields ws)
  moreover have "remaining p' < remaining p" if "shutting p"
  proof -
    have "?e = rl_queue (pl_queue p)" using e that by auto
    then show ?thesis by (simp add: remaining_def p' end_item_fields ws)
  qed
  ultimately show ?thesis using s by (simp add: p' end_item_fields)
qed

lemma begin_cases:
  assumes "pool_inv p" "i < length (pl_workers p)" "pl_workers p ! i = Waiting" "begin_item i p = Some p'"
  shows "pool_inv p' \<and> remaining p' < remaining p \<and> shutting p' = shutting p"
  using assms(4) begin_Item [OF assms(1-3)] begin_Shutdown [OF assms(1-3)] by (auto simp: begin_item_def split: prod.splits got.splits)

lemma pool_step_spec:
  assumes "pool_step fresh p p'" "pool_inv p"
  shows "pool_inv p' \<and> (shutting p \<longrightarrow> shutting p' \<and> (p' = p \<or> remaining p' < remaining p))"
  using assms
proof cases
  case (add item)
  have "rl_queue (AddAfter item initialDelay (pl_queue p)) \<in> {rl_queue (pl_queue p), q_Add item (rl_queue (pl_queue p))}"
    "shutting p \<Longrightarrow> AddAfter item initialDelay (pl_queue p) = pl_queue p" by (auto simp: AddAfter_def)
  then show ?thesis using add_inv [OF assms(2)] by (simp add: add queue_probe_def)
next
  case (delay_over item)
  have "rl_queue (waitingLoop item (pl_queue p)) \<in> {rl_queue (pl_queue p), q_Add item (rl_queue (pl_queue p))}"
    "shutting p \<Longrightarrow> waitingLoop item (pl_queue p) = pl_queue p" by (auto simp: waitingLoop_def)
  then show ?thesis using add_inv [OF assms(2)] by (simp add: delay_over)
next
  case (begins i)
  then show ?thesis using begin_cases [OF assms(2)] by blast
next
  case (ends i item cancelled ok err bucket)
  then show ?thesis using end_inv [OF assms(2)] by blast
next
  case stop
  then show ?thesis using assms(2) by (cases p) (auto simp: pool_inv_def)
next
  case shutdown
  then show ?thesis using assms(2) by (auto simp: pool_inv_def shut_down_def q_ShutDown_def queue_ok_def)
next
  case closes
  then show ?thesis using assms(2) by (cases p) (auto simp: pool_inv_def close_channel_def remaining_def)
qed

lemma reachable_pool_inv: "pool_reachable p \<Longrightarrow> pool_inv p"
  by (induction rule: pool_reachable.induct) (use start_inv pool_step_spec in blast)+

lemma pool_moves:
  assumes "pool_inv p" "shutting p" "\<not> pl_closed p"
  shows "\<exists>p'. pool_step fresh p p' \<and> remaining p' < remaining p"
proof (cases "pl_wg p = 0")
  case True
  then have "pool_step fresh p (close_channel p)" by (rule pool_step.closes)
  moreover have "remaining (close_channel p) < remaining p" using assms(3) by (simp add: close_channel_def remaining_def)
  ultimately show ?thesis by blast
next
  case False
  then have "\<not> set (pl_workers p) \<subseteq> {Stopped}" using assms(1) running_0 by (metis pool_inv_def)
  then obtain i where i: "i < length (pl_workers p)" "pl_workers p ! i \<noteq> Stopped" by (metis in_set_conv_nth insertCI subsetI)
  show ?thesis
  proof (cases "pl_workers p ! i")
    case Waiting
    have "begin_item i p \<noteq> None" using assms(2) by (auto simp: begin_item_def q_Get_def split: list.splits)
    then obtain p' where "begin_item i p = Some p'" by blast
    then show ?thesis using begin_cases [OF assms(1) i(1) Waiting] pool_step.begins [OF i(1) Waiting] by blast
  next
    case (Probes item)
    then show ?thesis using end_inv [OF assms(1) i(1) Probes refl] pool_step.ends [OF i(1) Probes] assms(2) by blast
  qed (use i in blast)
qed

interpretation prober_pool: draining "pool_step fresh" pool_inv shutting pl_closed remaining for fresh
  by unfold_locales (use pool_step_spec pool_moves in blast)+

text \<open>The delay of a retry doubles with every failure up to the maximum.\<close>

lemma retry_delay:
  "snd (limiter_When item q) = min maxDelay (baseDelay * 2 ^ (case rl_failures q item of None \<Rightarrow> 0 | Some n \<Rightarrow> n))"
  by (auto simp: limiter_When_def Let_def baseDelay_def maxDelay_def min_def)

section \<open>Main properties\<close>

text \<open>
  C19: The pool of the prober's workers is bounded and stops cleanly. No item is probed by two workers, and at most
  \<open>probeConcurrency\<close> items are probed at a time. The channel that \<open>Start\<close> returns is closed only after \<open>done\<close> is
  closed, every worker has left its loop and the queue is empty. Once \<open>done\<close> is closed the pool can always be brought
  to that end. Once the queue is shut down, every run of the goroutines changes the state at most \<^const>\<open>remaining\<close> times,
  whatever is still queued or retried, and until the channel is closed some goroutine can bring the end closer.
\<close>

theorem prober_stops:
  assumes "pool_reachable p"
  shows "distinct (probed (pl_workers p)) \<and> length (probed (pl_workers p)) \<le> 100 \<and>
    (pl_closed p \<longrightarrow> pl_done p \<and> set (pl_workers p) = {Stopped} \<and> q_queue (rl_queue (pl_queue p)) = []) \<and>
    (pl_done p \<longrightarrow> (\<exists>p'. (pool_step fresh)\<^sup>*\<^sup>* p p' \<and> pl_closed p')) \<and>
    (shutting p \<and> \<not> pl_closed p \<longrightarrow> (\<exists>p'. pool_step fresh p p' \<and> remaining p' < remaining p)) \<and>
    (shutting p \<longrightarrow> (\<forall>f. f 0 = p \<longrightarrow> (\<forall>i. pool_step fresh (f i) (f (Suc i))) \<longrightarrow>
       finite {i. f (Suc i) \<noteq> f i} \<and> card {i. f (Suc i) \<noteq> f i} \<le> remaining p))"
proof -
  have inv: "pool_inv p" using assms by (rule reachable_pool_inv)
  have "length (probed ws) \<le> length ws" for ws :: "'a worker list"
  proof (induction ws)
    case (Cons w ws) then show ?case by (cases w) auto
  qed simp
  then have n: "length (probed (pl_workers p)) \<le> 100" using inv by (metis pool_inv_def probeConcurrency_def)
  have closed: "pl_done p \<and> set (pl_workers p) = {Stopped} \<and> q_queue (rl_queue (pl_queue p)) = []" if "pl_closed p"
  proof -
    have "set (pl_workers p) \<subseteq> {Stopped}" "q_dirty (rl_queue (pl_queue p)) = {}" using inv that by (auto simp: pool_inv_def running_0)
    moreover have "pl_workers p \<noteq> []" using inv by (auto simp: pool_inv_def probeConcurrency_def)
    ultimately show ?thesis using inv by (cases "pl_workers p") (auto simp: pool_inv_def queue_ok_def)
  qed
  have "\<exists>p'. (pool_step fresh)\<^sup>*\<^sup>* p p' \<and> pl_closed p'" if "pl_done p"
  proof -
    have s: "pool_step fresh p (shut_down p)" using that by (rule pool_step.shutdown)
    then have "pool_inv (shut_down p)" "shutting (shut_down p)" using pool_step_spec inv by (blast, simp add: shut_down_def q_ShutDown_def)
    from prober_pool.can_end [OF this] s show ?thesis by (meson converse_rtranclp_into_rtranclp)
  qed
  moreover have "finite {i. f (Suc i) \<noteq> f i} \<and> card {i. f (Suc i) \<noteq> f i} \<le> remaining p"
    if "shutting p" "f 0 = p" "\<forall>i. pool_step fresh (f i) (f (Suc i))" for f
    using prober_pool.changes_bounded [of f] inv that by blast
  moreover have "distinct (probed (pl_workers p))" using inv by (simp add: pool_inv_def)
  ultimately show ?thesis using n closed pool_moves [OF inv] by blast
qed

text \<open>A prober that is stopped before it has probed anything.\<close>

definition stopped_at_once :: "workItem pool" where
  "stopped_at_once = (Start NewNamedRateLimitingQueue)\<lparr>pl_done := True\<rparr>"

theorem prober_stops_witness:
  "\<exists>p'. (pool_step UNIV)\<^sup>*\<^sup>* stopped_at_once p' \<and> pl_closed p'"
proof -
  have r: "pool_reachable stopped_at_once"
    unfolding stopped_at_once_def by (rule pool_reachable.step [OF pool_reachable.start pool_step.stop])
  from prober_stops [OF r, of UNIV] show ?thesis by (simp add: stopped_at_once_def)
qed

text \<open>No goroutine holds the item, and none will get it unless it is queued again.\<close>

definition gone :: "'k \<Rightarrow> 'k pool \<Rightarrow> bool" where
  "gone item p \<longleftrightarrow> item \<notin> q_dirty (rl_queue (pl_queue p)) \<union> rl_waiting (pl_queue p) \<union> set (probed (pl_workers p))"

lemma q_Add_dirty: "q_dirty (q_Add k q) \<subseteq> insert k (q_dirty q)"
  by (auto simp: q_Add_def Let_def)

lemma AddRateLimited_other:
  assumes "item \<noteq> k"
  shows "rl_failures (rl_AddRateLimited bucket k q) item = rl_failures q item"
    "item \<in> rl_waiting (rl_AddRateLimited bucket k q) \<longleftrightarrow> item \<in> rl_waiting q"
    "item \<in> q_dirty (rl_queue (rl_AddRateLimited bucket k q)) \<longleftrightarrow> item \<in> q_dirty (rl_queue q)"
  using assms by (auto simp: rl_AddRateLimited_def limiter_When_def AddAfter_def q_Add_def Let_def)

lemma gone_step:
  assumes "pool_step (- {item}) p p'" "pool_inv p" "gone item p"
  shows "gone item p' \<and> rl_failures (pl_queue p') item = rl_failures (pl_queue p) item"
  using assms(1)
proof cases
  case (add k)
  then show ?thesis using assms(3) by (auto simp: gone_def queue_probe_def AddAfter_def initialDelay_def)
next
  case (delay_over k)
  then show ?thesis using assms(3) q_Add_dirty [of k "rl_queue (pl_queue p)"] by (auto simp: gone_def waitingLoop_def)
next
  case (begins i)
  obtain xs ys where ws: "pl_workers p = xs @ Waiting # ys" "i = length xs" using worker_split [OF begins(1)] begins(2) by metis
  have "queue_ok (set (probed (pl_workers p))) (rl_queue (pl_queue p))" using assms(2) by (simp add: pool_inv_def)
  note g = queue_ok_get [OF this]
  obtain q r where q: "q_Get (rl_queue (pl_queue p)) = (q, r)" by fastforce
  show ?thesis
  proof (cases r)
    case (Item k)
    then have "k \<noteq> item" "q_dirty q \<subseteq> q_dirty (rl_queue (pl_queue p))" using g(3,4) [of q k] q assms(3) by (auto simp: gone_def)
    then show ?thesis using begins(3) assms(3) Item by (auto simp: begin_item_def gone_def ws q)
  qed (use begins(3) assms(3) in \<open>auto simp: begin_item_def gone_def ws q\<close>)
next
  case (ends i k cancelled ok err bucket)
  obtain xs ys where ws: "pl_workers p = xs @ Probes k # ys" "i = length xs" using worker_split [OF ends(2)] ends(3) by metis
  then have "item \<noteq> k" using assms(3) by (simp add: gone_def)
  define q where "q = (if cancelled then rl_Forget k (pl_queue p)
    else if err \<noteq> None \<or> \<not> ok then rl_AddRateLimited bucket k (pl_queue p) else pl_queue p)"
  have "rl_failures q item = rl_failures (pl_queue p) item" "item \<in> rl_waiting q \<longleftrightarrow> item \<in> rl_waiting (pl_queue p)"
    "item \<in> q_dirty (rl_queue q) \<longleftrightarrow> item \<in> q_dirty (rl_queue (pl_queue p))"
    using AddRateLimited_other [OF \<open>item \<noteq> k\<close>, of bucket "pl_queue p"] \<open>item \<noteq> k\<close> by (simp_all add: q_def rl_Forget_def)
  moreover have "p' = p\<lparr>pl_queue := q\<lparr>rl_queue := q_Done k (rl_queue q)\<rparr>, pl_workers := xs @ Waiting # ys\<rparr>"
    by (simp add: ends(1) end_item_def Let_def q_def ws)
  ultimately show ?thesis using assms(3) by (simp add: gone_def ws)
qed (use assms(3) in \<open>auto simp: gone_def shut_down_def q_ShutDown_def close_channel_def\<close>)

text \<open>
  C39: A work item whose probe succeeds after an earlier failure is tracked by the rate limiter for ever:
  \<open>processWorkItem\<close> forgets a cancelled item and not a successful one, and no later step of the pool removes its
  counter, as long as the item, which is of no further use, is not queued again. The limiter's map grows with every
  pod that needed a second probe.
\<close>

theorem succeeded_item_stays_tracked:
  assumes "pool_reachable p" "i < length (pl_workers p)" "pl_workers p ! i = Probes item"
    and "rl_failures (pl_queue p) item = Some n" "item \<notin> q_dirty (rl_queue (pl_queue p))" "item \<notin> rl_waiting (pl_queue p)"
    and "(pool_step (- {item}))\<^sup>*\<^sup>* (end_item i item False True None bucket p) p'"
  shows "rl_failures (pl_queue p') item = Some n"
proof -
  let ?e = "end_item i item False True None bucket p"
  have inv: "pool_inv p" using assms(1) by (rule reachable_pool_inv)
  obtain xs ys where ws: "pl_workers p = xs @ Probes item # ys" "i = length xs" using worker_split [OF assms(2)] assms(3) by metis
  have "gone item ?e" using inv assms(5,6) by (auto simp: gone_def end_item_def pool_inv_def Let_def ws)
  moreover have "pool_inv ?e" using end_inv [OF inv assms(2,3) refl] by blast
  moreover have "rl_failures (pl_queue ?e) item = Some n" using assms(4) by (simp add: end_item_def Let_def)
  ultimately have "gone item ?e \<and> pool_inv ?e \<and> rl_failures (pl_queue ?e) item = Some n" by blast
  with assms(7) have "gone item p' \<and> pool_inv p' \<and> rl_failures (pl_queue p') item = Some n"
  proof (induction rule: rtranclp_induct)
    case (step a b)
    then show ?case using gone_step [OF step(2)] pool_step_spec [OF step(2)] by simp
  qed simp
  then show ?thesis by blast
qed

text \<open>A pool whose first worker probes item 0, with the counters of the limiter.\<close>

definition probing_pool :: "(nat \<rightharpoonup> nat) \<Rightarrow> nat pool" where
  "probing_pool failures =
     \<lparr>pl_queue = \<lparr>rl_queue = \<lparr>q_queue = [], q_dirty = {}, q_processing = {0}, q_shuttingDown = False\<rparr>, rl_waiting = {},
        rl_failures = failures\<rparr>,
      pl_workers = (replicate 100 Waiting)[0 := Probes 0], pl_wg = 100, pl_done = False, pl_closed = False\<rparr>"

text \<open>From the pool whose workers all wait for the delayed item to the pool whose first worker probes it.\<close>

lemma take_delayed:
  assumes "pool_reachable \<lparr>pl_queue = \<lparr>rl_queue = newQueue, rl_waiting = {0}, rl_failures = failures\<rparr>, pl_workers = replicate 100 Waiting,
    pl_wg = 100, pl_done = False, pl_closed = False\<rparr>" (is "pool_reachable ?p")
  shows "pool_reachable (probing_pool failures)"
proof -
  let ?p1 = "?p\<lparr>pl_queue := waitingLoop (0::nat) (pl_queue ?p)\<rparr>"
  have "pool_step UNIV ?p ?p1" by (rule pool_step.delay_over) simp
  with assms have 1: "pool_reachable ?p1" by (rule pool_reachable.step)
  have "pool_step UNIV ?p1 (probing_pool failures)"
    by (rule pool_step.begins [of 0])
      (simp_all add: waitingLoop_def q_Add_def newQueue_def begin_item_def q_Get_def probing_pool_def nth_Cons')
  with 1 show ?thesis by (rule pool_reachable.step)
qed

lemma probing_pool_reachable: "pool_reachable (probing_pool [0 \<mapsto> 1])"
proof (rule take_delayed)
  let ?w = "\<lambda>failures. \<lparr>pl_queue = \<lparr>rl_queue = newQueue, rl_waiting = {0::nat}, rl_failures = failures\<rparr>,
    pl_workers = replicate 100 Waiting, pl_wg = 100, pl_done = False, pl_closed = False\<rparr>"
  have "pool_step UNIV (Start NewNamedRateLimitingQueue) (queue_probe 0 (Start NewNamedRateLimitingQueue))" by (rule pool_step.add) simp
  moreover have "queue_probe 0 (Start NewNamedRateLimitingQueue) = ?w Map.empty"
    by (simp add: queue_probe_def Start_def AddAfter_def NewNamedRateLimitingQueue_def newQueue_def initialDelay_def probeConcurrency_def)
  ultimately have "pool_reachable (?w Map.empty)" using pool_reachable.step [OF pool_reachable.start] by metis
  then have "pool_reachable (probing_pool Map.empty)" by (rule take_delayed)
  moreover have "pool_step UNIV (probing_pool Map.empty) (end_item 0 0 False False None 0 (probing_pool Map.empty))"
    by (rule pool_step.ends) (simp_all add: probing_pool_def)
  moreover have "end_item 0 0 False False None 0 (probing_pool Map.empty) = ?w [0 \<mapsto> 1]"
    by (simp add: end_item_def probing_pool_def rl_AddRateLimited_def limiter_When_def AddAfter_def q_Done_def newQueue_def baseDelay_def
        maxDelay_def list_update_same_conv)
  ultimately show "pool_reachable (?w [0 \<mapsto> 1])" using pool_reachable.step by metis
qed

theorem succeeded_item_stays_tracked_witness:
  "rl_failures (pl_queue (end_item 0 0 False True None 0 (probing_pool [0 \<mapsto> 1]))) 0 = Some 1"
  by (rule succeeded_item_stays_tracked [OF probing_pool_reachable, of 0 0 1 0]) (simp_all add: probing_pool_def)

end
