(* ===== verification/StatsReporter.thy ===== *)
theory StatsReporter
  imports Prelude "HOL-Library.Signed_Division"
begin

text \<open>
  The metrics of the reconcilers (\<open>pkg/channel/kt/reconciler/stats_reporter.go\<close>) with the tags of
  \<open>go.opencensus.io/tag\<close> that they are recorded under. Registering a view and exporting a measurement are
  outside the model: the former may fail (an argument), the latter is a list of what is recorded.
\<close>

section \<open>Tags\<close>

definition isASCII :: "string \<Rightarrow> bool" where
  "isASCII s = list_all (\<lambda>c. (32 :: nat) \<le> of_char c \<and> of_char c \<le> (126 :: nat)) s"

definition checkKeyName :: "string \<Rightarrow> bool" where
  "checkKeyName name \<longleftrightarrow> name \<noteq> '''' \<and> length name \<le> 255 \<and> isASCII name"

definition checkValue :: "string \<Rightarrow> bool" where
  "checkValue v \<longleftrightarrow> length v \<le> 255 \<and> isASCII v"

type_synonym tags = "string \<rightharpoonup> string"

text \<open>\<open>tag.New\<close> with one \<open>tag.Insert\<close>: the tags of the context were checked when they were inserted.\<close>

definition tag_New :: "tags \<Rightarrow> string \<Rightarrow> string \<Rightarrow> go_error + tags" where
  "tag_New ctx k v =
     (if \<not> checkValue v
      then Inl (ErrorText ''invalid value: only ASCII characters accepted; max length must be 255 characters'')
      else Inr (if ctx k = None then ctx(k \<mapsto> v) else ctx))"

definition mustNewTagKey :: "string \<Rightarrow> string outcome" where
  "mustNewTagKey s = (if checkKeyName s then Returns s else Panics)"

section \<open>Measurements\<close>

record StatKey =
  ReadyLatencyKey :: string
  ReadyCountKey :: string

record Measure =
  ms_Name :: string
  ms_Description :: string
  ms_Unit :: string

record Measurements =
  ReadyLatencyStat :: Measure
  ReadyCountStat :: Measure

record View =
  vw_Measure :: Measure
  vw_Aggregation :: string
  vw_TagKeys :: "string list"

definition KafkaChannelReadyCountN :: string where
  "KafkaChannelReadyCountN = ''kafkachannel_ready_count''"

definition KafkaChannelReadyLatencyN :: string where
  "KafkaChannelReadyLatencyN = ''kafkachannel_ready_latency''"

definition KindToStatKeys :: "(string \<times> StatKey) list" where
  "KindToStatKeys =
     [(''KafkaChannel'', \<lparr>ReadyLatencyKey = KafkaChannelReadyLatencyN, ReadyCountKey = KafkaChannelReadyCountN\<rparr>)]"

definition measurements_of :: "string \<Rightarrow> StatKey \<Rightarrow> Measurements" where
  "measurements_of kind keys =
     \<lparr>ReadyLatencyStat = \<lparr>ms_Name = ReadyLatencyKey keys,
        ms_Description = ''Time it takes for a '' @ kind @ '' to become ready since created'', ms_Unit = ''ms''\<rparr>,
      ReadyCountStat = \<lparr>ms_Name = ReadyCountKey keys,
        ms_Description = ''Number of '' @ kind @ '' that became ready'', ms_Unit = ''1''\<rparr>\<rparr>"

definition views_of :: "string list \<Rightarrow> Measurements \<Rightarrow> View list" where
  "views_of tagKeys m =
     [\<lparr>vw_Measure = ReadyLatencyStat m, vw_Aggregation = ''LastValue'', vw_TagKeys = tagKeys\<rparr>,
      \<lparr>vw_Measure = ReadyCountStat m, vw_Aggregation = ''Count'', vw_TagKeys = tagKeys\<rparr>]"

text \<open>\<open>init\<close>: the loop over the kinds; a failing registration panics.\<close>

fun init_loop :: "(View list \<Rightarrow> go_error option) \<Rightarrow> string list \<Rightarrow> (string \<times> StatKey) list \<Rightarrow>
   (string \<rightharpoonup> Measurements) \<times> View list \<Rightarrow> ((string \<rightharpoonup> Measurements) \<times> View list) outcome" where
  "init_loop register tagKeys [] acc = Returns acc"
| "init_loop register tagKeys ((kind, keys) # rest) (ms, views) =
     (let m = measurements_of kind keys; vs = views_of tagKeys m in
      case register vs of
        Some err \<Rightarrow> Panics
      | None \<Rightarrow> init_loop register tagKeys rest (ms(kind \<mapsto> m), views @ vs))"

definition init :: "(View list \<Rightarrow> go_error option) \<Rightarrow> ((string \<rightharpoonup> Measurements) \<times> View list) outcome" where
  "init register =
     (case mustNewTagKey ''reconciler'' of
        Panics \<Rightarrow> Panics
      | Returns reconcilerTagKey \<Rightarrow>
          (case mustNewTagKey ''key'' of
             Panics \<Rightarrow> Panics
           | Returns keyTagKey \<Rightarrow> init_loop register [reconcilerTagKey, keyTagKey] KindToStatKeys (Map.empty, [])))"

section \<open>The reporter\<close>

definition NewStatsReporter :: "string \<Rightarrow> go_error + tags" where
  "NewStatsReporter reconciler = tag_New Map.empty ''reconciler'' reconciler"

text \<open>\<open>ReportReady\<close>: the duration is in nanoseconds; the result lists what was recorded, with its tags.\<close>

definition ReportReady ::
  "(string \<rightharpoonup> Measurements) \<Rightarrow> tags \<Rightarrow> string \<Rightarrow> string \<Rightarrow> string \<Rightarrow> 64 word \<Rightarrow>
   (tags \<times> Measure \<times> 64 word) list \<times> go_error option" where
  "ReportReady KindToMeasurements ctx kind namespace service d =
     (let key = namespace @ ''/'' @ service; v = word_of_int (sint d sdiv 1000000) in
      case tag_New ctx ''key'' key of
        Inl err \<Rightarrow> ([], Some err)
      | Inr ctx1 \<Rightarrow>
          (case KindToMeasurements kind of
             None \<Rightarrow> ([], Some (ErrorText (''unknown kind attempted to report ready, '' @ [CHR 0x22] @ kind @ [CHR 0x22])))
           | Some m \<Rightarrow> ([(ctx1, ReadyCountStat m, 1), (ctx1, ReadyLatencyStat m, v)], None)))"

section \<open>Properties\<close>

lemma tag_keys_valid: "checkKeyName ''reconciler''" "checkKeyName ''key''"
  by (simp_all add: checkKeyName_def isASCII_def)

lemma init_eq:
  "init register =
     (let m = measurements_of ''KafkaChannel'' (snd (hd KindToStatKeys)); vs = views_of [''reconciler'', ''key''] m in
      if register vs = None then Returns ([''KafkaChannel'' \<mapsto> m], vs) else Panics)"
  by (auto simp: init_def mustNewTagKey_def tag_keys_valid KindToStatKeys_def Let_def split: option.split)

lemma sdiv_bounds:
  fixes a :: int
  assumes "b > 0"
  shows "\<bar>a sdiv b\<bar> * b \<le> \<bar>a\<bar>" "\<bar>a\<bar> < \<bar>a sdiv b\<bar> * b + b"
proof -
  have q: "\<bar>a sdiv b\<bar> = \<bar>a\<bar> div b" using assms by (auto simp: signed_divide_int_def abs_mult sgn_if pos_imp_zdiv_nonneg_iff)
  have "\<bar>a\<bar> = \<bar>a\<bar> div b * b + \<bar>a\<bar> mod b" "0 \<le> \<bar>a\<bar> mod b" "\<bar>a\<bar> mod b < b" using assms by simp_all
  then show "\<bar>a sdiv b\<bar> * b \<le> \<bar>a\<bar>" "\<bar>a\<bar> < \<bar>a sdiv b\<bar> * b + b" unfolding q by linarith+
qed

text \<open>Signed division rounds towards zero: the rest has the sign of the dividend.\<close>

lemma sdiv_rest:
  fixes a :: int
  assumes "b > 0"
  shows "\<exists>r. a = a sdiv b * b + r \<and> \<bar>r\<bar> < b \<and> (0 \<le> a \<longrightarrow> 0 \<le> r) \<and> (a \<le> 0 \<longrightarrow> r \<le> 0)"
proof -
  define q r where "q = \<bar>a\<bar> div b" and "r = \<bar>a\<bar> mod b"
  have r: "\<bar>a\<bar> = q * b + r" "0 \<le> r" "r < b" using assms by (simp_all add: q_def r_def)
  have "0 \<le> q" using assms by (simp add: q_def pos_imp_zdiv_nonneg_iff)
  then have nonneg: "0 \<le> q * b" using assms by simp
  have q: "a sdiv b = (if a < 0 then - q else q)" using assms by (auto simp: signed_divide_int_def sgn_if q_def)
  show ?thesis
  proof (cases "a < 0")
    case True
    then have "a sdiv b = - q" by (simp add: q)
    moreover have "a = - q * b + - r" using r(1) True by simp
    ultimately have "a = a sdiv b * b + - r" by (simp only:)
    then show ?thesis using r True by (intro exI [of _ "- r"]) simp
  next
    case False
    then have "a sdiv b = q" by (simp add: q)
    moreover have "a = q * b + r" using r(1) False by simp
    ultimately have "a = a sdiv b * b + r" by (simp only:)
    then show ?thesis using r nonneg False by (intro exI [of _ r]) linarith
  qed
qed

lemma milliseconds_exact: "sint (word_of_int (sint (d :: 64 word) sdiv 1000000) :: 64 word) = sint d sdiv 1000000"
proof -
  have "- (2 ^ 63) \<le> sint d" "sint d < 2 ^ 63" using sint_range_size [of d] by (simp_all add: word_size)
  moreover have "\<bar>sint d sdiv 1000000\<bar> * 1000000 \<le> \<bar>sint d\<bar>" by (rule sdiv_bounds) simp
  ultimately have "- (2 ^ 63) \<le> sint d sdiv 1000000" "sint d sdiv 1000000 < 2 ^ 63" by linarith+
  then show ?thesis by (simp add: signed_take_bit_int_eq_self sint_sbintrunc')
qed

text \<open>
  C38: What the metrics record: only the kind \<open>KafkaChannel\<close> is known, so reporting a channel of this
  program's own kind always fails and records nothing, and so does a key that is not a valid tag. For the known kind
  and a valid key exactly one count and one latency are recorded, under the tags of the reporter and the key, and the
  latency is the duration in whole milliseconds, rounded towards zero without overflow: what is left over is less
  than a millisecond and has the sign of the duration.
\<close>

theorem reported_latency:
  assumes "init register = Returns (ms, views)" and "ReportReady ms ctx kind ns service d = (recs, err)" and "ctx ''key'' = None"
  shows "(kind \<noteq> ''KafkaChannel'' \<or> \<not> checkValue (ns @ ''/'' @ service) \<longrightarrow> recs = [] \<and> err \<noteq> None) \<and>
         (kind = ''KafkaChannel'' \<and> checkValue (ns @ ''/'' @ service) \<longrightarrow> err = None \<and>
            (\<exists>m count latency r. recs = [(ctx(''key'' \<mapsto> ns @ ''/'' @ service), count, 1), (ctx(''key'' \<mapsto> ns @ ''/'' @ service), latency, m)] \<and>
               ms_Name count = ''kafkachannel_ready_count'' \<and> ms_Name latency = ''kafkachannel_ready_latency'' \<and>
               sint d = sint m * 1000000 + r \<and> \<bar>r\<bar> < 1000000 \<and> (0 \<le> sint d \<longrightarrow> 0 \<le> r) \<and> (sint d \<le> 0 \<longrightarrow> r \<le> 0)))"
proof -
  have ms: "ms = [''KafkaChannel'' \<mapsto> measurements_of ''KafkaChannel'' (snd (hd KindToStatKeys))]"
    using assms(1) by (auto simp: init_eq Let_def split: if_splits)
  have "ReadyCountStat (measurements_of k (snd (hd KindToStatKeys))) = \<lparr>ms_Name = ''kafkachannel_ready_count'',
      ms_Description = ''Number of '' @ k @ '' that became ready'', ms_Unit = ''1''\<rparr>" for k
    by (simp add: measurements_of_def KindToStatKeys_def KafkaChannelReadyCountN_def)
  moreover have "ms_Name (ReadyLatencyStat (measurements_of k (snd (hd KindToStatKeys)))) = ''kafkachannel_ready_latency''" for k
    by (simp add: measurements_of_def KindToStatKeys_def KafkaChannelReadyLatencyN_def)
  moreover obtain r where "sint d = sint d sdiv 1000000 * 1000000 + r" "\<bar>r\<bar> < 1000000" "0 \<le> sint d \<longrightarrow> 0 \<le> r" "sint d \<le> 0 \<longrightarrow> r \<le> 0"
    using sdiv_rest [of 1000000 "sint d"] by auto
  ultimately show ?thesis
    using assms(2,3) unfolding ms ReportReady_def tag_New_def Let_def
    by (cases "checkValue (ns @ ''/'' @ service)"; cases "kind = ''KafkaChannel''")
      (auto simp: milliseconds_exact tag_keys_valid split: if_splits intro!: exI [of _ r])
qed

theorem reported_latency_witness:
  "\<exists>m count latency ctx. ReportReady [''KafkaChannel'' \<mapsto> measurements_of ''KafkaChannel'' (snd (hd KindToStatKeys))] Map.empty
     ''KafkaChannel'' ''ns'' ''ch'' 2500000 = ([(ctx, count, 1), (ctx, latency, m)], None) \<and> sint m = 2"
proof -
  have "init (\<lambda>_. None) = Returns ([''KafkaChannel'' \<mapsto> measurements_of ''KafkaChannel'' (snd (hd KindToStatKeys))],
      views_of [''reconciler'', ''key''] (measurements_of ''KafkaChannel'' (snd (hd KindToStatKeys))))"
    by (simp add: init_eq Let_def)
  moreover obtain recs err where r: "ReportReady [''KafkaChannel'' \<mapsto> measurements_of ''KafkaChannel'' (snd (hd KindToStatKeys))] Map.empty
     ''KafkaChannel'' ''ns'' ''ch'' 2500000 = (recs, err)" by fastforce
  moreover have "checkValue (''ns'' @ ''/'' @ ''ch'')" by (simp add: checkValue_def isASCII_def)
  ultimately obtain m count latency rest where "recs = [([''key'' \<mapsto> ''ns'' @ ''/'' @ ''ch''], count, 1), ([''key'' \<mapsto> ''ns'' @ ''/'' @ ''ch''], latency, m)]"
      "err = None" "sint (2500000 :: 64 word) = sint m * 1000000 + rest" "\<bar>rest\<bar> < 1000000" "0 \<le> sint (2500000 :: 64 word) \<longrightarrow> 0 \<le> rest"
    using reported_latency [of "\<lambda>_. None" _ _ Map.empty "''KafkaChannel''" "''ns''" "''ch''" 2500000 recs err] by blast
  then show ?thesis using r by auto
qed

end
