(* ===== verification/Spec2Isabelle.thy ===== *)
theory Spec2Isabelle
  imports Assembly DeepCopy FakeInformer Fixtures Mains ProberProcess StatsReporter
begin

text \<open>
  \<^bold>\<open>The Kafka topic channel, verified.\<close>

  The program (\<open>src/\<close>) is a channel of Knative Eventing on top of a Kafka topic that already exists. A
  \<open>KafkaTopicChannel\<close> object names brokers, a topic, credentials and subscribers. Two processes serve it.

  \<^item> The \<^emph>\<open>controller\<close> (\<open>pkg/channel/kt/reconciler/controller\<close>) watches the channels. For each it creates
    a service account, a role binding, a deployment and a service of a dispatcher, and the service that
    gives the channel its address; it probes the dispatcher's pods for the partitions that each
    subscription consumes (\<open>pkg/channel/kt/status\<close>) and writes all this into the status of the channel.
  \<^item> The \<^emph>\<open>dispatcher\<close> (\<open>pkg/channel/kt/dispatcher\<close>, \<open>pkg/channel/kt/reconciler/dispatcher\<close>) reads its
    configuration from the environment that the controller wrote into the deployment. It receives events
    over HTTP and sends them to the topic, runs one consumer group per subscription, and serves the ready
    partitions to the prober over a second HTTP endpoint.

  Both processes run their business logic inside the generated reconciler
  (\<open>pkg/client/injection/reconciler\<close>), which reads channels from an informer's cache through a generated
  lister and writes through a generated client.

  \<^bold>\<open>Theories.\<close> Each models the files in parentheses, with the names of the source.

  \<^item> \<open>Prelude\<close>: the parts of Go and its standard library that the sources use; the order of a \<open>range\<close> over
    a map is any function that satisfies the locale \<open>go_range\<close>; \<open>outcome\<close> is a return or a panic.
  \<^item> \<open>Conditions\<close> (\<open>knative.dev/pkg/apis\<close>, vendored), \<open>ApiTypes\<close> (\<open>kafka_channel_types.go\<close>), \<open>Lifecycle\<close>
    (\<open>kafka_channel_lifecycle.go\<close>), \<open>Validation\<close> (\<open>kafka_channel_validation.go\<close>,
    \<open>kafka_channel_defaults.go\<close>): the channel, its seven conditions under \<open>Ready\<close>, its validation. The
    locale \<open>condition_manager\<close> states what a caller may rely on and is interpreted on the channel's status.
    Shown: \<open>Ready\<close> is the aggregate of its dependents after any run of markings, validation reports exactly
    the violations, defaulting is idempotent.
  \<^item> \<open>Subscriptions\<close> (\<open>kafka_subscription.go\<close>, \<open>subscription.go\<close>, \<open>config.go\<close>,
    \<open>consumer_message_handler.go\<close>), \<open>Dispatcher\<close> (\<open>dispatcher.go\<close>), \<open>Endpoint\<close>
    (\<open>subscription_endpoint.go\<close>), \<open>Receiver\<close> (\<open>dispatcher.go\<close>: \<open>NewDispatcher\<close>, the receiver function),
    \<open>DispatcherReconciler\<close> (\<open>reconciler/dispatcher/kafkachannel.go\<close>), \<open>DispatcherProcess\<close> (its
    \<open>NewController\<close>). The maps of \<open>KafkaDispatcher\<close> are maps; pointers to \<open>KafkaSubscription\<close> are addresses
    in an explicit store, since the two maps share them. Starting and closing a consumer group are
    functions of the log of all earlier calls, so that they may fail at any call. The locale
    \<open>channel_dispatcher\<close> is the contract that the reconciler relies on. Shown: no consumer group leaks in a
    reachable state, \<open>ReconcileConsumers\<close> leaves what it should and reports the rest, other channels are not
    touched, an event is acknowledged exactly when the producer took it, \<open>SetReady\<close> refines a set of pairs.
  \<^item> \<open>Prober\<close>, \<open>Probing\<close> (\<open>status.go\<close>): the prober with its heap of target and pod states, its work queue
    and its goroutines as steps of \<open>prober_step\<close>, in any interleaving. The phases of a worker between two
    lock acquisitions are separate steps. The pods' counters are 32-bit words. The locale \<open>status_manager\<close>
    is what the controller relies on. Shown: a subscription is reported ready only on evidence, the counters
    never wrap around, a completed probe leads to the callback, and where the prober stops short.
  \<^item> \<open>ProberProcess\<close> (\<open>status.go\<close>: \<open>Start\<close>, with the vendored rate limited queue): the pool of the prober's workers, in
    which a work item is an opaque pointer, as the steps of \<open>pool_step\<close>. The locale \<open>draining\<close> is the argument that a
    process that is stopping ends. Shown: the pool is bounded and stops cleanly, and the rate limiter never forgets
    an item that succeeded after a failure.
  \<^item> \<open>Resources\<close> (\<open>controller/resources\<close>, \<open>utils\<close>), \<open>Wiring\<close> (\<open>controller.go\<close>, \<open>lister.go\<close>), \<open>Controller\<close>,
    \<open>Reconciling\<close> (\<open>controller/kafkachannel.go\<close>): the objects that the controller creates, the event filters
    and probe targets, and the whole of \<open>ReconcileKind\<close> and \<open>FinalizeKind\<close> with every error branch. Listers and
    API calls are fields of the record \<open>env\<close>; what is done to the cluster is a list of effects. Shown: what
    every pass leaves in the status, that reported subscribers have evidence, that the dispatcher reads back
    what the controller wrote. How a container gets its environment from a deployment is not code of the repository: it is an
    argument, with what the vendored API documents of it (\<open>documented_env\<close>) as the hypothesis.
  \<^item> \<open>WorkQueue\<close> (vendored \<open>queue.go\<close>, \<open>two_lane_queue.go\<close>, \<open>controller.go\<close>), \<open>ControllerProcess\<close>
    (\<open>controller/controller.go\<close>: \<open>NewController\<close>): the queue between events and workers, with its goroutines as
    the steps of \<open>queue_step\<close>, and the handlers that fill it. The locale \<open>key_sink\<close> is what the handlers rely on,
    interpreted for both lanes. Shown: one worker per key, no enqueued key is lost and every one can get to a
    worker, which events queue which channels.
  \<^item> \<open>GenReconciler\<close> (\<open>reconciler.go\<close>, \<open>state.go\<close>, \<open>controller.go\<close> of the generated reconciler with the
    vendored retry, leadership and status helpers), \<open>Lister\<close> (\<open>pkg/client/listers\<close> over the vendored
    store), \<open>Clientset\<close> (typed client and clientset), \<open>Informers\<close> (\<open>pkg/client/informers\<close>), \<open>Injection\<close>
    (\<open>pkg/client/injection\<close>), \<open>StatsReporter\<close> (\<open>stats_reporter.go\<close>). Shown: who may write when, how the finalizer
    guards the business logic, how often a status update is tried, that the namespace index agrees with the
    store, which object a request names, which informers run, what the constructors find in their context.
    Factories and the variables that filters capture live on an explicit heap in \<open>Injection\<close>.
  \<^item> \<open>Mains\<close> (\<open>cmd/channel/kt-channel\<close> with the vendored \<open>sharedmain\<close> and \<open>injection\<close>): the two programs, from the environment
    through the injectors that their imports register, in any order, to the constructors. Shown: both come up, each watches the
    namespaces that it should, and the dispatcher handles the events of its own channel only.
  \<^item> \<open>FakeClient\<close> (\<open>pkg/client/clientset/versioned/fake\<close> and \<open>typed/.../fake\<close> over the vendored tracker), \<open>DeltaQueue\<close> (vendored
    \<open>delta_fifo.go\<close>, \<open>shared_informer.go\<close>), \<open>FakeInformer\<close> (vendored \<open>reflector.go\<close>): the client that the tests run against, and an
    informer that lists and watches through it in separate steps. The locale \<open>watched_store\<close> is what an
    informer relies on. Shown: the client refines a map of channels, and the cache of the informer follows it but for the changes
    between its list and its watch, which it misses.
  \<^item> \<open>Fixtures\<close> (\<open>reconciler/testing/kafkachannel.go\<close>): the channels that the tests build. Shown: when one is ready.
  \<^item> \<open>DeepCopy\<close> (\<open>zz_generated.deepcopy.go\<close>): the generated copies on an explicit heap, where pointers, slices and
    maps are addresses. The locale \<open>copyable\<close> is the contract of a copy; it is closed under pairs, pointers and
    slices and interpreted on the copy of a channel. Shown: a copy reads as the original and shares nothing
    with it, so that channels can be immutable values, and a deep copy the identity, in all other theories. The
    one place where the program omits the copy and aliases the informer's cache, the update of the deployment,
    is modelled by an explicit cache in \<open>Controller\<close>.
  \<^item> \<open>Assembly\<close> and this theory: the controller and the dispatcher inside the generated reconciler, the prober
    against the endpoint, the published address against the receiver, the way from a probe to a worker.

  \<^bold>\<open>Errors, loops and bounds.\<close> Every returned error is a value of a sum or option type, every panic the
  constructor \<open>Panics\<close> of \<open>outcome\<close>. All loops are over finite data and the model's functions are total;
  there is no fuel. The loops that run for ever (the workers and goroutines of the prober and of the work queue)
  are step relations; that a queued key can get to a worker is proved as the existence of a run
  (\<open>can_take\<close>). The only bound is the source's: a status update is tried five times (four
  repetitions, \<open>retry.DefaultRetry\<close>). Times are numbers that the caller passes in and are compared only where
  the source compares them.

  \<^bold>\<open>Parameters.\<close> What is not under the repository's control is an argument of the definitions: the
  Kubernetes API server and the informers' contents, Kafka (starting, closing and feeding a consumer
  group, the producer), the encoding and delivery of events, the leader election, the clock, the order in which
  Go ranges over a map.

  \<^bold>\<open>Not modelled.\<close> Sending a request and decoding the answer; scheme registration, which only calls the vendored
  builder; the restarts and the paging of the vendored reflector, whose watch on the fake client never ends; logging and
  tracing; the token bucket and the clock, which only decide when a queued item is taken; the shutdown of the
  controllers; the listers and the factory of the table tests (\<open>reconciler/testing\<close>) and the injection of fakes.
\<close>

section \<open>The published address\<close>



section \<open>Probing a dispatcher\<close>

text \<open>
  C4: A probe reads exactly what the dispatcher has: when the prober asks a dispatcher at the address that
  the controller lists for a channel, the partitions known to be ready for the subscription grow by
  exactly those that the dispatcher has marked ready for this subscription of this channel, and the
  probe succeeds exactly if there are any.
\<close>

theorem probe_reads_dispatcher:
  assumes "disp_reachable d" and "ListProbeTargets lister kc = Inr target"
    and "CHR ''/'' \<notin> set (kc_Namespace kc)" and "CHR ''/'' \<notin> set (kc_Name kc)" and "wi_url item = pt_URL target"
    and "prober_Do item (wire (ServeHTTP Inr d \<lparr>r_Method = ''GET'', r_RequestURI = url_Path (wi_url item)\<rparr>)) m = (m', ok, err)"
  defines "st \<equiv> p_states m (wi_targetStates item)" and "st' \<equiv> p_states m' (wi_targetStates item)"
  shows "ts_readyPartitions st' = ts_readyPartitions st \<union> {q. (ss_UID (ts_sub st), q) \<in> channel_ready d (kc_ref kc)} \<and>
         (err = None \<and> ok \<longleftrightarrow> (\<exists>q. (ss_UID (ts_sub st), q) \<in> channel_ready d (kc_ref kc)))"
proof -
  have path: "url_Path (wi_url item) = channel_uri (kc_ref kc)"
    using assms(2,5) by (auto simp: ListProbeTargets_def channel_uri_def Let_def split: sum.splits if_splits)
  note serve = ServeHTTP_channel [of "kc_ref kc" d, simplified, OF assms(3,4)]
  show ?thesis
  proof (cases "d_channelSubscriptions d (kc_ref kc)")
    case None
    then show ?thesis
      using assms(6) by (simp add: path serve wire_def prober_Do_def probeVerifier_def channel_ready_def st_def st'_def)
  next
    case (Some p)
    let ?u = "ss_UID (ts_sub st)" and ?ks = "d_store d p"
    have wf: "ks_wf ?ks" using disp_reachable_inv [OF assms(1)] by (simp add: disp_inv_def store_inv_def)
    have ready: "channel_ready d (kc_ref kc) = ready_pairs ?ks" by (simp add: channel_ready_def Some)
    have v: "probeVerifier item 200 (Some (ready_lists ?ks)) m = (m', ok, err)"
      using assms(6) Some by (simp add: path serve wire_def prober_Do_def)
    show ?thesis
    proof (cases "ready_lists ?ks ?u")
      case None
      then have "(?u, q) \<notin> ready_pairs ?ks" for q using ready_lists_pairs(1) [OF wf, of ?u q] by simp
      then show ?thesis using v None by (auto simp: probeVerifier_def ready st_def st'_def)
    next
      case (Some ps)
      have ps: "set ps = {q. (?u, q) \<in> ready_pairs ?ks}" using ready_lists_pairs(1) [OF wf, of ?u] Some by auto
      have "ps \<noteq> []" using ready_lists_pairs(2) [OF wf Some] by simp
      then have "\<exists>q. (?u, q) \<in> ready_pairs ?ks" using ps by (cases ps) auto
      then show ?thesis using v Some ps by (auto simp: probeVerifier_def ready st_def st'_def upd_state_def)
    qed
  qed
qed

theorem probe_reads_dispatcher_witness:
  "\<exists>target. ListProbeTargets (\<lambda>_ _. Inr [[''10.0.0.1'']]) (sample_channel 1 []) = Inr target \<and>
     ts_readyPartitions (p_states (fst (prober_Do
         \<lparr>wi_targetStates = 0, wi_podState = 0, wi_url = pt_URL target, wi_podIP = ''10.0.0.1'', wi_podPort = ''8081''\<rparr>
         (wire (ServeHTTP Inr sample_dispatcher \<lparr>r_Method = ''GET'', r_RequestURI = url_Path (pt_URL target)\<rparr>)) sample_prober)) 0) =
       ts_readyPartitions (p_states sample_prober 0) \<union>
       {q. (ss_UID (ts_sub (p_states sample_prober 0)), q) \<in> channel_ready sample_dispatcher \<lparr>nn_Namespace = ''ns'', nn_Name = ''ch''\<rparr>}"
proof -
  obtain target where t: "ListProbeTargets (\<lambda>_ _. Inr [[''10.0.0.1'']]) (sample_channel 1 []) = Inr target"
    by (simp add: ListProbeTargets_def Let_def)
  let ?item = "\<lparr>wi_targetStates = 0, wi_podState = 0, wi_url = pt_URL target, wi_podIP = ''10.0.0.1'', wi_podPort = ''8081''\<rparr>"
  obtain m' ok err where d: "prober_Do ?item
      (wire (ServeHTTP Inr sample_dispatcher \<lparr>r_Method = ''GET'', r_RequestURI = url_Path (wi_url ?item)\<rparr>)) sample_prober = (m', ok, err)"
    by (metis prod_cases3)
  from probe_reads_dispatcher [OF sample_dispatcher_reachable t _ _ _ d] d show ?thesis
    by (simp add: t) (simp add: sample_defs)
qed

section \<open>The replicas of the dispatcher\<close>

text \<open>
  C14: Every replica of the dispatcher serves its channel: whether or not the replica leads, a pass over a
  channel that is not being deleted brings the dispatcher to the state that synchronising the channel
  gives, and reports an error exactly when that does. A pass never patches finalizers and never writes
  the status. A channel that is being deleted is left as it is.
\<close>

theorem every_replica_serves:
  assumes "NewImpl base pkg typ (dispatcher_business pp startCG closeCG topic ordAdd ordRemove) dispatcher_options = Some (r, queue, agent)"
    and "SplitMetaNamespaceKey key = Inr (ns, name)" and "ri_Lister r ns name = Inr kc"
    and "g_world g = Returns d" and "syncChannel pp startCG closeCG topic ordAdd ordRemove kc d = Returns (d', e)"
  shows "(om_DeletionTimestamp (kc_Meta kc) = None \<longrightarrow>
            g_world (fst (Reconcile r key g)) = Returns d' \<and> snd (Reconcile r key g) = e \<and>
            (\<exists>m recs. g_log (fst (Reconcile r key g)) = g_log g @ Called m kc # recs \<and> list_all is_record recs \<and>
               m = (if ri_IsLeaderFor r \<lparr>nn_Namespace = ns, nn_Name = name\<rparr> then DoReconcileKind else DoObserveKind))) \<and>
         (om_DeletionTimestamp (kc_Meta kc) \<noteq> None \<longrightarrow> Reconcile r key g = (g, None))"
proof -
  let ?b = "dispatcher_business pp startCG closeCG topic ordAdd ordRemove"
  have r: "ri_reconciler r = ?b" "ri_skipStatusUpdates r"
    using assms(1) by (auto simp: NewImpl_def apply_options_def dispatcher_options_def Let_def)
  have b: "bz_FinalizeKind ?b = None" "bz_ObserveKind ?b \<noteq> None" "bz_ObserveFinalizeKind ?b = None"
    by (simp_all add: dispatcher_business_def)
  obtain s where s: "newState key r = Inr s" "s_namespace s = ns" "s_name s = name"
    "s_isLeader s = ri_IsLeaderFor r \<lparr>nn_Namespace = ns, nn_Name = name\<rparr>" "s_isROI s" "\<not> s_isROF s"
    using newState_Inr [OF assms(2), of r] b r(1) by auto
  have lead: "\<not> isNotLeaderNorObserver s" using s(5) by (simp add: isNotLeaderNorObserver_def)
  have lst: "ri_Lister r (s_namespace s) (s_name s) = Inr kc" using s assms(3) by simp
  show ?thesis
  proof (cases "om_DeletionTimestamp (kc_Meta kc)")
    case None
    let ?m = "if s_isLeader s then DoReconcileKind else DoObserveKind"
    let ?sync = "sync_method (syncChannel pp startCG closeCG topic ordAdd ordRemove)"
    have meth: "reconcileMethodFor r s kc = (?m, Some ?sync)"
      using None s(5) by (simp add: reconcileMethodFor_def r(1) dispatcher_business_def sync_ReconcileKind_def ObserveKind_def Let_def)
    have call: "call_method ?m ?sync kc g = (g\<lparr>g_world := Returns d', g_log := g_log g @ [Called ?m kc]\<rparr>, kc, e)"
      by (simp add: call_method_def sync_method_def assms(4,5))
    have "run_method r s kc g = (g\<lparr>g_world := Returns d', g_log := g_log g @ [Called ?m kc]\<rparr>, Inr (kc, e))"
      using call by (simp add: run_method_def meth r setFinalizerIfFinalizer_def b split: if_splits)
    note eq = Reconcile_found [OF s(1) lead lst this]
    show ?thesis
      using None syncChannel_no_event [of pp startCG closeCG topic ordAdd ordRemove kc d d'] assms(5)
      by (cases e) (auto simp: eq sync_status_def r(2) report_event_def s(4) split: go_error.splits)
  next
    case (Some t)
    have "reconcileMethodFor r s kc = (DoUnknown, None)"
      using Some s(6) by (simp add: reconcileMethodFor_def r(1) b Let_def)
    then have "run_method r s kc g = (g, Inr (kc, None))" by (simp add: run_method_def)
    note eq = Reconcile_found [OF s(1) lead lst this]
    show ?thesis using Some by (simp add: eq sync_status_def r(2) report_event_def)
  qed
qed

theorem every_replica_serves_witness:
  "\<exists>d'. g_world (fst (Reconcile (sample_replica False) ''ns/ch'' \<lparr>g_world = Returns NewDispatcher, g_log = []\<rparr>)) = Returns d'"
proof -
  let ?kc = "sample_served_channel []"
  have "syncChannel (\<lambda>_. Inr 0) (\<lambda>_ _ _. None) (\<lambda>_ _. None) ''topic'' sorted_list_of_set sorted_list_of_set ?kc NewDispatcher \<noteq> Panics"
    using sample_served_channel_simps(2) [of "[]"] by (auto simp: syncChannel_Panics_iff simp del: sample_served_channel_simps(2))
  then obtain d' e where "syncChannel (\<lambda>_. Inr 0) (\<lambda>_ _ _. None) (\<lambda>_ _. None) ''topic'' sorted_list_of_set sorted_list_of_set ?kc NewDispatcher =
      Returns (d', e)" by (metis outcome.exhaust surj_pair)
  moreover have "NewImpl (sample_replica False) ''dispatcher'' ''Reconciler''
      (dispatcher_business (\<lambda>_. Inr 0) (\<lambda>_ _ _. None) (\<lambda>_ _. None) ''topic'' sorted_list_of_set sorted_list_of_set) dispatcher_options =
      Some (sample_replica False, ''dispatcher.Reconciler'', defaultControllerAgentName)"
    by (simp add: NewImpl_def apply_options_def dispatcher_options_def sample_replica_def)
  moreover have "om_DeletionTimestamp (kc_Meta ?kc) = None" by (simp add: sample_served_channel_def sample_defs)
  ultimately show ?thesis
    using every_replica_serves [OF _ sample_key, of "sample_replica False" "''dispatcher''" "''Reconciler''" "\<lambda>_. Inr 0" "\<lambda>_ _ _. None" "\<lambda>_ _. None" "''topic''"
        sorted_list_of_set sorted_list_of_set "sample_replica False" "''dispatcher.Reconciler''" defaultControllerAgentName ?kc "\<lparr>g_world = Returns NewDispatcher, g_log = []\<rparr>" NewDispatcher d' e]
    by (auto simp: sample_replica_def)
qed

section \<open>What the controller writes to the status\<close>

text \<open>
  C23: A new generation that is not valid is never reported as Ready: although the controller leaves all
  conditions alone when it rejects the channel, the pass writes a status that observes the new
  generation and in which Ready is not true.
\<close>

theorem invalid_generation_not_ready:
  assumes "SplitMetaNamespaceKey key = Inr (ns, name)" and "ri_IsLeaderFor r \<lparr>nn_Namespace = ns, nn_Name = name\<rparr>"
    and "ri_Lister r = (\<lambda>ns name. namespace_Get ns name ix)" and "ix_reachable ix" and "namespace_Get ns name ix = Inr original"
    and "om_DeletionTimestamp (kc_Meta original) = None" and "ri_finalizerName r \<in> set (om_Finalizers (kc_Meta original))"
    and "ri_reconciler r = controller_business env" and "\<not> ri_skipStatusUpdates r"
    and "status_wf (kc_Status original)" and "Validate (SetDefaults original) \<noteq> None"
    and "st_ObservedGeneration (kc_Status original) \<noteq> om_Generation (kc_Meta original)"
  shows "\<exists>new. g_log (fst (Reconcile r key g)) = g_log g @ new \<and> (\<exists>kc. UpdateStatus kc \<in> set new) \<and>
           (\<forall>kc. UpdateStatus kc \<in> set new \<longrightarrow>
              st_ObservedGeneration (kc_Status kc) = om_Generation (kc_Meta original) \<and> \<not> IsReady_status (kc_Status kc))"
proof -
  have listed: "ri_Lister r ns name = Inr original" "kc_Namespace original = ns" "kc_Name original = name"
    using assms(3,5) kc_lister.get_key [OF ix_reachable_inv [OF assms(4)] assms(1,5)] by auto
  obtain pre w e g1 where p:
    "pre = PreProcessReconcile (ri_preTime r) (with_finalizers (sorted_list_of_set (set (om_Finalizers (kc_Meta original)))) original)"
    "ReconcileKind env ((g_world g)\<lparr>rs_kc := pre\<rparr>) = (w, e)"
    "g_log g1 = g_log g @ [Called DoReconcileKind pre]"
    "logs (\<lambda>c. is_status_call (kc_Status (PostProcessReconcile (ri_postTime r) (rs_kc w) original)) c) g1 (fst (Reconcile r key g))"
    "\<not> Semantic_DeepEqual (kc_Status original) (kc_Status (PostProcessReconcile (ri_postTime r) (rs_kc w) original)) \<Longrightarrow>
       \<exists>kc. UpdateStatus kc \<in> set (drop (length (g_log g1)) (g_log (fst (Reconcile r key g))))"
    using controller_pass [OF assms(1,2) listed assms(6-9), of g thesis] by blast
  let ?st = "kc_Status (PostProcessReconcile (ri_postTime r) (rs_kc w) original)"
  have "st_InitializeConditions now (kc_Status original) = kc_Status original" for now
    using assms(10) by (simp add: st_InitializeConditions_def status_wf_def InitializeConditions_idle)
  then have pre: "kc_Status pre = markUnknown (ri_preTime r) ConditionReady failedGenerationBump
      ''unsuccessfully observed a new generation'' (kc_Status original)"
    using assms(12) by (simp add: p(1) PreProcessReconcile_def SetDefaults_def with_finalizers_def Let_def)
  have "Validate (SetDefaults pre) \<noteq> None" using assms(11) by (simp add: p(1) PreProcess_valid)
  then obtain err where "Validate (SetDefaults (rs_kc ((g_world g)\<lparr>rs_kc := pre\<rparr>))) = Some err" by auto
  from ReconcileKind_invalid [OF this, of env] p(2) markUnknown_Ready [OF assms(10)] have "kc_Status (rs_kc w) = kc_Status pre"
    by (simp add: pre)
  then have nr: "\<not> IsReady_status ?st" using markUnknown_Ready(2) [OF assms(10)] by (simp add: pre)
  have "kept ((g_world g)\<lparr>rs_kc := pre\<rparr>) w" using ReconcileKind_kept [of "(g_world g)\<lparr>rs_kc := pre\<rparr>" env] p(2) by simp
  then have og: "st_ObservedGeneration ?st = om_Generation (kc_Meta original)"
    by (simp add: kept_def p(1) with_finalizers_def)
  have "\<not> Semantic_DeepEqual (kc_Status original) ?st"
  proof
    assume "Semantic_DeepEqual (kc_Status original) ?st"
    then have "st_ObservedGeneration (erase_times (kc_Status original)) = st_ObservedGeneration (erase_times ?st)"
      by (simp add: Semantic_DeepEqual_def)
    with og assms(12) show False by (simp add: erase_times_def)
  qed
  note upd = p(5) [OF this]
  from p(4) obtain new where "g_log (fst (Reconcile r key g)) = g_log g1 @ new" "list_all (is_status_call ?st) new"
    by (auto simp: logs_def)
  with nr og upd p(3) show ?thesis by (intro exI [of _ "Called DoReconcileKind pre # new"]) (auto simp: list_all_iff)
qed

theorem invalid_generation_not_ready_witness:
  "\<exists>kc. UpdateStatus kc \<in> set (g_log (fst (Reconcile (sample_controller (-1)) ''ns/ch'' sample_controller_state))) \<and>
        st_ObservedGeneration (kc_Status kc) = 2 \<and> \<not> IsReady_status (kc_Status kc)"
proof -
  have inv: "Validate (SetDefaults (sample_stored (-1))) \<noteq> None"
    by (simp add: Validate_None_iff SetDefaults_def spec_SetDefaults_def sample_stored_def with_finalizers_def sample_defs)
  have "\<exists>new. g_log (fst (Reconcile (sample_controller (-1)) ''ns/ch'' sample_controller_state)) = g_log sample_controller_state @ new \<and>
      (\<exists>kc. UpdateStatus kc \<in> set new) \<and>
      (\<forall>kc. UpdateStatus kc \<in> set new \<longrightarrow>
         st_ObservedGeneration (kc_Status kc) = om_Generation (kc_Meta (sample_stored (-1))) \<and> \<not> IsReady_status (kc_Status kc))"
    by (rule invalid_generation_not_ready [OF sample_key, where ix = "sample_store (-1)"])
      (simp_all add: sample_initial_status_wf, insert inv, simp)
  then show ?thesis by (auto simp: sample_controller_state_def)
qed

text \<open>
  C33: The status that the leading controller writes at the end of a pass: it observes the generation
  that was reconciled, and its list of subscribers is the one that the informer's copy had before the
  pass. The list that the same pass has computed and sent as a patch is therefore written over by the
  old one whenever anything else of the status changed.
\<close>

theorem written_status:
  assumes "SplitMetaNamespaceKey key = Inr (ns, name)" and "ri_IsLeaderFor r \<lparr>nn_Namespace = ns, nn_Name = name\<rparr>"
    and "ri_Lister r = (\<lambda>ns name. namespace_Get ns name ix)" and "ix_reachable ix" and "namespace_Get ns name ix = Inr original"
    and "om_DeletionTimestamp (kc_Meta original) = None" and "ri_finalizerName r \<in> set (om_Finalizers (kc_Meta original))"
    and "ri_reconciler r = controller_business env" and "\<not> ri_skipStatusUpdates r"
  shows "\<exists>new. g_log (fst (Reconcile r key g)) = g_log g @ new \<and>
           (\<forall>kc. UpdateStatus kc \<in> set new \<longrightarrow>
              st_ObservedGeneration (kc_Status kc) = om_Generation (kc_Meta original) \<and>
              st_Subscribers (kc_Status kc) = st_Subscribers (kc_Status original))"
proof -
  have listed: "ri_Lister r ns name = Inr original" "kc_Namespace original = ns" "kc_Name original = name"
    using assms(3,5) kc_lister.get_key [OF ix_reachable_inv [OF assms(4)] assms(1,5)] by auto
  obtain pre w e g1 where p:
    "pre = PreProcessReconcile (ri_preTime r) (with_finalizers (sorted_list_of_set (set (om_Finalizers (kc_Meta original)))) original)"
    "ReconcileKind env ((g_world g)\<lparr>rs_kc := pre\<rparr>) = (w, e)"
    "g_log g1 = g_log g @ [Called DoReconcileKind pre]"
    "logs (\<lambda>c. is_status_call (kc_Status (PostProcessReconcile (ri_postTime r) (rs_kc w) original)) c) g1 (fst (Reconcile r key g))"
    using controller_pass [OF assms(1,2) listed assms(6-9), of g thesis] by blast
  let ?st = "kc_Status (PostProcessReconcile (ri_postTime r) (rs_kc w) original)"
  have "kept ((g_world g)\<lparr>rs_kc := pre\<rparr>) w" using ReconcileKind_kept [of "(g_world g)\<lparr>rs_kc := pre\<rparr>" env] p(2) by simp
  then have st: "st_ObservedGeneration ?st = om_Generation (kc_Meta original)" "st_Subscribers ?st = st_Subscribers (kc_Status original)"
    by (simp_all add: kept_def p(1) with_finalizers_def)
  from p(4) obtain new where "g_log (fst (Reconcile r key g)) = g_log g1 @ new" "list_all (is_status_call ?st) new"
    by (auto simp: logs_def)
  with st p(3) show ?thesis by (intro exI [of _ "Called DoReconcileKind pre # new"]) (auto simp: list_all_iff)
qed

theorem written_status_witness:
  "list_all (\<lambda>c. case c of UpdateStatus kc \<Rightarrow> st_ObservedGeneration (kc_Status kc) = 2 \<and> st_Subscribers (kc_Status kc) = [] | _ \<Rightarrow> True)
     (g_log (fst (Reconcile (sample_controller 1) ''ns/ch'' sample_controller_state)))"
proof -
  have "\<exists>new. g_log (fst (Reconcile (sample_controller 1) ''ns/ch'' sample_controller_state)) = g_log sample_controller_state @ new \<and>
      (\<forall>kc. UpdateStatus kc \<in> set new \<longrightarrow>
         st_ObservedGeneration (kc_Status kc) = om_Generation (kc_Meta (sample_stored 1)) \<and>
         st_Subscribers (kc_Status kc) = st_Subscribers (kc_Status (sample_stored 1)))"
    by (rule written_status [OF sample_key, where ix = "sample_store 1"]) simp_all
  then show ?thesis by (auto simp: list_all_iff sample_controller_state_def split: gen_call.split)
qed

section \<open>From a probe to a pass\<close>

text \<open>
  C8: A completed probe leads to a pass over the channel that sees the subscription as ready: when the last
  outstanding probe of a pod succeeds and all partitions of the channel have been reported, the key of the
  channel is queued and stays so until a worker takes it, at any moment the goroutines can get it to a worker,
  the worker's key names the channel, and whatever the prober does in between, as long as it has not discarded
  the state of the subscription, a pass that asks about the subscription gets the answer True.
\<close>

theorem probe_success_reaches_worker:
  assumes "impl_reachable n (cp_impl cp)" and "0 < n" and "prober_reachable (cp_statusManager cp)"
    and "i < length (p_succeeding (cp_statusManager cp))" and "item = p_succeeding (cp_statusManager cp) ! i"
    and "ps_pendingCount (p_pods (cp_statusManager cp) (wi_podState item)) = 1"
    and "st = p_states (cp_statusManager cp) (wi_targetStates item)"
    and "\<not> ts_ready st" and "int (card (ts_readyPartitions st)) = sint (sp_NumPartitions (kc_Spec (ts_ch st)))"
    and "named (ts_ch st)"
  shows "(\<forall>c. runs_without (kc_ref (ts_ch st)) (cp_impl (prober_progress (succeed_item i (cp_statusManager cp)) cp)) c \<longrightarrow>
             queued (kc_ref (ts_ch st)) c \<and> can_take (kc_ref (ts_ch st)) c) \<and>
         SplitMetaNamespaceKey (safeKey (kc_ref (ts_ch st))) = Inr (kc_Namespace (ts_ch st), kc_Name (ts_ch st)) \<and>
         (\<forall>m ch target. prober_step\<^sup>*\<^sup>* (succeed_item i (cp_statusManager cp)) m \<and>
             p_targetStates m (ss_UID (ts_sub st)) = Some (wi_targetStates item) \<and> ListProbeTargets lister ch = Inr target \<longrightarrow>
             snd (IsReady ord (ListProbeTargets lister) ch (ts_sub st) m) = Inr True)"
proof -
  let ?m = "cp_statusManager cp" and ?cp = "prober_progress (succeed_item i (cp_statusManager cp)) cp"
  let ?call = "\<lparr>rc_state = wi_targetStates item, rc_pod = wi_podState item, rc_ch = ts_ch st, rc_sub = ts_sub st\<rparr>"
  note inv = impl_reachable_inv [OF assms(1)]
  have m': "prober_inv (succeed_item i ?m)"
    using prober_step_spec [OF prober_step.succeed [OF assms(4)] reachable_inv [OF assms(3)]] by blast
  have calls: "p_calls (succeed_item i ?m) = p_calls ?m @ [?call]"
    using success_calls [OF assms(4) assms(5) [symmetric] assms(6)] assms(7-9) by simp
  have eq: "cp_impl ?cp = EnqueueKey (kc_ref (ts_ch st)) (cp_impl cp)"
    by (simp add: prober_progress_def calls readyCallback_def)
  have q: "im_inv n (cp_impl ?cp)" "queued (kc_ref (ts_ch st)) (cp_impl ?cp)"
    unfolding eq by (simp_all add: fast_sink.enqueue_inv [OF inv] fast_sink.enqueue_waits [OF inv])
  have "queued (kc_ref (ts_ch st)) c \<and> can_take (kc_ref (ts_ch st)) c" if "runs_without (kc_ref (ts_ch st)) (cp_impl ?cp) c" for c
    using runs_without_keeps [OF that q] queued_take [of n c "kc_ref (ts_ch st)"] assms(2) by simp
  moreover have "snd (IsReady ord (ListProbeTargets lister) ch (ts_sub st) m) = Inr True"
    if "prober_step\<^sup>*\<^sup>* (succeed_item i ?m) m" "p_targetStates m (ss_UID (ts_sub st)) = Some (wi_targetStates item)"
      "ListProbeTargets lister ch = Inr target" for m ch target
    using called_is_ready [OF m' _ that(1), of ?call "ListProbeTargets lister" ch target ord] that(2,3) calls by simp
  ultimately show ?thesis using safeKey_split [OF assms(10)] by blast
qed

theorem probe_success_reaches_worker_witness:
  "can_take \<lparr>nn_Namespace = ''ns'', nn_Name = ''ch''\<rparr>
     (cp_impl (prober_progress (succeed_item 0 (sample_verified 1 [''u'' \<mapsto> [0]]))
        (sample_process\<lparr>cp_statusManager := sample_verified 1 [''u'' \<mapsto> [0]]\<rparr>)))"
proof -
  let ?m = "sample_verified 1 [''u'' \<mapsto> [0]]"
  let ?cp = "sample_process\<lparr>cp_statusManager := ?m\<rparr>"
  have m: "p_succeeding ?m = [\<lparr>wi_targetStates = 0, wi_podState = 0, wi_url = pt_URL sample_target,
      wi_podIP = ''10.0.0.1'', wi_podPort = ''8081''\<rparr>]"
    "ps_pendingCount (p_pods ?m 0) = 1" "\<not> ts_ready (p_states ?m 0)" "card (ts_readyPartitions (p_states ?m 0)) = 1"
    "sp_NumPartitions (kc_Spec (ts_ch (p_states ?m 0))) = 1" "kc_Namespace (ts_ch (p_states ?m 0)) = ''ns''"
    "kc_Name (ts_ch (p_states ?m 0)) = ''ch''"
    by (simp_all add: sample_run_defs sample_channel_def sample_spec_def sample_defs)
  have r: "impl_reachable 2 (cp_impl ?cp)" by (simp add: sample_process_def impl_reachable.new)
  have p: "prober_reachable ?m" by (rule sample_verified_reachable [where body = "[''u'' \<mapsto> [0]]"]) simp
  note applied = probe_success_reaches_worker [where cp = ?cp and i = 0 and item = "p_succeeding ?m ! 0" and st = "p_states ?m 0" and n = 2 and
      lister = "\<lambda>_ _. Inr []" and ord = sorted_list_of_set]
  have "\<forall>c. runs_without \<lparr>nn_Namespace = ''ns'', nn_Name = ''ch''\<rparr> (cp_impl (prober_progress (succeed_item 0 ?m) ?cp)) c \<longrightarrow>
      can_take \<lparr>nn_Namespace = ''ns'', nn_Name = ''ch''\<rparr> c"
    using applied r p m by (simp add: named_def)
  then show ?thesis by (simp add: runs_without.nothing)
qed

end
